(* ===== verification/Prelude.thy ===== *)
theory Prelude
  imports Main "HOL-Library.Word" "HOL-Library.Monad_Syntax" "HOL-Library.Sublist"
begin

unbundle bit_operations_syntax

text \<open>
  Shared vocabulary of the development: the machine integers and byte strings of the Rust code,
  slices that panic out of range, the big-endian conversions of the standard library
  (\<open>to_be_bytes\<close>, \<open>from_be_bytes\<close>), the contract of a byte codec as a locale, and the
  contract of a state machine with an invariant.

  Conventions. A Rust \<open>Result<T, E>\<close> is \<open>'e + 't\<close> with \<open>Inl\<close> for \<open>Err\<close>; a Rust
  \<open>Option<T>\<close> is \<open>'t option\<close>. A function that can panic returns \<open>'t panics\<close>, an option
  whose \<open>None\<close> (written \<open>Panic\<close>) is the panic, so that a panic is a value of the model and a
  theorem has to show that it does not happen. \<open>usize\<close> lengths and offsets are \<open>nat\<close>: they
  count bytes held in memory on a 64-bit target, where no sum of the code overflows.
\<close>

named_theorems byte_simps \<open>evaluation of bytes, slices and big-endian integers\<close>

type_synonym u8 = "8 word"
type_synonym u16 = "16 word"
type_synonym u32 = "32 word"
type_synonym u64 = "64 word"
type_synonym bytes = "u8 list"

type_synonym 'a panics = "'a option"

abbreviation (input) Panic :: "'a panics" where
  "Panic \<equiv> None"

abbreviation (input) Ret :: "'a \<Rightarrow> 'a panics" where
  "Ret x \<equiv> Some x"

text \<open>Rust's \<open>Result::ok\<close> and the \<open>expect\<close> of an option (a panic on \<open>None\<close>).\<close>

definition result_ok :: "'e + 'a \<Rightarrow> 'a option" where
  "result_ok r = (case r of Inl _ \<Rightarrow> None | Inr x \<Rightarrow> Some x)"

lemma result_ok_simps [simp]: "result_ok (Inl e) = None" "result_ok (Inr x) = Some x"
  by (simp_all add: result_ok_def)

text \<open>An ASCII string literal, and the slice \<open>xs[a..b]\<close>, which panics out of range.\<close>

definition ascii :: "string \<Rightarrow> bytes" where [byte_simps]:
  "ascii s = map of_char s"

lemma length_ascii [simp]: "length (ascii s) = length s"
  by (simp add: ascii_def)

lemma ascii_append: "ascii (s @ t) = ascii s @ ascii t"
  by (simp add: ascii_def)

definition sub_slice :: "'a list \<Rightarrow> nat \<Rightarrow> nat \<Rightarrow> 'a list panics" where
  "sub_slice xs a b = (if a \<le> b \<and> b \<le> length xs then Ret (take (b - a) (drop a xs)) else Panic)"

lemma sub_slice_Some [byte_simps]:
  "a \<le> b \<Longrightarrow> b \<le> length xs \<Longrightarrow> sub_slice xs a b = Some (take (b - a) (drop a xs))"
  by (simp add: sub_slice_def)

lemma sub_slice_None_iff: "sub_slice xs a b = None \<longleftrightarrow> b < a \<or> length xs < b"
  by (auto simp: sub_slice_def)

lemma sub_slice_append: "sub_slice (xs @ ys @ zs) (length xs) (length xs + length ys) = Some ys"
  by (simp add: sub_slice_def)

lemma sub_slice_SomeD: "sub_slice xs a b = Some ys \<Longrightarrow> length ys = b - a \<and> a \<le> b \<and> b \<le> length xs"
  by (auto simp: sub_slice_def split: if_splits)

text \<open>
  \<open>split_at\<close> (panics out of range), \<open>copy_from_slice\<close> (panics on different lengths), indexing, a
  \<open>for\<close> loop whose body can panic, and the byte-wise exclusive or of two slices.
\<close>

definition split_at :: "'a list \<Rightarrow> nat \<Rightarrow> ('a list \<times> 'a list) panics" where
  "split_at xs n = (if n \<le> length xs then Ret (take n xs, drop n xs) else Panic)"

lemma split_at_append [simp]: "n = length xs \<Longrightarrow> split_at (xs @ ys) n = Some (xs, ys)"
  by (simp add: split_at_def)

definition usize_sub :: "nat \<Rightarrow> nat \<Rightarrow> nat panics" where
  "usize_sub a b = (if b \<le> a then Ret (a - b) else Panic)"

definition copy_from_slice :: "'a list \<Rightarrow> 'a list \<Rightarrow> 'a list panics" where
  "copy_from_slice dst src = (if length dst = length src then Ret src else Panic)"

definition index :: "'a list \<Rightarrow> nat \<Rightarrow> 'a panics" where
  "index xs i = (if i < length xs then Ret (xs ! i) else Panic)"

definition index_set :: "'a list \<Rightarrow> nat \<Rightarrow> 'a \<Rightarrow> 'a list panics" where
  "index_set xs i x = (if i < length xs then Ret (xs[i := x]) else Panic)"

fun for_each :: "('i \<Rightarrow> 's \<Rightarrow> 's panics) \<Rightarrow> 'i list \<Rightarrow> 's \<Rightarrow> 's panics" where
  "for_each f [] s = Ret s"
| "for_each f (i # is) s = (case f i s of Some t \<Rightarrow> for_each f is t | None \<Rightarrow> Panic)"

lemma for_each_append:
  "for_each f (xs @ ys) s = (case for_each f xs s of Some t \<Rightarrow> for_each f ys t | None \<Rightarrow> None)"
  by (induction xs arbitrary: s) (auto split: option.splits)

text \<open>A loop over \<open>0..n\<close> that xors \<open>ys[i]\<close> into \<open>xs[off + i]\<close>, and its result byte by byte.\<close>

definition xor_at :: "nat \<Rightarrow> (nat \<Rightarrow> u8) \<Rightarrow> nat \<Rightarrow> bytes \<Rightarrow> bytes panics" where
  "xor_at off y i xs = do { x \<leftarrow> index xs (off + i); index_set xs (off + i) (x XOR y i) }"

lemma for_each_xor:
  assumes "off + n \<le> length xs"
  shows "\<exists>zs. for_each (xor_at off y) [0..<n] xs = Some zs \<and> length zs = length xs \<and>
    (\<forall>j < length xs. zs ! j = (if off \<le> j \<and> j < off + n then xs ! j XOR y (j - off) else xs ! j))"
  using assms
proof (induction n)
  case (Suc n)
  then obtain zs where zs: "for_each (xor_at off y) [0..<n] xs = Some zs" "length zs = length xs"
    "\<forall>j < length xs. zs ! j = (if off \<le> j \<and> j < off + n then xs ! j XOR y (j - off) else xs ! j)"
    by auto
  with Suc.prems have "for_each (xor_at off y) [0..<Suc n] xs = Some (zs[off + n := zs ! (off + n) XOR y n])"
    by (simp add: for_each_append xor_at_def index_def index_set_def)
  moreover have "\<forall>j < length xs. zs[off + n := zs ! (off + n) XOR y n] ! j
      = (if off \<le> j \<and> j < off + Suc n then xs ! j XOR y (j - off) else xs ! j)"
    using zs(2,3) Suc.prems by (auto simp: nth_list_update)
  ultimately show ?case using zs(2) by auto
qed auto

lemma xor_at_None: "length xs \<le> off + i \<Longrightarrow> xor_at off y i xs = None"
  by (simp add: xor_at_def index_def)

lemma for_each_xor_None:
  assumes "length xs < off + n" and "0 < n"
  shows "for_each (xor_at off y) [0..<n] xs = None"
  using assms
proof (induction n)
  case (Suc n)
  consider "length xs < off + n" "0 < n" | "length xs \<le> off" "n = 0" | "off + n \<le> length xs"
    using Suc.prems by linarith
  then show ?case
  proof cases
    case 1
    with Suc.IH show ?thesis by (simp add: for_each_append)
  next
    case 2
    then show ?thesis by (simp add: xor_at_None)
  next
    case 3
    then obtain zs where "for_each (xor_at off y) [0..<n] xs = Some zs" "length zs = length xs"
      using for_each_xor [of off n xs y] by auto
    with Suc.prems show ?thesis by (simp add: for_each_append xor_at_None)
  qed
qed simp

subsection \<open>Prefixes\<close>

lemma prefix_takeD: "prefix xs ys \<Longrightarrow> xs = take (length xs) ys \<and> length xs \<le> length ys"
  by (metis append_eq_conv_conj prefix_def prefix_length_le)

lemma strict_prefix_append_long:
  assumes "strict_prefix p (a @ b)" and "length a \<le> length p"
  obtains q where "p = a @ q" and "strict_prefix q b"
proof -
  from assms(1) obtain z zs where "a @ b = p @ z # zs" by (rule strict_prefixE')
  with assms(2) obtain q where "p = a @ q" and "b = q @ z # zs"
    by (auto simp: append_eq_append_conv2)
  then show ?thesis using that by (auto simp: strict_prefix_def)
qed

subsection \<open>Big-endian integers\<close>

fun be_of_nat :: "nat \<Rightarrow> nat \<Rightarrow> bytes" where
  "be_of_nat 0 x = []"
| "be_of_nat (Suc n) x = word_of_nat (x div 256 ^ n) # be_of_nat n x"

text \<open>Evaluation at a numeral length, without unfolding the numeral into successors.\<close>

lemma be_of_nat_numeral [byte_simps]:
  "be_of_nat (numeral k) x = word_of_nat (x div 256 ^ pred_numeral k) # be_of_nat (pred_numeral k) x"
  by (simp add: numeral_eq_Suc)

fun be_to_nat :: "bytes \<Rightarrow> nat" where
  "be_to_nat [] = 0"
| "be_to_nat (b # bs) = unat b * 256 ^ length bs + be_to_nat bs"

lemma length_be_of_nat [simp]: "length (be_of_nat n x) = n"
  by (induction n) simp_all

lemma unat_lt2p: "unat (w :: 'a::len word) < 2 ^ LENGTH('a)"
  by (rule unsigned_less)

lemma be_to_nat_bound: "be_to_nat bs < 256 ^ length bs"
proof (induction bs)
  case (Cons b bs)
  have "unat b + 1 \<le> 256"
    using unat_lt2p [of b] by simp
  then have "(unat b + 1) * 256 ^ length bs \<le> 256 * 256 ^ length bs"
    by (rule mult_right_mono) simp
  then have "unat b * 256 ^ length bs + 256 ^ length bs \<le> 256 * 256 ^ length bs"
    by (simp only: distrib_right mult_1)
  with Cons have "be_to_nat (b # bs) < 256 * 256 ^ length bs"
    unfolding be_to_nat.simps by linarith
  then show ?case by simp
qed simp

lemma unat_byte_of_nat: "unat (word_of_nat x :: u8) = x mod 256"
  by (simp add: unat_of_nat)

lemma byte_len_inj:
  "m < 256 \<Longrightarrow> n < 256 \<Longrightarrow> (word_of_nat m :: u8) = word_of_nat n \<longleftrightarrow> m = n"
  by (metis mod_less unat_byte_of_nat)

lemma unat_u16_of_nat: "unat (word_of_nat x :: u16) = x mod 65536"
  by (simp add: unat_of_nat)

lemma u16_len_inj:
  "m < 65536 \<Longrightarrow> n < 65536 \<Longrightarrow> (word_of_nat m :: u16) = word_of_nat n \<longleftrightarrow> m = n"
  by (metis mod_less unat_u16_of_nat)

lemma be_to_nat_of_nat: "be_to_nat (be_of_nat n x) = x mod 256 ^ n"
proof (induction n)
  case (Suc n)
  have "x mod 256 ^ Suc n = 256 ^ n * (x div 256 ^ n mod 256) + x mod 256 ^ n"
    using mod_mult2_eq [of x "256 ^ n" 256] by (simp add: mult.commute)
  with Suc show ?case by (simp add: unat_byte_of_nat)
qed simp

lemma be_of_nat_mod: "be_of_nat n (y * 256 ^ n + x) = be_of_nat n x"
proof (induction n arbitrary: y)
  case (Suc n)
  have split: "y * 256 ^ Suc n + x = (y * 256) * 256 ^ n + x" by simp
  have "((y * 256) * 256 ^ n + x) div 256 ^ n mod 256 = x div 256 ^ n mod 256"
    by (simp add: mod_mult_self3)
  then have "(word_of_nat (((y * 256) * 256 ^ n + x) div 256 ^ n) :: u8) = word_of_nat (x div 256 ^ n)"
    by (intro unsigned_word_eqI [where ?'a = nat]) (simp only: unat_byte_of_nat)
  with Suc [of "y * 256"] show ?case by (simp only: split be_of_nat.simps)
qed simp

lemma be_of_nat_to_nat: "be_of_nat (length bs) (be_to_nat bs) = bs"
proof (induction bs)
  case (Cons b bs)
  have "(unat b * 256 ^ length bs + be_to_nat bs) div 256 ^ length bs = unat b"
    using be_to_nat_bound [of bs] by simp
  with Cons show ?case by (simp add: be_of_nat_mod)
qed simp

definition u64_to_be_bytes :: "u64 \<Rightarrow> bytes" where [byte_simps]:
  "u64_to_be_bytes w = be_of_nat 8 (unat w)"

definition u64_from_be_bytes :: "bytes \<Rightarrow> u64" where [byte_simps]:
  "u64_from_be_bytes bs = word_of_nat (be_to_nat bs)"

definition u32_to_be_bytes :: "u32 \<Rightarrow> bytes" where [byte_simps]:
  "u32_to_be_bytes w = be_of_nat 4 (unat w)"

definition u32_from_be_bytes :: "bytes \<Rightarrow> u32" where [byte_simps]:
  "u32_from_be_bytes bs = word_of_nat (be_to_nat bs)"

definition u16_to_be_bytes :: "u16 \<Rightarrow> bytes" where [byte_simps]:
  "u16_to_be_bytes w = be_of_nat 2 (unat w)"

lemma length_to_be_bytes [simp]:
  "length (u64_to_be_bytes w) = 8" "length (u32_to_be_bytes v) = 4" "length (u16_to_be_bytes u) = 2"
  by (simp_all add: u64_to_be_bytes_def u32_to_be_bytes_def u16_to_be_bytes_def)

lemma to_be_bytes_not_Nil [simp]: "u64_to_be_bytes w \<noteq> []" "u32_to_be_bytes v \<noteq> []"
  using length_to_be_bytes(1) [of w] length_to_be_bytes(2) [of v] by force+

lemma u64_be_roundtrip [simp]: "u64_from_be_bytes (u64_to_be_bytes w) = w"
proof -
  have "unat w < 256 ^ 8" using unat_lt2p [of w] by simp
  then show ?thesis
    by (simp add: u64_to_be_bytes_def u64_from_be_bytes_def be_to_nat_of_nat del: be_of_nat.simps)
qed

lemma u32_be_roundtrip [simp]: "u32_from_be_bytes (u32_to_be_bytes w) = w"
proof -
  have "unat w < 256 ^ 4" using unat_lt2p [of w] by simp
  then show ?thesis
    by (simp add: u32_to_be_bytes_def u32_from_be_bytes_def be_to_nat_of_nat del: be_of_nat.simps)
qed

lemma u64_be_canonical: "length bs = 8 \<Longrightarrow> u64_to_be_bytes (u64_from_be_bytes bs) = bs"
  using be_to_nat_bound [of bs] be_of_nat_to_nat [of bs]
  by (simp add: u64_to_be_bytes_def u64_from_be_bytes_def unat_of_nat del: be_of_nat.simps)

lemma u32_be_canonical: "length bs = 4 \<Longrightarrow> u32_to_be_bytes (u32_from_be_bytes bs) = bs"
  using be_to_nat_bound [of bs] be_of_nat_to_nat [of bs]
  by (simp add: u32_to_be_bytes_def u32_from_be_bytes_def unat_of_nat del: be_of_nat.simps)

lemma u64_to_be_bytes_inj: "u64_to_be_bytes v = u64_to_be_bytes w \<longleftrightarrow> v = w"
  by (metis u64_be_roundtrip)

lemma u32_to_be_bytes_inj: "u32_to_be_bytes v = u32_to_be_bytes w \<longleftrightarrow> v = w"
  by (metis u32_be_roundtrip)

lemma u16_to_be_bytes_inj: "u16_to_be_bytes v = u16_to_be_bytes w \<longleftrightarrow> v = w"
proof -
  have "be_to_nat (u16_to_be_bytes x) = unat x" for x
    using unat_lt2p [of x] by (simp add: u16_to_be_bytes_def be_to_nat_of_nat del: be_of_nat.simps)
  then show ?thesis by (metis unsigned_word_eqI)
qed

subsection \<open>The contract of a byte codec\<close>

text \<open>
  A parser of one value returns the value and the bytes it leaves; \<open>dec_list\<close> parses a given
  number of values one after another. The locale states the two laws of a codec (what is written
  is read back and nothing more is consumed; what is read is what would have been written) and
  derives once what the formats of the code need: distinct values have distinct encodings, an
  encoding is never a prefix of another one, and both hold for sequences.
\<close>

fun dec_list :: "(bytes \<Rightarrow> ('a \<times> bytes) option) \<Rightarrow> nat \<Rightarrow> bytes \<Rightarrow> ('a list \<times> bytes) option" where
  "dec_list dec 0 bs = Some ([], bs)"
| "dec_list dec (Suc n) bs =
     (case dec bs of None \<Rightarrow> None
      | Some (x, rest) \<Rightarrow>
          (case dec_list dec n rest of None \<Rightarrow> None | Some (xs, r) \<Rightarrow> Some (x # xs, r)))"

locale byte_codec =
  fixes enc :: "'a \<Rightarrow> bytes"
    and dec :: "bytes \<Rightarrow> ('a \<times> bytes) option"
    and ok :: "'a \<Rightarrow> bool"
  assumes dec_enc: "ok x \<Longrightarrow> dec (enc x @ rest) = Some (x, rest)"
    and enc_dec: "dec bs = Some (x, rest) \<Longrightarrow> bs = enc x @ rest \<and> ok x"
begin

lemma prefix_free: "ok x \<Longrightarrow> ok y \<Longrightarrow> enc x @ r = enc y @ s \<Longrightarrow> x = y \<and> r = s"
  by (metis dec_enc option.inject prod.inject)

lemma enc_inj: "ok x \<Longrightarrow> ok y \<Longrightarrow> enc x = enc y \<Longrightarrow> x = y"
  using prefix_free [of x y "[]" "[]"] by simp

lemma strict_prefix_dec:
  assumes "ok x" and "strict_prefix p (enc x)"
  shows "dec p = None"
proof (rule ccontr)
  assume "dec p \<noteq> None"
  then obtain y r where "dec p = Some (y, r)" by auto
  with enc_dec have p: "p = enc y @ r" "ok y" by blast+
  from assms(2) obtain z zs where "enc x = p @ z # zs" by (elim strict_prefixE')
  with p prefix_free [OF assms(1) p(2), of "[]" "r @ z # zs"] show False by simp
qed

text \<open>A stream cut off anywhere reads as some of its values and an incomplete rest.\<close>

lemma prefix_values:
  "\<forall>x \<in> set xs. ok x \<Longrightarrow> dec [] = None \<Longrightarrow> prefix p (concat (map enc xs)) \<Longrightarrow>
     \<exists>n rest. n \<le> length xs \<and> p = concat (map enc (take n xs)) @ rest \<and> dec rest = None
       \<and> (p = concat (map enc xs) \<longrightarrow> n = length xs)"
proof (induction xs arbitrary: p)
  case (Cons x xs)
  show ?case
  proof (cases "strict_prefix p (enc x)")
    case True
    then have "dec p = None" using strict_prefix_dec [of x p] Cons.prems(1) by simp
    moreover have "length p < length (enc x)" using True by (rule prefix_length_less)
    then have "p \<noteq> concat (map enc (x # xs))" by auto
    ultimately show ?thesis by (intro exI [of _ 0] exI [of _ p]) simp
  next
    case False
    from Cons.prems(3) have "prefix p (enc x @ concat (map enc xs))" by simp
    with False obtain q where q: "p = enc x @ q" "prefix q (concat (map enc xs))"
      by (auto simp: prefix_append strict_prefix_def)
    have "\<forall>x \<in> set xs. ok x" using Cons.prems(1) by simp
    from Cons.IH [OF this Cons.prems(2) q(2)] obtain n rest where n: "n \<le> length xs"
      "q = concat (map enc (take n xs)) @ rest" "dec rest = None" "q = concat (map enc xs) \<longrightarrow> n = length xs"
      by (elim exE conjE)
    have "p = concat (map enc (take (Suc n) (x # xs))) @ rest" using q(1) n(2) by simp
    moreover have "p = concat (map enc (x # xs)) \<longrightarrow> Suc n = length (x # xs)" using q(1) n(4) by auto
    moreover have "Suc n \<le> length (x # xs)" using n(1) by simp
    ultimately show ?thesis using n(3) by blast
  qed
qed simp

lemma dec_list_enc:
  "\<forall>x \<in> set xs. ok x \<Longrightarrow> dec_list dec (length xs) (concat (map enc xs) @ rest) = Some (xs, rest)"
proof (induction xs)
  case (Cons x xs)
  then have "dec (enc x @ concat (map enc xs) @ rest) = Some (x, concat (map enc xs) @ rest)"
    by (intro dec_enc) simp
  with Cons show ?case by simp
qed simp

lemma dec_list_sound:
  "dec_list dec n bs = Some (xs, rest) \<Longrightarrow>
     bs = concat (map enc xs) @ rest \<and> length xs = n \<and> (\<forall>x \<in> set xs. ok x)"
proof (induction n arbitrary: bs xs)
  case (Suc n)
  then show ?case by (fastforce split: option.splits dest: enc_dec)
qed simp

lemma dec_list_strict_prefix:
  assumes "\<forall>x \<in> set xs. ok x" and "strict_prefix p (concat (map enc xs))"
  shows "dec_list dec (length xs) p = None"
proof (rule ccontr)
  assume "\<not> ?thesis"
  then obtain ys r where ys: "dec_list dec (length xs) p = Some (ys, r)" by auto
  from assms(2) obtain z zs where z: "concat (map enc xs) = p @ z # zs"
    by (elim strict_prefixE')
  from ys have p: "p = concat (map enc ys) @ r" and len: "length ys = length xs"
    and ok: "\<forall>y \<in> set ys. ok y"
    using dec_list_sound by blast+
  have "dec_list dec (length xs) (concat (map enc ys) @ r @ z # zs) = Some (ys, r @ z # zs)"
    using dec_list_enc [OF ok] len by simp
  moreover have "dec_list dec (length xs) (concat (map enc xs)) = Some (xs, [])"
    using dec_list_enc [OF assms(1), of "[]"] by simp
  ultimately show False using z p by simp
qed

end

subsection \<open>The contract of a state machine with an invariant\<close>

inductive reach :: "('s \<Rightarrow> bool) \<Rightarrow> ('s \<Rightarrow> 's \<Rightarrow> bool) \<Rightarrow> 's \<Rightarrow> bool" for init step where
  reach_init: "init s \<Longrightarrow> reach init step s"
| reach_step: "reach init step s \<Longrightarrow> step s t \<Longrightarrow> reach init step t"

locale machine_invariant =
  fixes init :: "'s \<Rightarrow> bool"
    and step :: "'s \<Rightarrow> 's \<Rightarrow> bool"
    and inv :: "'s \<Rightarrow> bool"
  assumes init_inv: "init s \<Longrightarrow> inv s"
    and step_inv: "inv s \<Longrightarrow> step s t \<Longrightarrow> inv t"
begin

lemma reach_inv: "reach init step s \<Longrightarrow> inv s"
  by (induction rule: reach.induct) (auto intro: init_inv step_inv)

end

text \<open>A machine whose steps never decrease a rank in a partial order.\<close>

locale machine_progress =
  fixes step :: "'s \<Rightarrow> 's \<Rightarrow> bool"
    and rank :: "'s \<Rightarrow> 'r::order"
  assumes step_rank: "step s t \<Longrightarrow> rank s \<le> rank t"
begin

lemma steps_rank: "step\<^sup>*\<^sup>* s t \<Longrightarrow> rank s \<le> rank t"
  by (induction rule: rtranclp_induct) (auto dest: step_rank intro: order_trans)

end

end
