(* ===== verification/Epochs.thy ===== *)
theory Epochs
  imports Prelude
begin

text \<open>
  Ranges of 64-bit epoch numbers. The commit log holds the commits of the epochs after its
  checkpoint up to its current epoch, and a window replayed by the receiver is such a range, so
  the proofs about \<open>group.rs\<close>, \<open>preamble.rs\<close> and the synchronisation protocol share these
  lemmas.
\<close>

definition epochs :: "u64 \<Rightarrow> u64 \<Rightarrow> u64 list" where
  "epochs a b = map word_of_nat [Suc (unat a)..<Suc (unat b)]"

lemma unat_succ:
  assumes "(a :: 'a::len word) < b"
  shows "unat (a + 1) = Suc (unat a)"
proof -
  have "Suc (unat a) < 2 ^ LENGTH('a)"
    using assms unat_lt2p [of b] unfolding word_less_nat_alt by linarith
  then show ?thesis by (simp add: unat_word_ariths)
qed

lemma unat_u64: "n < 2 ^ 64 \<Longrightarrow> unat (word_of_nat n :: u64) = n"
  by (simp add: unat_of_nat)

lemma not_max_less: "(a :: 'a::len word) \<noteq> - 1 \<Longrightarrow> a < - 1"
  by (simp add: word_order.not_eq_extremum)

lemma unat_succ': "(a :: 'a::len word) \<noteq> - 1 \<Longrightarrow> unat (a + 1) = Suc (unat a)"
  by (rule unat_succ [OF not_max_less])

lemma le_succ: "(a :: 'a::len word) < b \<Longrightarrow> a < a + 1 \<and> a + 1 \<le> b"
  by (simp add: word_less_nat_alt word_le_nat_alt unat_succ)

lemma epochs_empty [simp]: "b \<le> a \<Longrightarrow> epochs a b = []"
  by (simp add: epochs_def word_le_nat_alt)

lemma epochs_Cons: "a < b \<Longrightarrow> epochs a b = (a + 1) # epochs (a + 1) b"
  using unat_succ [of a b]
  by (simp add: epochs_def upt_conv_Cons word_less_nat_alt add.commute [of a] del: upt_Suc)

lemma epochs_snoc:
  assumes "a \<le> b" and "b \<noteq> - 1"
  shows "epochs a (b + 1) = epochs a b @ [b + 1]"
proof -
  have "unat (b + 1) = Suc (unat b)" using assms(2) by (rule unat_succ')
  then show ?thesis
    using assms(1) by (simp add: epochs_def word_le_nat_alt add.commute)
qed

lemma length_epochs [simp]: "length (epochs a b) = unat b - unat a"
  by (simp add: epochs_def del: upt_Suc)

lemma nth_epochs: "i < unat b - unat a \<Longrightarrow> epochs a b ! i = word_of_nat (Suc (unat a) + i)"
  by (simp add: epochs_def del: upt_Suc)

lemma unat_nth_epochs:
  assumes "i < unat b - unat a"
  shows "unat (epochs a b ! i) = Suc (unat a) + i"
proof -
  have "Suc (unat a) + i < 2 ^ 64"
    using assms unat_lt2p [of b] by simp
  then have "unat (word_of_nat (Suc (unat a) + i) :: u64) = Suc (unat a) + i"
    by (simp only: unat_of_nat) simp
  with assms show ?thesis by (simp only: nth_epochs)
qed

lemma set_epochs: "set (epochs a b) = {e. a < e \<and> e \<le> b}"
proof (intro set_eqI iffI)
  fix e assume "e \<in> set (epochs a b)"
  then obtain i where i: "i < unat b - unat a" "e = epochs a b ! i" by (auto simp: in_set_conv_nth)
  then show "e \<in> {e. a < e \<and> e \<le> b}"
    using unat_nth_epochs [of i b a] by (simp add: word_less_nat_alt word_le_nat_alt)
next
  fix e assume "e \<in> {e. a < e \<and> e \<le> b}"
  then have r: "unat a < unat e" "unat e \<le> unat b"
    by (simp_all add: word_less_nat_alt word_le_nat_alt)
  then have "word_of_nat (unat e) \<in> set (epochs a b)"
    unfolding epochs_def set_map by (intro imageI) (simp del: upt_Suc)
  then show "e \<in> set (epochs a b)" by simp
qed

lemma epochs_keys: "map fst w = epochs a b \<Longrightarrow> fst ` set w = {e. a < e \<and> e \<le> b}"
  by (simp only: set_epochs [symmetric] set_map [symmetric])

lemma epochs_keyD: "map fst w = epochs a b \<Longrightarrow> e \<in> set w \<Longrightarrow> a < fst e \<and> fst e \<le> b"
  using epochs_keys [of w a b] by blast

lemma epochs_append:
  assumes "a \<le> c" and "c \<le> b"
  shows "epochs a b = epochs a c @ epochs c b"
proof -
  have "[Suc (unat a)..<Suc (unat b)] = [Suc (unat a)..<Suc (unat c)] @ [Suc (unat c)..<Suc (unat b)]"
    using assms upt_add_eq_append [of "Suc (unat a)" "Suc (unat c)" "unat b - unat c"]
    by (simp add: word_le_nat_alt del: upt_Suc)
  then show ?thesis by (simp add: epochs_def del: upt_Suc)
qed

lemma filter_epochs:
  assumes "a \<le> c" and "c \<le> b"
  shows "filter (\<lambda>e. c < e) (epochs a b) = epochs c b"
proof -
  have "filter (\<lambda>e. c < e) (epochs a c) = []" and "filter (\<lambda>e. c < e) (epochs c b) = epochs c b"
    by (auto simp: filter_empty_conv filter_id_conv set_epochs)
  then show ?thesis by (simp add: epochs_append [OF assms])
qed

lemma drop_epochs:
  assumes "a \<le> c" and "c \<le> b"
  shows "drop (unat c - unat a) (epochs a b) = epochs c b"
  by (simp add: epochs_append [OF assms])

lemma take_epochs:
  assumes "n \<le> unat b - unat a"
  shows "take n (epochs a b) = epochs a (word_of_nat (unat a + n))"
proof (cases "unat a \<le> unat b")
  case True
  with assms have n: "Suc (unat a) + n \<le> Suc (unat b)" by simp
  then have "unat a + n < 2 ^ 64"
    using unat_lt2p [of b] by simp
  then have "unat (word_of_nat (unat a + n) :: u64) = unat a + n"
    by (simp only: unat_of_nat) simp
  then show ?thesis
    unfolding epochs_def take_map take_upt [OF n] by (simp only: add_Suc)
qed (use assms in simp)

end
