(* ===== verification/Ordered_Map.thy ===== *)
theory Ordered_Map
  imports Prelude
begin

text \<open>
  The part of \<open>std::collections::BTreeMap\<close> that \<open>group.rs\<close> uses: an empty map, \<open>insert\<close>
  (which replaces an existing value), \<open>iter\<close> in increasing key order and \<open>retain\<close>. The model is
  the association list of the entries in iteration order. The interface is a locale stated over
  lookup and iteration only; the client lemma it gives (an insertion above every key appends to
  the iteration) is what the commit log rests on.
\<close>

type_synonym ('k, 'v) btree = "('k \<times> 'v) list"

definition btree_new :: "('k, 'v) btree" where
  "btree_new = []"

fun btree_insert :: "'k::linorder \<Rightarrow> 'v \<Rightarrow> ('k, 'v) btree \<Rightarrow> ('k, 'v) btree" where
  "btree_insert k v [] = [(k, v)]"
| "btree_insert k v ((k', v') # m) =
     (if k < k' then (k, v) # (k', v') # m
      else if k = k' then (k, v) # m
      else (k', v') # btree_insert k v m)"

definition btree_iter :: "('k, 'v) btree \<Rightarrow> ('k \<times> 'v) list" where
  "btree_iter m = m"

definition btree_retain :: "('k \<Rightarrow> 'v \<Rightarrow> bool) \<Rightarrow> ('k, 'v) btree \<Rightarrow> ('k, 'v) btree" where
  "btree_retain p m = filter (\<lambda>(k, v). p k v) m"

subsection \<open>The interface\<close>

text \<open>The entries in strictly increasing key order determine the list.\<close>

lemma sorted_assoc_unique:
  fixes xs ys :: "('k::linorder \<times> 'v) list"
  assumes "sorted_wrt (<) (map fst xs)" and "sorted_wrt (<) (map fst ys)" and "map_of xs = map_of ys"
  shows "xs = ys"
proof -
  have d: "distinct (map fst xs)" "distinct (map fst ys)" "sorted (map fst xs)" "sorted (map fst ys)"
    using assms(1,2) by (simp_all add: strict_sorted_iff)
  have "set xs = set ys"
    using d(1,2) assms(3) by (metis map_of_eq_Some_iff subrelI subset_antisym)
  moreover have "inj_on fst (set xs \<union> set ys)"
    using d(1) \<open>set xs = set ys\<close> by (simp add: distinct_map)
  ultimately show ?thesis
    using d by (intro map_sorted_distinct_set_unique)
qed

locale ordered_map =
  fixes new :: "'m"
    and ins :: "'k::linorder \<Rightarrow> 'v \<Rightarrow> 'm \<Rightarrow> 'm"
    and ret :: "('k \<Rightarrow> 'v \<Rightarrow> bool) \<Rightarrow> 'm \<Rightarrow> 'm"
    and iter :: "'m \<Rightarrow> ('k \<times> 'v) list"
    and invar :: "'m \<Rightarrow> bool"
  assumes invar_new: "invar new"
    and iter_new: "iter new = []"
    and iter_sorted: "invar m \<Longrightarrow> sorted_wrt (<) (map fst (iter m))"
    and invar_ins: "invar m \<Longrightarrow> invar (ins k v m)"
    and lookup_ins: "invar m \<Longrightarrow> map_of (iter (ins k v m)) = (map_of (iter m))(k \<mapsto> v)"
    and invar_ret: "invar m \<Longrightarrow> invar (ret p m)"
    and iter_ret: "invar m \<Longrightarrow> iter (ret p m) = filter (\<lambda>(k, v). p k v) (iter m)"
begin

lemma iter_ins_above:
  assumes m: "invar m" and above: "\<forall>k' \<in> fst ` set (iter m). k' < k"
  shows "iter (ins k v m) = iter m @ [(k, v)]"
proof (rule sorted_assoc_unique)
  show "sorted_wrt (<) (map fst (iter (ins k v m)))"
    using m by (intro iter_sorted invar_ins)
  show "sorted_wrt (<) (map fst (iter m @ [(k, v)]))"
    using iter_sorted [OF m] above by (simp add: sorted_wrt_append)
  have "k \<notin> fst ` set (iter m)" using above by auto
  then have "map_of (iter m) k = None" by (simp add: map_of_eq_None_iff)
  then show "map_of (iter (ins k v m)) = map_of (iter m @ [(k, v)])"
    using lookup_ins [OF m] by (auto simp: map_add_def fun_eq_iff split: option.splits)
qed

lemma keys_ret: "invar m \<Longrightarrow> fst ` set (iter (ret (\<lambda>k _. p k) m)) = {k \<in> fst ` set (iter m). p k}"
  by (force simp: iter_ret)

end

subsection \<open>The model provides it\<close>

lemma btree_insert_keys: "fst ` set (btree_insert k v m) = insert k (fst ` set m)"
proof (induction k v m rule: btree_insert.induct)
  case (2 k v k' v' m)
  then show ?case by (simp add: insert_commute)
qed simp

lemma btree_insert_sorted:
  "sorted_wrt (<) (map fst m) \<Longrightarrow> sorted_wrt (<) (map fst (btree_insert k v m))"
proof (induction k v m rule: btree_insert.induct)
  case (2 k v k' v' m)
  then show ?case by (auto simp: btree_insert_keys less_trans)
qed simp

lemma btree_insert_map_of:
  "sorted_wrt (<) (map fst m) \<Longrightarrow> map_of (btree_insert k v m) = (map_of m)(k \<mapsto> v)"
  by (induction m) (auto simp: fun_eq_iff)

definition btree_invar :: "('k::linorder, 'v) btree \<Rightarrow> bool" where
  "btree_invar m \<longleftrightarrow> sorted_wrt (<) (map fst m)"

interpretation btree: ordered_map btree_new btree_insert btree_retain btree_iter btree_invar
proof
  fix m :: "('a, 'b) btree" and p :: "'a \<Rightarrow> 'b \<Rightarrow> bool"
  assume "btree_invar m"
  then have "sorted_wrt (<) (map fst (filter (\<lambda>(k, v). p k v) m))"
    unfolding btree_invar_def by (induction m) auto
  then show "btree_invar (btree_retain p m)"
    by (simp add: btree_invar_def btree_retain_def)
qed (simp_all add: btree_new_def btree_iter_def btree_invar_def btree_retain_def
       btree_insert_sorted btree_insert_map_of)

end
