(* ===== verification/Transcript.thy ===== *)
theory Transcript
  imports Prelude
begin

text \<open>
  The wire format of the commit window (\<open>quic-mls/src/transcript.rs\<close>): four magic bytes, a
  32-bit entry count, and per entry a 64-bit epoch, a 32-bit length and the commit. The encoder
  includes the longest prefix of the window that fits a byte budget; the decoder walks an offset
  through the blob with slices that would panic out of range.

  The lemmas relate the decoder to the codec of one entry (an interpretation of the prelude's
  codec contract), and give the properties at the end: no panic, round trip, soundness,
  truncation, the byte bound and the maximality of the included prefix.
\<close>

subsection \<open>Definitions\<close>

type_synonym entry = "u64 \<times> bytes"
type_synonym window = "entry list"

definition MAGIC :: bytes where [byte_simps]:
  "MAGIC = ascii ''QMT1''"

datatype TranscriptDecodeError = Truncated | BadMagic

text \<open>\<open>8 + 4 + entry.1.len()\<close>, the expression both modules of the code use.\<close>

definition entry_len :: "entry \<Rightarrow> nat" where
  "entry_len e = 8 + 4 + length (snd e)"

text \<open>The first loop of the encoder: collect entries until one does not fit.\<close>

fun include_entries :: "nat \<Rightarrow> nat \<Rightarrow> nat \<Rightarrow> window \<Rightarrow> window" where
  "include_entries header_len max_bytes body_len [] = []"
| "include_entries header_len max_bytes body_len (e # es) =
     (if header_len + body_len + entry_len e > max_bytes then []
      else e # include_entries header_len max_bytes (body_len + entry_len e) es)"

text \<open>The body of the second loop: the bytes of one entry; \<open>as u32\<close> truncates.\<close>

definition encode_entry :: "entry \<Rightarrow> bytes" where
  "encode_entry e =
     u64_to_be_bytes (fst e) @ u32_to_be_bytes (word_of_nat (length (snd e))) @ snd e"

definition encode_transcript :: "window \<Rightarrow> nat \<Rightarrow> bytes" where
  "encode_transcript w max_bytes =
     (if w = [] \<or> max_bytes = 0 then []
      else let header_len = length MAGIC + 4;
               included = include_entries header_len max_bytes 0 w
           in if included = [] then []
              else MAGIC @ u32_to_be_bytes (word_of_nat (length included))
                     @ concat (map encode_entry included))"

text \<open>The decoder's loop over \<open>0..count\<close>, with its offset and its output so far.\<close>

fun decode_entries ::
    "nat \<Rightarrow> nat \<Rightarrow> bytes \<Rightarrow> window \<Rightarrow> (TranscriptDecodeError + window) panics" where
  "decode_entries 0 pos bs out = Ret (Inr out)"
| "decode_entries (Suc n) pos bs out =
     (if pos + 8 + 4 > length bs then Ret (Inl Truncated)
      else do {
        eb \<leftarrow> sub_slice bs pos (pos + 8);
        let epoch = u64_from_be_bytes eb;
        let pos = pos + 8;
        lb \<leftarrow> sub_slice bs pos (pos + 4);
        let len = unat (u32_from_be_bytes lb);
        let pos = pos + 4;
        if pos + len > length bs then Ret (Inl Truncated)
        else do {
          b \<leftarrow> sub_slice bs pos (pos + len);
          decode_entries n (pos + len) bs (out @ [(epoch, b)])
        }
      })"

definition decode_transcript :: "bytes \<Rightarrow> (TranscriptDecodeError + window) panics" where
  "decode_transcript bs =
     (if length bs < length MAGIC + 4 then Ret (Inl Truncated)
      else do {
        m \<leftarrow> sub_slice bs 0 (length MAGIC);
        if m \<noteq> MAGIC then Ret (Inl BadMagic)
        else do {
          let pos = length MAGIC;
          cb \<leftarrow> sub_slice bs pos (pos + 4);
          decode_entries (unat (u32_from_be_bytes cb)) (pos + 4) bs []
        }
      })"

subsection \<open>The codec of one entry\<close>

definition entry_ok :: "entry \<Rightarrow> bool" where
  "entry_ok e \<longleftrightarrow> length (snd e) < 2 ^ 32"

definition decode_entry :: "bytes \<Rightarrow> (entry \<times> bytes) option" where
  "decode_entry bs =
     (if length bs < 12 then None
      else let len = unat (u32_from_be_bytes (take 4 (drop 8 bs)))
           in if length bs < 12 + len then None
              else Some ((u64_from_be_bytes (take 8 bs), take len (drop 12 bs)), drop (12 + len) bs))"

definition window_wire :: "window \<Rightarrow> nat" where
  "window_wire w = sum_list (map entry_len w)"

lemma window_wire_simps [simp]:
  "window_wire [] = 0" "window_wire (e # w) = entry_len e + window_wire w"
  "window_wire (w @ w') = window_wire w + window_wire w'"
  by (simp_all add: window_wire_def)

lemma length_MAGIC [simp]: "length MAGIC = 4"
  by (simp add: MAGIC_def)

lemma length_encode_entry [simp]: "length (encode_entry e) = entry_len e"
  by (simp add: encode_entry_def entry_len_def)

lemma length_concat_encode: "length (concat (map encode_entry w)) = window_wire w"
  by (induction w) simp_all

lemma unat_len_u32: "n < 2 ^ 32 \<Longrightarrow> unat (word_of_nat n :: u32) = n"
  by (simp add: unat_of_nat)

interpretation entry: byte_codec encode_entry decode_entry entry_ok
proof
  fix e :: entry and rest :: bytes
  assume "entry_ok e"
  then have "length (snd e) < 2 ^ 32" by (simp add: entry_ok_def)
  then show "decode_entry (encode_entry e @ rest) = Some (e, rest)"
    by (simp add: decode_entry_def encode_entry_def unat_len_u32)
next
  fix bs rest :: bytes and e :: entry
  assume dec: "decode_entry bs = Some (e, rest)"
  define len where "len = unat (u32_from_be_bytes (take 4 (drop 8 bs)))"
  from dec have n: "12 + len \<le> length bs"
    and e: "e = (u64_from_be_bytes (take 8 bs), take len (drop 12 bs))" and r: "rest = drop (12 + len) bs"
    by (auto simp: decode_entry_def len_def Let_def split: if_splits)
  have small: "len < 2 ^ 32"
    using unat_lt2p [of "u32_from_be_bytes (take 4 (drop 8 bs))"] by (simp add: len_def)
  have "u32_to_be_bytes (word_of_nat len) = take 4 (drop 8 bs)"
    using n by (simp add: len_def u32_be_canonical)
  moreover have "u64_to_be_bytes (u64_from_be_bytes (take 8 bs)) = take 8 bs"
    using n by (intro u64_be_canonical) simp
  moreover have "take 8 bs @ take 4 (drop 8 bs) @ take len (drop 12 bs) @ drop (12 + len) bs = bs"
  proof -
    have "take 4 (drop 8 bs) @ drop 12 bs = drop 8 bs"
      using append_take_drop_id [of 4 "drop 8 bs"] by simp
    moreover have "take len (drop 12 bs) @ drop (12 + len) bs = drop 12 bs"
      using append_take_drop_id [of len "drop 12 bs"] by (simp add: add.commute)
    ultimately show ?thesis by simp
  qed
  ultimately show "bs = encode_entry e @ rest \<and> entry_ok e"
    using n e r small by (simp add: encode_entry_def entry_ok_def min_absorb2)
qed

subsection \<open>The decoder refines the abstract parser\<close>

lemma decode_entries_dec_list:
  "pos \<le> length bs \<Longrightarrow>
     decode_entries n pos bs out =
       Ret (case dec_list decode_entry n (drop pos bs) of
              None \<Rightarrow> Inl Truncated | Some (es, _) \<Rightarrow> Inr (out @ es))"
proof (induction n arbitrary: pos out)
  case (Suc n)
  define len where "len = unat (u32_from_be_bytes (take 4 (drop (pos + 8) bs)))"
  show ?case
  proof (cases "length bs < pos + 12")
    case True
    with Suc.prems show ?thesis by (simp add: decode_entry_def)
  next
    case False
    have slices: "sub_slice bs pos (pos + 8) = Some (take 8 (drop pos bs))"
      "sub_slice bs (pos + 8) (pos + 8 + 4) = Some (take 4 (drop (pos + 8) bs))"
      using False by (simp_all add: sub_slice_def)
    show ?thesis
    proof (cases "length bs < pos + 12 + len")
      case True
      with False have "decode_entry (drop pos bs) = None"
        by (auto simp: decode_entry_def len_def add.commute Let_def)
      with True False slices show ?thesis by (simp add: len_def add.assoc)
    next
      case fits: False
      with False have entry: "decode_entry (drop pos bs) =
          Some ((u64_from_be_bytes (take 8 (drop pos bs)), take len (drop (pos + 12) bs)),
                drop (pos + 12 + len) bs)"
        by (auto simp: decode_entry_def len_def Let_def ac_simps)
      have body: "sub_slice bs (pos + 12) (pos + 12 + len) = Some (take len (drop (pos + 12) bs))"
        using fits by (simp add: sub_slice_def)
      from fits have "pos + 12 + len \<le> length bs" by simp
      note IH = Suc.IH [OF this, unfolded add.assoc]
      from False fits slices body entry show ?thesis
        by (simp add: IH add.assoc len_def [symmetric] split: option.split)
    qed
  qed
qed simp

lemma decode_transcript_short: "length bs < 8 \<Longrightarrow> decode_transcript bs = Ret (Inl Truncated)"
  by (simp add: decode_transcript_def)

lemma decode_transcript_eq:
  "8 \<le> length bs \<Longrightarrow>
     decode_transcript bs =
       (if take 4 bs \<noteq> MAGIC then Ret (Inl BadMagic)
        else Ret (case dec_list decode_entry (unat (u32_from_be_bytes (take 4 (drop 4 bs)))) (drop 8 bs) of
                    None \<Rightarrow> Inl Truncated | Some (es, _) \<Rightarrow> Inr es))"
  by (simp add: decode_transcript_def sub_slice_def decode_entries_dec_list split: option.split)

lemma decode_transcript_framed:
  "length c = 4 \<Longrightarrow>
     decode_transcript (MAGIC @ c @ body) =
       Ret (case dec_list decode_entry (unat (u32_from_be_bytes c)) body of
              None \<Rightarrow> Inl Truncated | Some (es, _) \<Rightarrow> Inr es)"
  by (simp add: decode_transcript_eq)

subsection \<open>The included prefix\<close>

lemma include_entries_prefix: "prefix (include_entries h m b w) w"
  by (induction w arbitrary: b) auto

lemma include_entries_wire:
  "include_entries h m b w \<noteq> [] \<Longrightarrow> h + b + window_wire (include_entries h m b w) \<le> m"
proof (induction w arbitrary: b)
  case (Cons e w)
  show ?case
  proof (cases "include_entries h m (b + entry_len e) w = []")
    case False
    then have "h + (b + entry_len e) + window_wire (include_entries h m (b + entry_len e) w) \<le> m"
      by (rule Cons.IH)
    with Cons.prems show ?thesis by (simp add: add.assoc)
  qed (use Cons.prems in \<open>auto split: if_splits simp: add.assoc\<close>)
qed simp

lemma include_entries_length:
  "n \<le> length w \<Longrightarrow>
     n \<le> length (include_entries h m b w) \<longleftrightarrow> n = 0 \<or> h + b + window_wire (take n w) \<le> m"
proof (induction w arbitrary: b n)
  case (Cons e w)
  show ?case
  proof (cases n)
    case (Suc k)
    with Cons.prems have "k \<le> length w" by simp
    note IH = Cons.IH [OF this, of "b + entry_len e"]
    have "k = 0 \<Longrightarrow> window_wire (take k w) = 0" by simp
    with Suc IH show ?thesis by (auto simp: add.assoc)
  qed simp
qed simp

lemma include_entries_all:
  assumes "h + b + window_wire w \<le> m"
  shows "include_entries h m b w = w"
  using assms by (induction w arbitrary: b) (auto simp: add.assoc)

text \<open>What the encoder writes, by cases on whether anything is included.\<close>

abbreviation included :: "window \<Rightarrow> nat \<Rightarrow> window" where
  "included w m \<equiv> include_entries 8 m 0 w"

lemma encode_transcript_eq:
  "encode_transcript w m =
     (if included w m = [] then []
      else MAGIC @ u32_to_be_bytes (word_of_nat (length (included w m)))
             @ concat (map encode_entry (included w m)))"
  by (cases w) (simp_all add: encode_transcript_def)

lemma length_encode_transcript:
  "length (encode_transcript w m) = (if included w m = [] then 0 else 8 + window_wire (included w m))"
  by (simp add: encode_transcript_eq length_concat_encode)

lemma encode_transcript_decodes:
  assumes "included w m \<noteq> []" and "\<forall>e \<in> set (included w m). entry_ok e"
    and "length (included w m) < 2 ^ 32"
  shows "decode_transcript (encode_transcript w m @ trailing) = Ret (Inr (included w m))"
proof -
  have "dec_list decode_entry (length (included w m))
          (concat (map encode_entry (included w m)) @ trailing) = Some (included w m, trailing)"
    using assms(2) by (rule entry.dec_list_enc)
  with assms show ?thesis
    by (simp add: encode_transcript_eq decode_transcript_framed unat_len_u32)
qed

subsection \<open>Properties\<close>

text \<open>
  C27: Round trip under a byte budget. For a window of encodable entries the encoder stays within
  its budget and includes exactly the longest prefix whose encoding fits; when that prefix is not
  empty, decoding the blob returns it, whatever bytes follow, and when it is empty the blob is
  empty.
\<close>

theorem transcript_roundtrip:
  assumes "\<forall>e \<in> set w. length (snd e) < 2 ^ 32" and "length w < 2 ^ 32"
  shows "length (encode_transcript w m) \<le> m \<and>
    (\<exists>k \<le> length w. (\<forall>n \<le> length w. n \<le> k \<longleftrightarrow> n = 0 \<or> 8 + window_wire (take n w) \<le> m) \<and>
       (if k = 0 then encode_transcript w m = []
        else \<forall>trailing. decode_transcript (encode_transcript w m @ trailing) = Ret (Inr (take k w))))"
proof -
  let ?k = "length (included w m)"
  have pre: "prefix (included w m) w" by (rule include_entries_prefix)
  then have take: "included w m = take ?k w" and k: "?k \<le> length w"
    by (auto dest: prefix_takeD)
  have ok: "\<forall>e \<in> set (included w m). entry_ok e"
    using assms(1) pre by (auto simp: entry_ok_def dest: set_mono_prefix)
  have "\<forall>n \<le> length w. n \<le> ?k \<longleftrightarrow> n = 0 \<or> 8 + window_wire (take n w) \<le> m"
    using include_entries_length [of _ w 8 m 0] by simp
  moreover have "length (encode_transcript w m) \<le> m"
    using include_entries_wire [of 8 m 0 w] by (simp add: length_encode_transcript)
  moreover have "if ?k = 0 then encode_transcript w m = []
      else \<forall>trailing. decode_transcript (encode_transcript w m @ trailing) = Ret (Inr (take ?k w))"
    using encode_transcript_decodes [OF _ ok] assms(2) k
    by (auto simp: encode_transcript_eq take [symmetric])
  ultimately show ?thesis using k by blast
qed

text \<open>
  C28: The decoder is total: no input makes one of its slices go out of range, so no datagram a
  peer can send panics the receiver.
\<close>

theorem decode_transcript_no_panic: "decode_transcript bs \<noteq> Panic"
  by (cases "length bs < 8") (auto simp: decode_transcript_short decode_transcript_eq)

text \<open>
  Soundness of decoding. Whatever the decoder accepts is the magic, the entry count and the
  encodings of exactly the entries it returns, followed by bytes it ignores; every returned commit
  is shorter than \<open>2 ^ 32\<close> bytes.
\<close>

lemma decode_transcript_sound:
  assumes "decode_transcript bs = Ret (Inr w)"
  shows "(\<exists>trailing. bs = MAGIC @ u32_to_be_bytes (word_of_nat (length w))
                           @ concat (map encode_entry w) @ trailing)
    \<and> length w < 2 ^ 32 \<and> (\<forall>e \<in> set w. length (snd e) < 2 ^ 32)"
proof -
  let ?count = "u32_from_be_bytes (take 4 (drop 4 bs))"
  from assms have long: "8 \<le> length bs"
    by (cases "length bs < 8") (auto simp: decode_transcript_short)
  with assms obtain trailing where magic: "take 4 bs = MAGIC"
    and dec: "dec_list decode_entry (unat ?count) (drop 8 bs) = Some (w, trailing)"
    by (auto simp: decode_transcript_eq split: if_splits option.splits)
  from entry.dec_list_sound [OF dec] have body: "drop 8 bs = concat (map encode_entry w) @ trailing"
    and n: "length w = unat ?count" and ok: "\<forall>e \<in> set w. entry_ok e" by auto
  have "take 4 (drop 4 bs) = u32_to_be_bytes ?count"
    using long by (simp add: u32_be_canonical)
  then have "bs = MAGIC @ u32_to_be_bytes (word_of_nat (length w)) @ drop 8 bs"
    using append_take_drop_id [of 4 bs] append_take_drop_id [of 4 "drop 4 bs"] magic n by simp
  with body ok n unat_lt2p [of ?count] show ?thesis by (auto simp: entry_ok_def)
qed

text \<open>
  Truncation is detected. Every proper prefix of an encoded window, cut anywhere, is rejected
  as truncated: never as a bad magic, and never accepted as a shorter window.
\<close>

lemma decode_transcript_truncated:
  assumes "\<forall>e \<in> set w. length (snd e) < 2 ^ 32" and "length w < 2 ^ 32"
    and "strict_prefix p (encode_transcript w m)"
  shows "decode_transcript p = Ret (Inl Truncated)"
proof (cases "length p < 8")
  case False
  let ?inc = "included w m" and ?c = "u32_to_be_bytes (word_of_nat (length (included w m)))"
  have pre: "prefix ?inc w" by (rule include_entries_prefix)
  then have n: "length ?inc < 2 ^ 32" and ok: "\<forall>e \<in> set ?inc. entry_ok e"
    using assms(1,2) by (auto simp: entry_ok_def dest: set_mono_prefix prefix_length_le)
  from assms(3) have "?inc \<noteq> []" by (auto simp: encode_transcript_eq)
  with assms(3) have sp: "strict_prefix p ((MAGIC @ ?c) @ concat (map encode_entry ?inc))"
    by (simp add: encode_transcript_eq)
  then obtain q where p: "p = (MAGIC @ ?c) @ q" and q: "strict_prefix q (concat (map encode_entry ?inc))"
    using False by (auto elim!: strict_prefix_append_long)
  from ok q have "dec_list decode_entry (length ?inc) q = None"
    by (rule entry.dec_list_strict_prefix)
  with p n show ?thesis by (simp add: decode_transcript_framed unat_len_u32)
qed (rule decode_transcript_short)

subsection \<open>Witnesses\<close>

definition sample_window :: window where
  "sample_window = [(1, [7, 8]), (2, [9]), (3, [10, 11, 12])]"

lemma transcript_roundtrip_witness:
  "decode_transcript (encode_transcript sample_window 44) = Ret (Inr (take 2 sample_window))"
proof -
  have a: "\<forall>e \<in> set sample_window. length (snd e) < 2 ^ 32" and b: "length sample_window < 2 ^ 32"
    by (simp_all add: sample_window_def)
  from transcript_roundtrip [OF a b, of 44] obtain k where
    k: "\<forall>n \<le> length sample_window. n \<le> k \<longleftrightarrow> n = 0 \<or> 8 + window_wire (take n sample_window) \<le> 44"
    and dec: "if k = 0 then encode_transcript sample_window 44 = []
      else \<forall>trailing. decode_transcript (encode_transcript sample_window 44 @ trailing) = Ret (Inr (take k sample_window))"
    by blast
  from k have "2 \<le> k" and "\<not> 3 \<le> k"
    by (auto simp: sample_window_def entry_len_def dest: spec [of _ "2::nat"] spec [of _ "3::nat"])
  then have "k = 2" by simp
  with dec show ?thesis by (auto dest: spec [of _ "[]"])
qed

lemma decode_transcript_sound_witness:
  "\<exists>trailing. MAGIC @ [0, 0, 0, 1, 0, 0, 0, 0, 0, 0, 0, 5, 0, 0, 0, 2, 7, 8, 42] =
     MAGIC @ u32_to_be_bytes (word_of_nat (length [(5 :: u64, [7, 8 :: u8])]))
       @ concat (map encode_entry [(5, [7, 8])]) @ trailing"
proof -
  have "decode_transcript (MAGIC @ [0, 0, 0, 1, 0, 0, 0, 0, 0, 0, 0, 5, 0, 0, 0, 2, 7, 8, 42])
          = Ret (Inr [(5, [7, 8])])"
    by (simp add: decode_transcript_def byte_simps)
  from decode_transcript_sound [OF this] show ?thesis by blast
qed

lemma decode_transcript_truncated_witness:
  "decode_transcript (butlast (encode_transcript sample_window 100)) = Ret (Inl Truncated)"
proof -
  have a: "\<forall>e \<in> set sample_window. length (snd e) < 2 ^ 32" and b: "length sample_window < 2 ^ 32"
    by (simp_all add: sample_window_def)
  have "encode_transcript sample_window 100 \<noteq> []"
    by (simp add: encode_transcript_def sample_window_def entry_len_def byte_simps)
  then have "strict_prefix (butlast (encode_transcript sample_window 100)) (encode_transcript sample_window 100)"
    by (metis append_butlast_last_id strict_prefixI')
  from decode_transcript_truncated [OF a b this] show ?thesis .
qed

end
