(* ===== verification/Group.thy ===== *)
theory Group
  imports Ordered_Map Transcript Epochs
begin

text \<open>
  The MLS group as the rest of the code sees it (\<open>quic-mls/src/group.rs\<close>): the trait
  \<open>ExportSecret\<close> as a record of operations over a group state, its four implementations
  (\<open>mls_rs::Group\<close>, \<open>Arc<Mutex<G>>\<close>, \<open>CommitLog<G>\<close>, \<open>Box<dyn ExportSecret>\<close>), the commit
  log with its checkpoint, and \<open>apply_commit_window\<close>, the receiver's replay of a window.

  The library \<open>mls_rs\<close> is a parameter (\<open>mls_lib\<close>). \<open>self.current_epoch += 1\<close> is the
  wrapping addition of a release build; the invariant is stated for logs below \<open>2 ^ 64 - 1\<close>
  commits, where it does not wrap.
\<close>

subsection \<open>The trait and its implementations\<close>

record ('g, 'e) ExportSecret =
  export_secret :: "'g \<Rightarrow> bytes \<Rightarrow> bytes \<Rightarrow> nat \<Rightarrow> ('e + bytes) panics"
  apply_commit :: "'g \<Rightarrow> bytes \<Rightarrow> (('e + unit) \<times> 'g) panics"
  create_commit :: "'g \<Rightarrow> (('e + bytes) \<times> 'g) panics"
  pending_commit_window :: "'g \<Rightarrow> window panics"

text \<open>The trait's default method.\<close>

definition default_pending_commit_window :: "'g \<Rightarrow> window panics" where
  "default_pending_commit_window g = Ret []"

text \<open>
  The calls of \<open>mls_rs\<close>: a call on \<open>&mut self\<close> returns the group it leaves behind, also when
  it fails.
\<close>

record ('g, 'm, 'e) mls_lib =
  lib_export_secret :: "'g \<Rightarrow> bytes \<Rightarrow> bytes \<Rightarrow> nat \<Rightarrow> 'e + bytes"
  lib_message_from_bytes :: "bytes \<Rightarrow> 'e + 'm"
  lib_process_incoming_message :: "'g \<Rightarrow> 'm \<Rightarrow> ('e + unit) \<times> 'g"
  lib_commit :: "'g \<Rightarrow> ('e + 'm) \<times> 'g"
  lib_apply_pending_commit :: "'g \<Rightarrow> ('e + unit) \<times> 'g"
  lib_message_to_bytes :: "'m \<Rightarrow> 'e + bytes"

definition mls_apply_commit :: "('g, 'm, 'e) mls_lib \<Rightarrow> 'g \<Rightarrow> bytes \<Rightarrow> (('e + unit) \<times> 'g) panics" where
  "mls_apply_commit lib g commit =
     (case lib_message_from_bytes lib commit of
        Inl e \<Rightarrow> Ret (Inl e, g)
      | Inr message \<Rightarrow> Ret (lib_process_incoming_message lib g message))"

definition mls_create_commit :: "('g, 'm, 'e) mls_lib \<Rightarrow> 'g \<Rightarrow> (('e + bytes) \<times> 'g) panics" where
  "mls_create_commit lib g =
     (case lib_commit lib g of
        (Inl e, g') \<Rightarrow> Ret (Inl e, g')
      | (Inr message, g') \<Rightarrow>
          (case lib_apply_pending_commit lib g' of
             (Inl e, g'') \<Rightarrow> Ret (Inl e, g'')
           | (Inr _, g'') \<Rightarrow> Ret (lib_message_to_bytes lib message, g'')))"

definition mls_group :: "('g, 'm, 'e) mls_lib \<Rightarrow> ('g, 'e) ExportSecret" where
  "mls_group lib =
     \<lparr>export_secret = (\<lambda>g label context len. Ret (lib_export_secret lib g label context len)),
      apply_commit = mls_apply_commit lib,
      create_commit = mls_create_commit lib,
      pending_commit_window = default_pending_commit_window\<rparr>"

text \<open>A \<open>std::sync::Mutex\<close>: \<open>lock().unwrap()\<close> panics when an earlier panic poisoned it.\<close>

record 'g mutex =
  poisoned :: bool
  guarded :: 'g

definition mutex_new :: "'g \<Rightarrow> 'g mutex" where
  "mutex_new g = \<lparr>poisoned = False, guarded = g\<rparr>"

definition mutex_lock :: "'g mutex \<Rightarrow> 'g panics" where
  "mutex_lock m = (if poisoned m then Panic else Ret (guarded m))"

definition arc_mutex :: "('g, 'e) ExportSecret \<Rightarrow> ('g mutex, 'e) ExportSecret" where
  "arc_mutex ops =
     \<lparr>export_secret = (\<lambda>m label context len. do {
        g \<leftarrow> mutex_lock m;
        export_secret ops g label context len }),
      apply_commit = (\<lambda>m commit. do {
        g \<leftarrow> mutex_lock m;
        (r, g') \<leftarrow> apply_commit ops g commit;
        Ret (r, m\<lparr>guarded := g'\<rparr>) }),
      create_commit = (\<lambda>m. do {
        g \<leftarrow> mutex_lock m;
        (r, g') \<leftarrow> create_commit ops g;
        Ret (r, m\<lparr>guarded := g'\<rparr>) }),
      pending_commit_window = (\<lambda>m. do {
        g \<leftarrow> mutex_lock m;
        pending_commit_window ops g })\<rparr>"

definition box_dyn :: "('g, 'e) ExportSecret \<Rightarrow> ('g, 'e) ExportSecret" where
  "box_dyn ops =
     \<lparr>export_secret = (\<lambda>g label context len. export_secret ops g label context len),
      apply_commit = (\<lambda>g commit. apply_commit ops g commit),
      create_commit = (\<lambda>g. create_commit ops g),
      pending_commit_window = (\<lambda>g. pending_commit_window ops g)\<rparr>"

subsection \<open>The commit log\<close>

record 'g CommitLog =
  inner :: 'g
  commit_log :: "(u64, bytes) btree"
  current_epoch :: u64
  checkpoint :: u64

definition commit_log_new :: "'g \<Rightarrow> 'g CommitLog" where
  "commit_log_new g = \<lparr>inner = g, commit_log = btree_new, current_epoch = 0, checkpoint = 0\<rparr>"

definition window_bytes :: "'g CommitLog \<Rightarrow> window" where
  "window_bytes l =
     map (\<lambda>(epoch, bytes). (epoch, bytes))
       (filter (\<lambda>(epoch, _). epoch > checkpoint l) (btree_iter (commit_log l)))"

definition trim :: "'g CommitLog \<Rightarrow> u64 \<Rightarrow> 'g CommitLog" where
  "trim l reported_k =
     (let k = min reported_k (current_epoch l);
          l = l\<lparr>checkpoint := max (checkpoint l) k\<rparr>
      in l\<lparr>commit_log := btree_retain (\<lambda>epoch _. epoch > checkpoint l) (commit_log l)\<rparr>)"

definition commit_log_create_commit ::
    "('g, 'e) ExportSecret \<Rightarrow> 'g CommitLog \<Rightarrow> (('e + bytes) \<times> 'g CommitLog) panics" where
  "commit_log_create_commit ops l = do {
     (r, g') \<leftarrow> create_commit ops (inner l);
     let l = l\<lparr>inner := g'\<rparr>;
     case r of
       Inl e \<Rightarrow> Ret (Inl e, l)
     | Inr bytes \<Rightarrow>
         let l = l\<lparr>current_epoch := current_epoch l + 1\<rparr>
         in Ret (Inr bytes, l\<lparr>commit_log := btree_insert (current_epoch l) bytes (commit_log l)\<rparr>)
   }"

definition commit_log_ops :: "('g, 'e) ExportSecret \<Rightarrow> ('g CommitLog, 'e) ExportSecret" where
  "commit_log_ops ops =
     \<lparr>export_secret = (\<lambda>l label context len. export_secret ops (inner l) label context len),
      apply_commit = (\<lambda>l commit. do {
        (r, g') \<leftarrow> apply_commit ops (inner l) commit;
        Ret (r, l\<lparr>inner := g'\<rparr>) }),
      create_commit = commit_log_create_commit ops,
      pending_commit_window = (\<lambda>l. Ret (window_bytes l))\<rparr>"

subsection \<open>Replaying a window\<close>

datatype 'e CommitWindowError = ResyncNeeded | MlsError 'e

fun apply_commit_window ::
    "('g, 'e) ExportSecret \<Rightarrow> 'g \<Rightarrow> window \<Rightarrow> u64
      \<Rightarrow> (('e CommitWindowError + unit) \<times> 'g \<times> u64) panics" where
  "apply_commit_window ops g [] local_epoch = Ret (Inr (), g, local_epoch)"
| "apply_commit_window ops g ((epoch, commit_bytes) # window) local_epoch =
     (if epoch \<le> local_epoch then apply_commit_window ops g window local_epoch
      else if epoch = local_epoch + 1 then do {
        (r, g') \<leftarrow> apply_commit ops g commit_bytes;
        case r of
          Inl e \<Rightarrow> Ret (Inl (MlsError e), g', local_epoch)
        | Inr _ \<Rightarrow> apply_commit_window ops g' window (local_epoch + 1)
      }
      else Ret (Inl ResyncNeeded, g, local_epoch))"

subsection \<open>Wrappers of a group are transparent\<close>

text \<open>
  An implementation that wraps another one behaves, seen through \<open>view\<close>, as the wrapped one:
  the contract under which a client may use a box, a mutex or a commit log where the code asks
  for an \<open>ExportSecret\<close>.
\<close>

locale export_secret_wrapper =
  fixes outer :: "('o, 'e) ExportSecret"
    and inside :: "('g, 'e) ExportSecret"
    and view :: "'o \<Rightarrow> 'g"
    and ok :: "'o \<Rightarrow> bool"
  assumes export_view: "ok s \<Longrightarrow> export_secret outer s l c n = export_secret inside (view s) l c n"
    and apply_view: "ok s \<Longrightarrow> map_option (apsnd view) (apply_commit outer s b) = apply_commit inside (view s) b"
    and apply_ok: "ok s \<Longrightarrow> apply_commit outer s b = Ret (r, s') \<Longrightarrow> ok s'"
    and create_view: "ok s \<Longrightarrow> map_option (apsnd view) (create_commit outer s) = create_commit inside (view s)"
    and create_ok: "ok s \<Longrightarrow> create_commit outer s = Ret (q, s') \<Longrightarrow> ok s'"
begin

lemma apply_commit_window_view:
  "ok s \<Longrightarrow>
     map_option (\<lambda>(r, s', le). (r, view s', le)) (apply_commit_window outer s w le)
       = apply_commit_window inside (view s) w le"
proof (induction w arbitrary: s le)
  case (Cons e w)
  show ?case
  proof (cases "fst e = le + 1 \<and> \<not> fst e \<le> le")
    case True
    note view = apply_view [OF Cons.prems, of "snd e", symmetric]
    show ?thesis
    proof (cases "apply_commit outer s (snd e)")
      case None
      with True view show ?thesis by (cases e) simp
    next
      case (Some rs)
      with Cons.prems have "ok (snd rs)" by (cases rs) (auto dest: apply_ok)
      with Some True view Cons.IH [of "snd rs" "le + 1"] show ?thesis
        by (cases e; cases rs) (simp split: sum.split)
    qed
  next
    case False
    with Cons show ?thesis by (cases e) auto
  qed
qed simp

end

interpretation mutex: export_secret_wrapper "arc_mutex ops" ops guarded "\<lambda>m. \<not> poisoned m" for ops
proof
  fix m m' :: "'a mutex" and b :: bytes and r :: "'b + unit" and q :: "'b + bytes"
  assume m: "\<not> poisoned m"
  show "map_option (apsnd guarded) (apply_commit (arc_mutex ops) m b) = apply_commit ops (guarded m) b"
    using m by (cases "apply_commit ops (guarded m) b") (auto simp: arc_mutex_def mutex_lock_def)
  show "map_option (apsnd guarded) (create_commit (arc_mutex ops) m) = create_commit ops (guarded m)"
    using m by (cases "create_commit ops (guarded m)") (auto simp: arc_mutex_def mutex_lock_def)
  show "apply_commit (arc_mutex ops) m b = Ret (r, m') \<Longrightarrow> \<not> poisoned m'"
    using m by (cases "apply_commit ops (guarded m) b") (auto simp: arc_mutex_def mutex_lock_def)
  show "create_commit (arc_mutex ops) m = Ret (q, m') \<Longrightarrow> \<not> poisoned m'"
    using m by (cases "create_commit ops (guarded m)") (auto simp: arc_mutex_def mutex_lock_def)
qed (simp add: arc_mutex_def mutex_lock_def)

interpretation box: export_secret_wrapper "box_dyn ops" ops id "\<lambda>_. True" for ops
  by unfold_locales (simp_all add: box_dyn_def apsnd_def map_prod.id option.map_id)

interpretation logged: export_secret_wrapper "commit_log_ops ops" ops inner "\<lambda>_. True" for ops
proof
  fix l :: "'a CommitLog" and b :: bytes
  show "map_option (apsnd inner) (apply_commit (commit_log_ops ops) l b) = apply_commit ops (inner l) b"
    by (cases "apply_commit ops (inner l) b") (auto simp: commit_log_ops_def)
  show "map_option (apsnd inner) (create_commit (commit_log_ops ops) l) = create_commit ops (inner l)"
    by (cases "create_commit ops (inner l)")
      (auto simp: commit_log_ops_def commit_log_create_commit_def Let_def split: sum.split)
qed (simp_all add: commit_log_ops_def)

subsection \<open>Replaying a range of epochs\<close>

text \<open>
  The reference for the replay: apply commits one after another, stopping at the first one the
  group rejects, and count those applied.
\<close>

fun apply_commits ::
    "('g, 'e) ExportSecret \<Rightarrow> 'g \<Rightarrow> bytes list \<Rightarrow> (('e + unit) \<times> 'g \<times> nat) panics" where
  "apply_commits ops g [] = Ret (Inr (), g, 0)"
| "apply_commits ops g (b # bs) = do {
     (r, g') \<leftarrow> apply_commit ops g b;
     case r of
       Inl e \<Rightarrow> Ret (Inl e, g', 0)
     | Inr _ \<Rightarrow> do {
         (r', g'', n) \<leftarrow> apply_commits ops g' bs;
         Ret (r', g'', Suc n)
       }
   }"

definition replayed ::
    "u64 \<Rightarrow> ('e + unit) \<times> 'g \<times> nat \<Rightarrow> ('e CommitWindowError + unit) \<times> 'g \<times> u64" where
  "replayed le = (\<lambda>(r, g, n). (map_sum MlsError id r, g, le + word_of_nat n))"

lemma apply_commits_count:
  "apply_commits ops g bs = Ret (r, g', n) \<Longrightarrow> n \<le> length bs \<and> (r = Inr () \<longrightarrow> n = length bs)"
  by (induction bs arbitrary: g n) (auto split: bind_splits sum.splits)

lemma apply_commit_window_stale:
  "\<forall>e \<in> fst ` set w. e \<le> le \<Longrightarrow> apply_commit_window ops g w le = Ret (Inr (), g, le)"
  by (induction w) auto

lemma apply_commit_window_range:
  assumes "map fst w = epochs a b" and "a \<le> le"
  shows "apply_commit_window ops g w le =
    map_option (replayed le) (apply_commits ops g (map snd (drop (unat le - unat a) w)))"
  using assms
proof (induction w arbitrary: a le g)
  case Nil
  then show ?case by (simp add: replayed_def)
next
  case (Cons x w)
  have ab: "a < b"
    using Cons.prems(1) by (cases "a < b") (auto simp: not_less)
  then obtain c where x: "x = (a + 1, c)" and w: "map fst w = epochs (a + 1) b"
    using Cons.prems(1) by (cases x) (simp add: epochs_Cons)
  show ?case
  proof (cases "a = le")
    case True
    have "\<not> le + 1 \<le> le" and "unat (le + 1) - unat (a + 1) = 0"
      using ab True le_succ [of a b] by (simp_all add: not_le)
    moreover from w True
    have "apply_commit_window ops g' w (le + 1) = map_option (replayed (le + 1)) (apply_commits ops g' (map snd w))" for g'
      using Cons.IH [of "a + 1" "le + 1" g'] by simp
    ultimately show ?thesis
      using x True by (cases "apply_commit ops g c")
        (auto simp: replayed_def map_option_bind option.map_comp comp_def split: sum.split bind_split)
  next
    case False
    with Cons.prems(2) have less: "a < le" by simp
    then have le: "a + 1 \<le> le" and "unat (a + 1) = Suc (unat a)"
      using le_succ unat_succ by blast+
    moreover from less have "unat le - unat a = Suc (unat le - Suc (unat a))"
      by (simp add: word_less_nat_alt)
    ultimately show ?thesis
      using x Cons.IH [OF w le, of g] by simp
  qed
qed

lemma apply_commit_window_gap:
  assumes "map fst w = epochs a b" and "w \<noteq> []" and "le < a"
  shows "apply_commit_window ops g w le = Ret (Inl ResyncNeeded, g, le)"
proof -
  have ab: "a < b"
    using assms(1,2) by (cases "a < b") (auto simp: not_less)
  with assms(1,2) obtain c w' where w: "w = (a + 1, c) # w'"
    by (cases w) (auto simp: epochs_Cons)
  have "\<not> a + 1 \<le> le" and "a + 1 \<noteq> le + 1"
    using assms(3) le_succ [OF ab] by (auto simp: not_le intro: less_trans)
  with w show ?thesis by simp
qed

text \<open>What any replay does, whatever the window: the epoch grows, and a success is idempotent.\<close>

lemma apply_commit_window_mono:
  "apply_commit_window ops g w le = Ret (r, g', le') \<Longrightarrow> le \<le> le'"
proof (induction w arbitrary: g le)
  case (Cons x w)
  have "\<not> fst x \<le> le \<Longrightarrow> le \<le> le + 1"
    using le_succ [of le "fst x"] by (auto simp: not_le)
  with Cons show ?case
    by (cases x) (fastforce split: if_splits bind_splits sum.splits intro: order_trans)
qed simp

lemma apply_commit_window_covers:
  "apply_commit_window ops g w le = Ret (Inr (), g', le') \<Longrightarrow> \<forall>e \<in> fst ` set w. e \<le> le'"
proof (induction w arbitrary: g le)
  case (Cons x w)
  show ?case
  proof (cases "fst x \<le> le")
    case True
    with Cons have "apply_commit_window ops g w le = Ret (Inr (), g', le')" by (cases x) simp
    with True Cons.IH apply_commit_window_mono [OF this] show ?thesis by auto
  next
    case False
    with Cons.prems obtain g'' where "fst x = le + 1"
      and rest: "apply_commit_window ops g'' w (le + 1) = Ret (Inr (), g', le')"
      by (cases x) (auto split: if_splits bind_splits sum.splits)
    with Cons.IH [OF rest] apply_commit_window_mono [OF rest] show ?thesis by auto
  qed
qed simp

subsection \<open>What a sender of windows promises\<close>

text \<open>
  The contract between the sender's log and the receiver's replay: the window holds exactly the
  epochs after the checkpoint up to the current one, in order.
\<close>

locale commit_source =
  fixes win :: "'s \<Rightarrow> window"
    and cur :: "'s \<Rightarrow> u64"
    and chk :: "'s \<Rightarrow> u64"
    and invar :: "'s \<Rightarrow> bool"
  assumes chk_le: "invar s \<Longrightarrow> chk s \<le> cur s"
    and win_epochs: "invar s \<Longrightarrow> map fst (win s) = epochs (chk s) (cur s)"
begin

lemma length_win: "invar s \<Longrightarrow> length (win s) = unat (cur s) - unat (chk s)"
  using win_epochs [of s] by (metis length_epochs length_map)

lemma prefix_epochs:
  assumes "invar s" and "prefix w (win s)"
  shows "map fst w = epochs (chk s) (word_of_nat (unat (chk s) + length w))"
proof -
  have w: "w = take (length w) (win s)" and n: "length w \<le> length (win s)"
    using prefix_takeD [OF assms(2)] by auto
  have "map fst w = take (length w) (map fst (win s))"
    using w by (metis take_map)
  with n show ?thesis
    by (simp add: win_epochs [OF assms(1)] length_win [OF assms(1)] take_epochs)
qed

lemma replay_prefix:
  assumes "invar s" and "prefix w (win s)" and "chk s \<le> le"
  shows "apply_commit_window ops g w le =
    map_option (replayed le) (apply_commits ops g (map snd (drop (unat le - unat (chk s)) w)))"
  using prefix_epochs [OF assms(1,2)] assms(3) by (rule apply_commit_window_range)

lemma fell_off:
  assumes "invar s" and "prefix w (win s)" and "w \<noteq> []" and "le < chk s"
  shows "apply_commit_window ops g w le = Ret (Inl ResyncNeeded, g, le)"
  using prefix_epochs [OF assms(1,2)] assms(3,4) by (rule apply_commit_window_gap)

text \<open>A receiver that is not behind the checkpoint and whose group accepts everything catches up.\<close>

lemma catches_up:
  assumes s: "invar s" and le: "chk s \<le> le" "le \<le> cur s"
    and accept: "apply_commits ops g (map snd (drop (unat le - unat (chk s)) (win s))) = Ret (Inr (), g', n)"
  shows "apply_commit_window ops g (win s) le = Ret (Inr (), g', cur s)"
proof -
  have "n = unat (cur s) - unat le"
    using apply_commits_count [OF accept] le by (simp add: length_win [OF s] word_le_nat_alt)
  then have "le + word_of_nat n = cur s"
    using le by (simp add: word_le_nat_alt of_nat_diff)
  with replay_prefix [OF s _ le(1), of "win s" ops g] accept show ?thesis
    by (simp add: replayed_def)
qed

end

definition commit_log_inv :: "'g CommitLog \<Rightarrow> bool" where
  "commit_log_inv l \<longleftrightarrow> btree_invar (commit_log l) \<and> checkpoint l \<le> current_epoch l \<and>
     map fst (btree_iter (commit_log l)) = epochs (checkpoint l) (current_epoch l)"

lemma window_bytes_filter: "window_bytes l = filter (\<lambda>e. checkpoint l < fst e) (btree_iter (commit_log l))"
proof -
  have "(\<lambda>(epoch, bytes). (epoch, bytes)) = (id :: entry \<Rightarrow> entry)" by auto
  moreover have "(\<lambda>(epoch, _ :: bytes). epoch > checkpoint l) = (\<lambda>e. checkpoint l < fst e)" by auto
  ultimately show ?thesis by (simp add: window_bytes_def)
qed

lemma window_bytes_all: "commit_log_inv l \<Longrightarrow> window_bytes l = btree_iter (commit_log l)"
proof -
  assume "commit_log_inv l"
  then have "fst ` set (btree_iter (commit_log l)) = {e. checkpoint l < e \<and> e \<le> current_epoch l}"
    unfolding commit_log_inv_def by (intro epochs_keys) simp
  then show ?thesis
    unfolding window_bytes_filter by (intro filter_True) blast
qed

interpretation log_source: commit_source window_bytes current_epoch checkpoint commit_log_inv
  by unfold_locales (simp_all add: window_bytes_all, simp_all add: commit_log_inv_def)

lemma filter_window_drop:
  assumes "map fst w = epochs a b" and "a \<le> c" and "c \<le> b"
  shows "filter (\<lambda>e. c < fst e) w = drop (unat c - unat a) w"
proof -
  let ?d = "unat c - unat a"
  have "map fst (drop ?d w) = epochs c b" and "map fst (take ?d w) = epochs a c"
    using assms epochs_append [OF assms(2,3)] by (simp_all add: drop_epochs flip: drop_map take_map)
  then have "filter (\<lambda>e. c < fst e) (drop ?d w) = drop ?d w" and "filter (\<lambda>e. c < fst e) (take ?d w) = []"
    by (auto simp: filter_id_conv filter_empty_conv dest: epochs_keyD)
  then show ?thesis by (metis append_take_drop_id append_Nil filter_append)
qed

lemma filter_map_fst: "map fst (filter (\<lambda>e. p (fst e)) xs) = filter p (map fst xs)"
  by (induction xs) auto

lemma commit_log_new_inv: "commit_log_inv (commit_log_new g)"
  by (simp add: commit_log_inv_def commit_log_new_def btree.invar_new btree.iter_new)

lemma trim_inv:
  assumes "commit_log_inv l"
  shows "commit_log_inv (trim l k)"
proof -
  let ?c = "max (checkpoint l) (min k (current_epoch l))"
  from assms have m: "btree_invar (commit_log l)" and c: "checkpoint l \<le> ?c" "?c \<le> current_epoch l"
    and keys: "map fst (btree_iter (commit_log l)) = epochs (checkpoint l) (current_epoch l)"
    by (auto simp: commit_log_inv_def)
  have "btree_iter (btree_retain (\<lambda>epoch _. ?c < epoch) (commit_log l))
          = filter (\<lambda>e. ?c < fst e) (btree_iter (commit_log l))"
    using btree.iter_ret [OF m] by (simp add: case_prod_unfold)
  then have "map fst (btree_iter (btree_retain (\<lambda>epoch _. ?c < epoch) (commit_log l)))
               = epochs ?c (current_epoch l)"
    by (simp only: filter_map_fst keys filter_epochs [OF c])
  then show ?thesis
    using c(2) btree.invar_ret [OF m] by (simp add: commit_log_inv_def trim_def Let_def)
qed

lemma create_commit_Inr:
  assumes "commit_log_inv l" and "current_epoch l \<noteq> - 1"
    and "commit_log_create_commit ops l = Ret (Inr b, l')"
  shows "commit_log_inv l' \<and> window_bytes l' = window_bytes l @ [(current_epoch l + 1, b)]
    \<and> current_epoch l' = current_epoch l + 1 \<and> checkpoint l' = checkpoint l"
proof -
  from assms(3) obtain g' where l': "l' = l\<lparr>inner := g', current_epoch := current_epoch l + 1,
      commit_log := btree_insert (current_epoch l + 1) b (commit_log l)\<rparr>"
    by (auto simp: commit_log_create_commit_def Let_def split: bind_splits sum.splits)
  from assms(1) have m: "btree_invar (commit_log l)" and c: "checkpoint l \<le> current_epoch l"
    and keys: "map fst (btree_iter (commit_log l)) = epochs (checkpoint l) (current_epoch l)"
    by (auto simp: commit_log_inv_def)
  have up: "current_epoch l < current_epoch l + 1"
    using le_succ [OF not_max_less [OF assms(2)]] by simp
  have "fst ` set (btree_iter (commit_log l)) = {e. checkpoint l < e \<and> e \<le> current_epoch l}"
    using keys by (rule epochs_keys)
  then have iter: "btree_iter (btree_insert (current_epoch l + 1) b (commit_log l))
      = btree_iter (commit_log l) @ [(current_epoch l + 1, b)]"
    using up by (intro btree.iter_ins_above [OF m]) auto
  then have inv: "commit_log_inv l'"
    using c up keys btree.invar_ins [OF m]
    by (simp add: l' commit_log_inv_def epochs_snoc [OF c assms(2)])
  then show ?thesis
    using iter assms(1) by (simp add: window_bytes_all) (simp add: l')
qed

lemma create_commit_Inl:
  "commit_log_create_commit ops l = Ret (Inl e, l') \<Longrightarrow> \<exists>g'. l' = l\<lparr>inner := g'\<rparr>"
  by (auto simp: commit_log_create_commit_def Let_def split: bind_splits sum.splits)

lemma commit_log_inv_inner [simp]: "commit_log_inv (l\<lparr>inner := g\<rparr>) = commit_log_inv l"
  by (simp add: commit_log_inv_def)

lemma window_bytes_inner [simp]: "window_bytes (l\<lparr>inner := g\<rparr>) = window_bytes l"
  by (simp add: window_bytes_def)

subsection \<open>The log as a state machine\<close>

text \<open>
  The calls a commit log receives in any order: commits created by its owner, commits of the peer
  applied to the inner group, and reports. The bound on the epoch excludes the wrap-around.
\<close>

inductive commit_log_step :: "('g, 'e) ExportSecret \<Rightarrow> 'g CommitLog \<Rightarrow> 'g CommitLog \<Rightarrow> bool"
  for ops where
  log_create: "current_epoch l \<noteq> - 1 \<Longrightarrow> create_commit (commit_log_ops ops) l = Ret (r, l')
     \<Longrightarrow> commit_log_step ops l l'"
| log_apply: "apply_commit (commit_log_ops ops) l b = Ret (q, l') \<Longrightarrow> commit_log_step ops l l'"
| log_trim: "commit_log_step ops l (trim l k)"

definition commit_log_init :: "'g CommitLog \<Rightarrow> bool" where
  "commit_log_init l \<longleftrightarrow> l = commit_log_new (inner l)"

lemma commit_log_ops_simps:
  "create_commit (commit_log_ops ops) = commit_log_create_commit ops"
  "apply_commit (commit_log_ops ops) l b = Ret (q, l') \<longleftrightarrow>
     (\<exists>g'. apply_commit ops (inner l) b = Ret (q, g') \<and> l' = l\<lparr>inner := g'\<rparr>)"
  "pending_commit_window (commit_log_ops ops) l = Ret (window_bytes l)"
  by (auto simp: commit_log_ops_def split: bind_splits)

lemma commit_log_step_inv: "commit_log_step ops l l' \<Longrightarrow> commit_log_inv l \<Longrightarrow> commit_log_inv l'"
proof (induction rule: commit_log_step.induct)
  case (log_create l r l')
  then show ?case
    by (cases r) (auto simp: commit_log_ops_simps dest: create_commit_Inr create_commit_Inl)
qed (auto simp: commit_log_ops_simps trim_inv)

interpretation log_machine: machine_invariant commit_log_init "commit_log_step ops" commit_log_inv for ops
proof
  show "commit_log_init l \<Longrightarrow> commit_log_inv l" for l :: "'a CommitLog"
    by (metis commit_log_init_def commit_log_new_inv)
qed (rule commit_log_step_inv)

lemma trim_checkpoint: "checkpoint (trim l k) = max (checkpoint l) (min k (current_epoch l))"
  by (simp add: trim_def Let_def)

lemma trim_frame [simp]: "current_epoch (trim l k) = current_epoch l" "inner (trim l k) = inner l"
  by (simp_all add: trim_def Let_def)

lemma trim_commit_log:
  "commit_log (trim l k) = filter (\<lambda>e. checkpoint (trim l k) < fst e) (commit_log l)"
  by (simp add: trim_def Let_def btree_retain_def case_prod_unfold)

lemma window_bytes_trim:
  "window_bytes (trim l k) = filter (\<lambda>e. checkpoint (trim l k) < fst e) (window_bytes l)"
proof -
  have "checkpoint l \<le> checkpoint (trim l k)" by (simp add: trim_checkpoint)
  then have "\<And>e :: u64. checkpoint (trim l k) < e \<Longrightarrow> checkpoint l < e" by auto
  then show ?thesis
    by (auto simp: window_bytes_filter btree_iter_def trim_commit_log intro: filter_cong)
qed

subsection \<open>Properties\<close>

text \<open>
  C22: The commit log never loses or invents an epoch. In every state reached from an empty log by
  commits, peer commits and reports in any order, the window offered to the peer holds exactly the
  epochs after the checkpoint up to the current epoch, each once and in order.
\<close>

theorem commit_log_window_exact:
  assumes "reach commit_log_init (commit_log_step ops) l"
  shows "checkpoint l \<le> current_epoch l
    \<and> map fst (window_bytes l) = epochs (checkpoint l) (current_epoch l)"
  using log_machine.reach_inv [OF assms] log_source.chk_le log_source.win_epochs by blast

text \<open>
  Creating a commit. In every reachable log below the last epoch, a successful
  \<open>create_commit\<close> advances the epoch by one and appends the commit to the window under the new
  epoch; a failing one changes neither the epochs nor the window.
\<close>

lemma create_commit_appends:
  assumes "reach commit_log_init (commit_log_step ops) l" and "current_epoch l \<noteq> - 1"
    and "create_commit (commit_log_ops ops) l = Ret (r, l')"
  shows "checkpoint l' = checkpoint l \<and>
    (case r of
       Inr b \<Rightarrow> unat (current_epoch l') = unat (current_epoch l) + 1
                \<and> window_bytes l' = window_bytes l @ [(current_epoch l', b)]
     | Inl _ \<Rightarrow> current_epoch l' = current_epoch l \<and> window_bytes l' = window_bytes l)"
proof (cases r)
  case (Inl e)
  with assms(3) show ?thesis by (auto simp: commit_log_ops_simps dest!: create_commit_Inl)
next
  case (Inr b)
  with assms(3) have "commit_log_create_commit ops l = Ret (Inr b, l')"
    by (simp add: commit_log_ops_simps)
  from create_commit_Inr [OF log_machine.reach_inv [OF assms(1)] assms(2) this] show ?thesis
    using Inr unat_succ' [OF assms(2)] by simp
qed

text \<open>
  Reports. A report moves the checkpoint to the larger of its old value and the reported
  epoch, which is clipped to the current epoch; the window loses exactly the epochs up to the new
  checkpoint; the group is untouched; and reports that arrive twice or out of order have the
  effect of the largest one.
\<close>

lemma trim_report:
  "checkpoint (trim l k) = max (checkpoint l) (min k (current_epoch l))
   \<and> window_bytes (trim l k) = filter (\<lambda>e. checkpoint (trim l k) < fst e) (window_bytes l)
   \<and> current_epoch (trim l k) = current_epoch l \<and> inner (trim l k) = inner l
   \<and> trim (trim l k) j = trim l (max k j)"
proof -
  have "checkpoint (trim (trim l k) j) = checkpoint (trim l (max k j))"
    by (auto simp: trim_checkpoint min_def max_def)
  moreover from this have "commit_log (trim (trim l k) j) = commit_log (trim l (max k j))"
  proof -
    let ?c = "checkpoint (trim l (max k j))"
    have "checkpoint (trim l k) \<le> ?c"
      by (simp add: trim_checkpoint) (metis max.coboundedI2 max.cobounded1 min.mono order_refl)
    then have "\<And>e :: u64. ?c < e \<Longrightarrow> checkpoint (trim l k) < e" by auto
    with calculation show ?thesis by (auto simp: trim_commit_log intro: filter_cong)
  qed
  ultimately have "trim (trim l k) j = trim l (max k j)"
    by (intro CommitLog.equality) simp_all
  then show ?thesis by (simp add: trim_checkpoint window_bytes_trim)
qed

text \<open>
  C23: Catching up. If the receiver's epoch is between the sender's checkpoint and its current
  epoch, replaying the sender's window applies exactly the commits the receiver misses, in order:
  it skips the stale ones, stops at the first commit the group rejects with that error, and leaves
  the epoch advanced by the number of commits applied. It never asks for a resync.
\<close>

theorem replay_window_catches_up:
  assumes "reach commit_log_init (commit_log_step ops) l"
    and "checkpoint l \<le> le" and "le \<le> current_epoch l"
  shows "apply_commit_window peer g (window_bytes l) le =
    (case apply_commits peer g (map snd (filter (\<lambda>e. le < fst e) (window_bytes l))) of
       None \<Rightarrow> Panic
     | Some (Inl e, g', n) \<Rightarrow> Ret (Inl (MlsError e), g', le + word_of_nat n)
     | Some (Inr _, g', n) \<Rightarrow> Ret (Inr (), g', current_epoch l))"
proof -
  let ?w = "window_bytes l" and ?d = "unat le - unat (checkpoint l)"
  note inv = log_machine.reach_inv [OF assms(1)]
  note drop = filter_window_drop [OF log_source.win_epochs [OF inv] assms(2,3)]
  show ?thesis
  proof (cases "apply_commits peer g (map snd (drop ?d ?w))")
    case None
    with drop log_source.replay_prefix [OF inv prefix_order.refl assms(2), of peer g] show ?thesis by simp
  next
    case (Some x)
    obtain r g' n where x: "x = (r, g', n)" by (cases x)
    show ?thesis
    proof (cases r)
      case (Inl e)
      with Some x drop log_source.replay_prefix [OF inv prefix_order.refl assms(2), of peer g]
      show ?thesis by (simp add: replayed_def)
    next
      case (Inr u)
      with Some x drop log_source.catches_up [OF inv assms(2,3), of peer g g' n]
      show ?thesis by simp
    qed
  qed
qed

text \<open>
  Falling off the back. If the sender has trimmed past the receiver's epoch and still has
  commits, replaying its window reports that a resync is needed and changes neither the group nor
  the epoch.
\<close>

lemma replay_fell_off_back:
  assumes "reach commit_log_init (commit_log_step ops) l"
    and "le < checkpoint l" and "checkpoint l < current_epoch l"
  shows "apply_commit_window peer g (window_bytes l) le = Ret (Inl ResyncNeeded, g, le)"
proof -
  note inv = log_machine.reach_inv [OF assms(1)]
  have "window_bytes l \<noteq> []"
    using assms(3) log_source.win_epochs [OF inv] by (auto simp: epochs_Cons)
  then show ?thesis
    by (rule log_source.fell_off [OF inv prefix_order.refl _ assms(2)])
qed

text \<open>
  Replay is idempotent and never moves an epoch back. After a successful replay of any window
  the epoch is at least what it was and covers every entry of the window, and delivering the same
  window again does nothing.
\<close>

lemma replay_idempotent:
  assumes "apply_commit_window ops g w le = Ret (Inr (), g', le')"
  shows "le \<le> le' \<and> (\<forall>e \<in> fst ` set w. e \<le> le')
    \<and> apply_commit_window ops g' w le' = Ret (Inr (), g', le')"
  using apply_commit_window_mono [OF assms] apply_commit_window_covers [OF assms]
    apply_commit_window_stale [of w le' ops g'] by blast

subsection \<open>Witnesses\<close>

text \<open>
  A concrete library for the witnesses: a group is its epoch, a commit is one byte naming the
  epoch it leads to, and only the commit for the next epoch is accepted.
\<close>

definition sample_lib :: "(nat, bytes, string) mls_lib" where
  "sample_lib =
     \<lparr>lib_export_secret = (\<lambda>g label context len. Inr (replicate len (word_of_nat g))),
      lib_message_from_bytes = (\<lambda>bs. if bs = [] then Inl ''empty'' else Inr bs),
      lib_process_incoming_message = (\<lambda>g m.
        if m = [word_of_nat (Suc g)] then (Inr (), Suc g) else (Inl ''wrong epoch'', g)),
      lib_commit = (\<lambda>g. (Inr [word_of_nat (Suc g)], g)),
      lib_apply_pending_commit = (\<lambda>g. (Inr (), Suc g)),
      lib_message_to_bytes = Inr\<rparr>"

abbreviation sample_ops :: "(nat, string) ExportSecret" where
  "sample_ops \<equiv> mls_group sample_lib"

lemma sample_ops_simps [simp]:
  "export_secret sample_ops g l c n = Ret (Inr (replicate n (word_of_nat g)))"
  "apply_commit sample_ops g b =
     Ret (if b = [] then (Inl ''empty'', g)
          else if b = [word_of_nat (Suc g)] then (Inr (), Suc g) else (Inl ''wrong epoch'', g))"
  "create_commit sample_ops g = Ret (Inr [word_of_nat (Suc g)], Suc g)"
  by (simp_all add: mls_group_def sample_lib_def mls_apply_commit_def mls_create_commit_def)

definition sample_log :: "nat \<Rightarrow> (u64, bytes) btree \<Rightarrow> u64 \<Rightarrow> u64 \<Rightarrow> nat CommitLog" where
  "sample_log g m c k = \<lparr>inner = g, commit_log = m, current_epoch = c, checkpoint = k\<rparr>"

lemmas sample_log_simps =
  sample_log_def commit_log_ops_simps commit_log_create_commit_def window_bytes_def btree_iter_def
  trim_def btree_retain_def

lemma sample_log_0: "reach commit_log_init (commit_log_step sample_ops) (sample_log 0 [] 0 0)"
  by (rule reach_init) (simp add: commit_log_init_def commit_log_new_def sample_log_def btree_new_def)

lemma sample_log_create: "create_commit (commit_log_ops sample_ops) (sample_log 0 [] 0 0)
    = Ret (Inr [1], sample_log 1 [(1, [1])] 1 0)"
  by (simp add: sample_log_simps)

lemma sample_log_2: "reach commit_log_init (commit_log_step sample_ops) (sample_log 2 [(1, [1]), (2, [2])] 2 0)"
proof -
  have "reach commit_log_init (commit_log_step sample_ops) (sample_log 1 [(1, [1])] 1 0)"
    by (rule reach_step [OF sample_log_0 log_create [OF _ sample_log_create]]) (simp add: sample_log_def)
  then show ?thesis
    by (rule reach_step) (rule log_create [of _ _ "Inr [2]"], simp_all add: sample_log_simps)
qed

lemma sample_log_trimmed: "reach commit_log_init (commit_log_step sample_ops) (sample_log 2 [(2, [2])] 2 1)"
proof -
  have "trim (sample_log 2 [(1, [1]), (2, [2])] 2 0) 1 = sample_log 2 [(2, [2])] 2 1"
    by (simp add: sample_log_simps)
  with reach_step [OF sample_log_2 log_trim [of _ _ 1]] show ?thesis by simp
qed

lemma commit_log_window_exact_witness:
  "map fst (window_bytes (sample_log 2 [(2, [2])] 2 1)) = epochs 1 2"
  using commit_log_window_exact [OF sample_log_trimmed] by (simp add: sample_log_def)

lemma create_commit_appends_witness:
  "window_bytes (sample_log 1 [(1, [1])] 1 0) = window_bytes (sample_log 0 [] 0 0) @ [(1, [1])]"
proof -
  have "current_epoch (sample_log 0 [] 0 0) \<noteq> - 1" by (simp add: sample_log_def)
  from create_commit_appends [OF sample_log_0 this sample_log_create]
  show ?thesis by (simp add: sample_log_def)
qed

lemma replay_window_catches_up_witness:
  "apply_commit_window sample_ops 1 (window_bytes (sample_log 2 [(1, [1]), (2, [2])] 2 0)) 1
     = Ret (Inr (), 2, 2)"
proof -
  have "checkpoint (sample_log 2 [(1, [1]), (2, [2])] 2 0) \<le> 1"
    and "1 \<le> current_epoch (sample_log 2 [(1, [1]), (2, [2])] 2 0)"
    by (simp_all add: sample_log_def)
  from replay_window_catches_up [OF sample_log_2 this, of sample_ops 1]
  show ?thesis by (simp add: sample_log_simps)
qed

lemma replay_fell_off_back_witness:
  "apply_commit_window sample_ops 0 (window_bytes (sample_log 2 [(2, [2])] 2 1)) 0
     = Ret (Inl ResyncNeeded, 0, 0)"
proof -
  have "0 < checkpoint (sample_log 2 [(2, [2])] 2 1)"
    and "checkpoint (sample_log 2 [(2, [2])] 2 1) < current_epoch (sample_log 2 [(2, [2])] 2 1)"
    by (simp_all add: sample_log_def)
  from replay_fell_off_back [OF sample_log_trimmed this] show ?thesis .
qed

lemma replay_idempotent_witness:
  "apply_commit_window sample_ops 2 [(1, [1]), (2, [2])] 2 = Ret (Inr (), 2, 2)"
proof -
  have "apply_commit_window sample_ops 0 [(1, [1]), (2, [2])] 0 = Ret (Inr (), 2, 2)"
    by (simp add: word_le_nat_alt)
  from replay_idempotent [OF this] show ?thesis by simp
qed

end
