(* ===== verification/Preamble.thy ===== *)
theory Preamble
  imports Transcript
begin

text \<open>
  The out-of-band channel for commit windows (\<open>quic-mls/src/preamble.rs\<close>): the marker byte
  that tells a preamble datagram from a QUIC packet, the packing of a window into datagrams, and
  the socket that sends preambles and takes them out of the receive path.

  The UDP socket of tokio is a parameter: sending is a function on its state, and what a call of
  \<open>poll_recv\<close> gets from it is a script of readiness and receive results, so that the loop is a
  recursion over the script (an exhausted script is \<open>Pending\<close>). The commit sink is a function on
  the state of the application behind it; warnings go to the log only and are not modelled.
\<close>

subsection \<open>The marker and the packing\<close>

definition PREAMBLE_MARKER :: u8 where [byte_simps]:
  "PREAMBLE_MARKER = 0x00"

definition is_preamble_marker :: "u8 \<Rightarrow> bool" where
  "is_preamble_marker first_byte \<longleftrightarrow> first_byte AND 0xC0 = 0"

definition MAX_DATAGRAM_PAYLOAD :: nat where
  "MAX_DATAGRAM_PAYLOAD = 1200"

definition TRANSCRIPT_HEADER_LEN :: nat where
  "TRANSCRIPT_HEADER_LEN = 4 + 4"

definition entry_wire_len :: "entry \<Rightarrow> nat" where
  "entry_wire_len e = 8 + 4 + length (snd e)"

text \<open>
  The loop of \<open>bucket_window\<close>, with the buckets pushed so far, the bucket being filled, its
  length and the total; a \<open>break\<close> returns the buckets and the open bucket.
\<close>

fun bucket_loop ::
    "nat \<Rightarrow> nat \<Rightarrow> window \<Rightarrow> window list \<Rightarrow> window \<Rightarrow> nat \<Rightarrow> nat \<Rightarrow> window list \<times> window" where
  "bucket_loop total_budget per_datagram_budget [] buckets current current_len total_len =
     (buckets, current)"
| "bucket_loop total_budget per_datagram_budget (entry # window) buckets current current_len total_len =
     (let entry_len = entry_wire_len entry
      in if TRANSCRIPT_HEADER_LEN + entry_len > per_datagram_budget then (buckets, current)
         else if total_len + entry_len > total_budget then (buckets, current)
         else let (buckets, current, current_len) =
                    (if current_len + entry_len > per_datagram_budget
                     then (buckets @ [current], [], TRANSCRIPT_HEADER_LEN)
                     else (buckets, current, current_len))
              in bucket_loop total_budget per_datagram_budget window
                   buckets (current @ [entry]) (current_len + entry_len) (total_len + entry_len))"

definition bucket_window :: "window \<Rightarrow> nat \<Rightarrow> nat \<Rightarrow> window list" where
  "bucket_window window total_budget per_datagram_budget =
     (let (buckets, current) =
            bucket_loop total_budget per_datagram_budget window [] [] TRANSCRIPT_HEADER_LEN 0
      in if current \<noteq> [] then buckets @ [current] else buckets)"

definition parse_preamble :: "bytes \<Rightarrow> (TranscriptDecodeError + window) option panics" where
  "parse_preamble datagram =
     (case datagram of
        [] \<Rightarrow> Ret None
      | first # rest \<Rightarrow>
          if \<not> is_preamble_marker first then Ret None
          else do { r \<leftarrow> decode_transcript rest; Ret (Some r) })"

subsection \<open>The socket\<close>

record ('u, 's) PreambleSocket =
  io :: 'u
  sink :: "('s \<Rightarrow> window \<Rightarrow> 's) option"
  preamble_bytes_sent :: u64

definition preamble_socket_new :: "'u \<Rightarrow> ('s \<Rightarrow> window \<Rightarrow> 's) option \<Rightarrow> ('u, 's) PreambleSocket" where
  "preamble_socket_new u k = \<lparr>io = u, sink = k, preamble_bytes_sent = 0\<rparr>"

text \<open>The datagram of one bucket: the marker and the encoded bucket, none for an empty blob.\<close>

definition usize_MAX :: nat where
  "usize_MAX = 2 ^ 64 - 1"

definition bucket_datagram :: "window \<Rightarrow> bytes option" where
  "bucket_datagram bucket =
     (let blob = encode_transcript bucket usize_MAX
      in if blob = [] then None else Some (PREAMBLE_MARKER # blob))"

text \<open>
  The loop of \<open>send_preamble\<close> over the buckets. \<open>send_to\<close> is the socket's call: it returns
  an error or the number of bytes sent, and the socket afterwards; the first error ends the loop.
\<close>

fun send_buckets ::
    "('u \<Rightarrow> bytes \<Rightarrow> 'p \<Rightarrow> ('ioe + nat) \<times> 'u) \<Rightarrow> 'p \<Rightarrow> 'u \<Rightarrow> window list \<Rightarrow> u64 \<Rightarrow> ('ioe + u64) \<times> 'u" where
  "send_buckets send_to peer u [] sent = (Inr sent, u)"
| "send_buckets send_to peer u (bucket # buckets) sent =
     (case bucket_datagram bucket of
        None \<Rightarrow> send_buckets send_to peer u buckets sent
      | Some datagram \<Rightarrow>
          (case send_to u datagram peer of
             (Inl e, u') \<Rightarrow> (Inl e, u')
           | (Inr _, u') \<Rightarrow>
               send_buckets send_to peer u' buckets (sent + word_of_nat (length datagram))))"

definition send_preamble ::
    "('u \<Rightarrow> bytes \<Rightarrow> 'p \<Rightarrow> ('ioe + nat) \<times> 'u) \<Rightarrow> ('u, 's) PreambleSocket \<Rightarrow> 'p \<Rightarrow> window \<Rightarrow> nat
      \<Rightarrow> ('ioe + u64) \<times> ('u, 's) PreambleSocket" where
  "send_preamble send_to sock peer window total_budget =
     (case send_buckets send_to peer (io sock)
             (bucket_window window total_budget (MAX_DATAGRAM_PAYLOAD - 1)) 0 of
        (Inl e, u) \<Rightarrow> (Inl e, sock\<lparr>io := u\<rparr>)
      | (Inr sent, u) \<Rightarrow>
          (Inr sent, sock\<lparr>io := u, preamble_bytes_sent := preamble_bytes_sent sock + sent\<rparr>))"

text \<open>
  The methods that quinn's own packets take: out unchanged, by one call of the socket, and one datagram
  at a time in both directions. \<open>local_addr\<close> and \<open>poll_writable\<close> are those of the socket.
\<close>

definition try_send ::
    "('u \<Rightarrow> bytes \<Rightarrow> 'p \<Rightarrow> ('ioe + nat) \<times> 'u) \<Rightarrow> ('u, 's) PreambleSocket \<Rightarrow> bytes \<Rightarrow> 'p
      \<Rightarrow> ('ioe + unit) \<times> ('u, 's) PreambleSocket" where
  "try_send try_send_to sock contents destination =
     (case try_send_to (io sock) contents destination of
        (Inl e, u) \<Rightarrow> (Inl e, sock\<lparr>io := u\<rparr>)
      | (Inr _, u) \<Rightarrow> (Inr (), sock\<lparr>io := u\<rparr>))"

definition max_transmit_segments :: "('u, 's) PreambleSocket \<Rightarrow> nat" where
  "max_transmit_segments sock = 1"

definition max_receive_segments :: "('u, 's) PreambleSocket \<Rightarrow> nat" where
  "max_receive_segments sock = 1"

definition handle_preamble_datagram ::
    "('u, 's) PreambleSocket \<Rightarrow> bytes \<Rightarrow> 's \<Rightarrow> 's panics" where
  "handle_preamble_datagram sock payload s = do {
     r \<leftarrow> decode_transcript payload;
     case r of
       Inl e \<Rightarrow> Ret s
     | Inr window \<Rightarrow> (case sink sock of None \<Rightarrow> Ret s | Some k \<Rightarrow> Ret (k s window))
   }"

text \<open>
  One iteration of the receive loop asks for readiness and then receives: the script holds, per
  iteration, the error of \<open>poll_recv_ready\<close> or what \<open>try_recv_from\<close> gave. A received datagram
  is what the kernel wrote to the buffer, so it is no longer than the buffer.
\<close>

datatype ('ioe, 'a) recv_event = ReadyErr 'ioe | Received bytes 'a | WouldBlock | RecvErr 'ioe

datatype ('ioe) poll = Pending | Ready "'ioe + nat"

record 'a RecvMeta =
  meta_addr :: 'a
  meta_len :: nat

text \<open>The kernel overwrites the front of the buffer; the rest keeps its old content.\<close>

definition fill_buf :: "bytes \<Rightarrow> bytes \<Rightarrow> bytes" where
  "fill_buf buf datagram = datagram @ drop (length datagram) buf"

fun poll_recv ::
    "('u, 's) PreambleSocket \<Rightarrow> ('ioe, 'a) recv_event list \<Rightarrow> nat \<Rightarrow> bytes list \<Rightarrow> 'a RecvMeta list
      \<Rightarrow> 's \<Rightarrow> ('ioe poll \<times> bytes list \<times> 'a RecvMeta list \<times> 's) panics" where
  "poll_recv sock [] filled bufs meta s =
     (if filled \<ge> length bufs then Ret (Ready (Inr filled), bufs, meta, s)
      else Ret (if filled > 0 then Ready (Inr filled) else Pending, bufs, meta, s))"
| "poll_recv sock (ev # evs) filled bufs meta s =
     (if filled \<ge> length bufs then Ret (Ready (Inr filled), bufs, meta, s)
      else case ev of
        ReadyErr e \<Rightarrow> Ret (Ready (if filled > 0 then Inr filled else Inl e), bufs, meta, s)
      | Received datagram addr \<Rightarrow>
          let len = length datagram;
              bufs = bufs[filled := fill_buf (bufs ! filled) datagram]
          in do {
            parsed \<leftarrow> parse_preamble (take len (bufs ! filled));
            case parsed of
              Some _ \<Rightarrow> do {
                payload \<leftarrow> sub_slice (bufs ! filled) 1 len;
                s \<leftarrow> handle_preamble_datagram sock payload s;
                poll_recv sock evs filled bufs meta s
              }
            | None \<Rightarrow>
                (if filled < length meta
                 then poll_recv sock evs (filled + 1) bufs
                        (meta[filled := \<lparr>meta_addr = addr, meta_len = len\<rparr>]) s
                 else Panic)
          }
      | WouldBlock \<Rightarrow>
          (if filled > 0 then Ret (Ready (Inr filled), bufs, meta, s)
           else poll_recv sock evs filled bufs meta s)
      | RecvErr e \<Rightarrow> Ret (Ready (if filled > 0 then Inr filled else Inl e), bufs, meta, s))"

subsection \<open>The contract of a packer\<close>

text \<open>
  What the sender relies on: the buckets are a prefix of the window cut into non-empty pieces that
  each fit a datagram, within the total budget, and nothing is left out when everything fits.
\<close>

locale datagram_packer =
  fixes pack :: "window \<Rightarrow> nat \<Rightarrow> nat \<Rightarrow> window list"
  assumes pack_prefix: "prefix (concat (pack w tb pb)) w"
    and pack_nonempty: "b \<in> set (pack w tb pb) \<Longrightarrow> b \<noteq> []"
    and pack_fits: "b \<in> set (pack w tb pb) \<Longrightarrow> 8 + window_wire b \<le> pb"
    and pack_complete: "\<lbrakk>\<And>e. e \<in> set w \<Longrightarrow> 8 + entry_len e \<le> pb; window_wire w \<le> tb\<rbrakk>
      \<Longrightarrow> concat (pack w tb pb) = w"
begin

lemma bucket_ok:
  assumes "b \<in> set (pack w tb pb)" and "pb < 2 ^ 32"
  shows "bucket_datagram b = Some (PREAMBLE_MARKER # encode_transcript b usize_MAX)
    \<and> length (PREAMBLE_MARKER # encode_transcript b usize_MAX) = 9 + window_wire b
    \<and> decode_transcript (encode_transcript b usize_MAX) = Ret (Inr b)"
proof -
  have fits: "8 + window_wire b \<le> pb" and ne: "b \<noteq> []"
    using assms(1) by (auto dest: pack_fits pack_nonempty)
  have inc: "included b usize_MAX = b"
    using fits assms(2) by (intro include_entries_all) (simp add: usize_MAX_def)
  have small: "entry_len e \<le> window_wire b" if "e \<in> set b" for e
    using that unfolding window_wire_def by (simp add: member_le_sum_list)
  have "length b \<le> window_wire b"
    by (induction b) (auto simp: entry_len_def)
  then have "length b < 2 ^ 32" and "\<forall>e \<in> set b. entry_ok e"
    using fits assms(2) small by (auto simp: entry_ok_def entry_len_def intro: le_less_trans)
       (metis (no_types, opaque_lifting) add_leD2 le_less_trans le_trans snd_conv)
  with ne inc have "decode_transcript (encode_transcript b usize_MAX) = Ret (Inr b)"
    using encode_transcript_decodes [where w = b and m = usize_MAX and trailing = "[]"] by simp
  then show ?thesis
    using ne inc length_encode_transcript [where w = b and m = usize_MAX] by (auto simp: bucket_datagram_def Let_def)
qed

end

text \<open>The entries the packing loop takes, as a plain recursion.\<close>

fun taken :: "nat \<Rightarrow> nat \<Rightarrow> nat \<Rightarrow> window \<Rightarrow> window" where
  "taken tb pb n0 [] = []"
| "taken tb pb n0 (e # w) =
     (if 8 + entry_len e > pb \<or> n0 + entry_len e > tb then [] else e # taken tb pb (n0 + entry_len e) w)"

lemma taken_prefix: "prefix (taken tb pb n0 w) w"
  by (induction w arbitrary: n0) auto

lemma length_taken:
  "n \<le> length w \<Longrightarrow>
     n \<le> length (taken tb pb n0 w) \<longleftrightarrow>
       (\<forall>e \<in> set (take n w). 8 + entry_len e \<le> pb) \<and> (n = 0 \<or> n0 + window_wire (take n w) \<le> tb)"
proof (induction w arbitrary: n0 n)
  case (Cons e w)
  show ?case
  proof (cases n)
    case (Suc k)
    with Cons.prems have "k \<le> length w" by simp
    from Cons.IH [OF this, of "n0 + entry_len e"] Suc show ?thesis
      by (cases "k = 0") (auto simp: add.assoc not_less)
  qed simp
qed simp

text \<open>The state of the loop: full buckets, each too full for the entry after it.\<close>

fun tight :: "nat \<Rightarrow> window list \<Rightarrow> bool" where
  "tight pb (b # c # bs) \<longleftrightarrow> 8 + window_wire (b @ [hd c]) > pb \<and> tight pb (c # bs)"
| "tight pb bs \<longleftrightarrow> True"

definition buckets_ok :: "nat \<Rightarrow> window list \<Rightarrow> bool" where
  "buckets_ok pb bs \<longleftrightarrow> (\<forall>b \<in> set bs. b \<noteq> [] \<and> 8 + window_wire b \<le> pb) \<and> tight pb bs"

definition close :: "window list \<times> window \<Rightarrow> window list" where
  "close = (\<lambda>(buckets, current). if current \<noteq> [] then buckets @ [current] else buckets)"

lemma entry_wire_len_eq: "entry_wire_len = entry_len"
  by (simp add: fun_eq_iff entry_wire_len_def entry_len_def)

lemma tight_snoc_hd:
  "tight pb (bs @ [c]) \<Longrightarrow> c \<noteq> [] \<Longrightarrow> tight pb (bs @ [c @ x])"
  by (induction pb bs rule: tight.induct) (auto split: list.splits)

lemma tight_snoc_new:
  "tight pb (bs @ [c]) \<Longrightarrow> 8 + window_wire (c @ [e]) > pb \<Longrightarrow> tight pb (bs @ [c, [e]])"
  by (induction pb bs rule: tight.induct) auto

lemma bucket_loop_close:
  assumes "cl = 8 + window_wire current" and "buckets_ok pb (close (buckets, current))"
    and "current = [] \<Longrightarrow> buckets = []"
  shows "concat (close (bucket_loop tb pb w buckets current cl n0))
           = concat buckets @ current @ taken tb pb n0 w
    \<and> buckets_ok pb (close (bucket_loop tb pb w buckets current cl n0))"
  using assms
proof (induction w arbitrary: buckets current cl n0)
  case Nil
  then show ?case by (simp add: close_def)
next
  case (Cons e w)
  let ?el = "entry_len e"
  consider (stop) "8 + ?el > pb \<or> n0 + ?el > tb"
    | (new) "8 + ?el \<le> pb" "n0 + ?el \<le> tb" "cl + ?el > pb"
    | (same) "8 + ?el \<le> pb" "n0 + ?el \<le> tb" "cl + ?el \<le> pb" by linarith
  then show ?case
  proof cases
    case stop
    then show ?thesis
      using Cons.prems by (auto simp: close_def Let_def TRANSCRIPT_HEADER_LEN_def entry_wire_len_eq)
  next
    case new
    with Cons.prems have cur: "current \<noteq> []" by auto
    with Cons.prems new have "buckets_ok pb (close (buckets @ [current], [e]))"
      by (auto simp: close_def buckets_ok_def tight_snoc_new)
    from Cons.IH [OF _ this, of "8 + ?el" "n0 + ?el"] new show ?thesis
      by (simp add: Let_def TRANSCRIPT_HEADER_LEN_def entry_wire_len_eq)
  next
    case same
    with Cons.prems have "buckets_ok pb (close (buckets, current @ [e]))"
      by (cases "current = []") (auto simp: close_def buckets_ok_def intro: tight_snoc_hd)
    from Cons.IH [OF _ this, of "cl + ?el" "n0 + ?el"] same Cons.prems(1) show ?thesis
      by (simp add: Let_def TRANSCRIPT_HEADER_LEN_def entry_wire_len_eq)
  qed
qed

lemma bucket_window_close: "bucket_window w tb pb = close (bucket_loop tb pb w [] [] 8 0)"
  by (simp add: bucket_window_def close_def TRANSCRIPT_HEADER_LEN_def case_prod_unfold Let_def)

lemma bucket_window_taken:
  "concat (bucket_window w tb pb) = taken tb pb 0 w" "buckets_ok pb (bucket_window w tb pb)"
proof -
  have "concat (close (bucket_loop tb pb w [] [] 8 0)) = concat [] @ [] @ taken tb pb 0 w
    \<and> buckets_ok pb (close (bucket_loop tb pb w [] [] 8 0))"
    by (rule bucket_loop_close) (simp_all add: close_def buckets_ok_def)
  then show "concat (bucket_window w tb pb) = taken tb pb 0 w" "buckets_ok pb (bucket_window w tb pb)"
    by (simp_all only: bucket_window_close append.simps concat.simps)
qed

interpretation packer: datagram_packer bucket_window
proof
  fix w :: window and tb pb :: nat
  show "prefix (concat (bucket_window w tb pb)) w"
    by (simp add: bucket_window_taken taken_prefix)
  assume all: "\<And>e. e \<in> set w \<Longrightarrow> 8 + entry_len e \<le> pb" "window_wire w \<le> tb"
  then have "length w \<le> length (taken tb pb 0 w)"
    by (subst length_taken) auto
  then show "concat (bucket_window w tb pb) = w"
    unfolding bucket_window_taken by (metis prefix_takeD take_all taken_prefix)
qed (use bucket_window_taken(2) in \<open>auto simp: buckets_ok_def\<close>)

text \<open>A tight packing is a smallest one: no other cut into fitting pieces has fewer.\<close>

lemma tight_minimal:
  assumes "buckets_ok pb bs" and "\<forall>c \<in> set cs. 8 + window_wire c \<le> pb" and "concat cs = x @ concat bs"
  shows "length bs \<le> length cs"
  using assms
proof (induction cs arbitrary: x bs)
  case Nil
  then show ?case by (cases bs) (auto simp: buckets_ok_def)
next
  case (Cons c cs)
  show ?case
  proof (cases bs)
    case bs: (Cons b bs')
    show ?thesis
    proof (cases bs')
      case bs': (Cons b' bs'')
      have b': "b' \<noteq> []" and over: "8 + window_wire (b @ [hd b']) > pb"
        using Cons.prems(1) bs bs' by (auto simp: buckets_ok_def)
      have eq: "c @ concat cs = (x @ b) @ concat bs'"
        using Cons.prems(3) bs by simp
      have "\<exists>y. x @ b = c @ y \<and> concat cs = y @ concat bs'"
      proof (rule ccontr)
        assume neg: "\<not> ?thesis"
        from eq obtain us where "c = (x @ b) @ us \<and> us @ concat cs = concat bs'
            \<or> c @ us = x @ b \<and> concat cs = us @ concat bs'"
          unfolding append_eq_append_conv2 by blast
        with neg have us: "c = (x @ b) @ us" "us @ concat cs = concat bs'" by metis+
        with neg have "us \<noteq> []" by (metis append_Nil append_Nil2)
        with us(2) bs' b' have "hd us = hd b'" by (metis concat.simps(2) hd_append2)
        with us(1) \<open>us \<noteq> []\<close> have "window_wire (b @ [hd b']) \<le> window_wire c"
          by (cases us) auto
        with over Cons.prems(2) show False by auto
      qed
      then obtain y where "concat cs = y @ concat bs'" by blast
      moreover have "buckets_ok pb bs'"
        using Cons.prems(1) bs bs' by (auto simp: buckets_ok_def)
      ultimately have "length bs' \<le> length cs"
        using Cons.IH [of bs' y] Cons.prems(2) by simp
      with bs show ?thesis by simp
    qed (use bs in simp)
  qed simp
qed

lemma bucket_loop_oversize:
  "8 + entry_len e > pb \<Longrightarrow>
     bucket_loop tb pb (w @ e # w') buckets current cl n0 = bucket_loop tb pb w buckets current cl n0"
  by (induction w arbitrary: buckets current cl n0)
    (auto simp: Let_def TRANSCRIPT_HEADER_LEN_def entry_wire_len_eq)

declare poll_recv.simps [simp del]

lemma marker_bits: "is_preamble_marker b \<longleftrightarrow> \<not> bit b 6 \<and> \<not> bit b 7"
proof -
  have mask: "bit (0xC0 :: u8) n \<longleftrightarrow> n = 6 \<or> n = 7" for n
  proof (cases "n < 8")
    case True
    then have "n \<in> {0,1,2,3,4,5,6,7}" by auto
    then show ?thesis by auto
  next
    case False
    then show ?thesis using bit_imp_le_length [of "0xC0 :: u8" n] by auto
  qed
  have "b AND 0xC0 = 0 \<longleftrightarrow> (\<forall>n. \<not> bit (b AND 0xC0) n)"
    by (metis bit_0_eq bit_eqI bot_apply bot_bool_def)
  then show ?thesis
    unfolding is_preamble_marker_def bit_and_iff mask by blast
qed

subsection \<open>Sending\<close>

definition preamble_datagrams :: "window \<Rightarrow> nat \<Rightarrow> bytes list" where
  "preamble_datagrams w budget =
     map (\<lambda>b. PREAMBLE_MARKER # encode_transcript b usize_MAX)
       (bucket_window w budget (MAX_DATAGRAM_PAYLOAD - 1))"

text \<open>The datagrams a socket accepts before its first error, the error, and the socket left.\<close>

fun sends ::
    "('u \<Rightarrow> bytes \<Rightarrow> 'p \<Rightarrow> ('ioe + nat) \<times> 'u) \<Rightarrow> 'p \<Rightarrow> 'u \<Rightarrow> bytes list \<Rightarrow> bytes list \<times> 'ioe option \<times> 'u" where
  "sends send_to peer u [] = ([], None, u)"
| "sends send_to peer u (d # ds) =
     (case send_to u d peer of
        (Inl e, u') \<Rightarrow> ([], Some e, u')
      | (Inr _, u') \<Rightarrow> (case sends send_to peer u' ds of (ds', r, u'') \<Rightarrow> (d # ds', r, u'')))"

lemma send_buckets_sends:
  assumes "\<forall>b \<in> set bs. bucket_datagram b = Some (f b)"
  shows "send_buckets send_to peer u bs sent =
    (case sends send_to peer u (map f bs) of
       (ds, None, u') \<Rightarrow> (Inr (sent + word_of_nat (length (concat ds))), u')
     | (ds, Some e, u') \<Rightarrow> (Inl e, u'))"
  using assms
  by (induction bs arbitrary: u sent) (auto split: prod.splits sum.splits option.splits simp: add.assoc)

lemma sends_prefix: "sends send_to peer u ds = (ds', r, u') \<Longrightarrow> prefix ds' ds \<and> (r = None \<longrightarrow> ds' = ds)"
  by (induction ds arbitrary: u ds') (auto split: prod.splits sum.splits)

lemma preamble_bucket_ok:
  assumes "b \<in> set (bucket_window w budget (MAX_DATAGRAM_PAYLOAD - 1))"
  shows "bucket_datagram b = Some (PREAMBLE_MARKER # encode_transcript b usize_MAX)"
    and "length (PREAMBLE_MARKER # encode_transcript b usize_MAX) \<le> 1200"
    and "decode_transcript (encode_transcript b usize_MAX) = Ret (Inr b)"
  using packer.bucket_ok [OF assms] packer.pack_fits [OF assms] by (simp_all add: MAX_DATAGRAM_PAYLOAD_def)

lemma parse_preamble_marked: "parse_preamble (PREAMBLE_MARKER # payload) =
    do { r \<leftarrow> decode_transcript payload; Ret (Some r) }"
  by (simp add: parse_preamble_def is_preamble_marker_def PREAMBLE_MARKER_def)

lemma parse_preamble_datagrams:
  "map parse_preamble (preamble_datagrams w budget) =
     map (\<lambda>b. Ret (Some (Inr b))) (bucket_window w budget (MAX_DATAGRAM_PAYLOAD - 1))"
  by (auto simp: preamble_datagrams_def parse_preamble_marked preamble_bucket_ok)

subsection \<open>Receiving\<close>

definition is_preamble :: "bytes \<Rightarrow> bool" where
  "is_preamble d \<longleftrightarrow> d \<noteq> [] \<and> is_preamble_marker (hd d)"

fun quic_of :: "('ioe, 'a) recv_event list \<Rightarrow> (bytes \<times> 'a) list" where
  "quic_of [] = []"
| "quic_of (Received d addr # evs) = (if is_preamble d then quic_of evs else (d, addr) # quic_of evs)"
| "quic_of (_ # evs) = quic_of evs"

text \<open>The windows of the well-formed preambles; malformed ones are dropped with a warning.\<close>

fun windows_of :: "('ioe, 'a) recv_event list \<Rightarrow> window list" where
  "windows_of [] = []"
| "windows_of (Received d addr # evs) =
     (case decode_transcript (tl d) of
        Some (Inr w) \<Rightarrow> (if is_preamble d then w # windows_of evs else windows_of evs)
      | _ \<Rightarrow> windows_of evs)"
| "windows_of (_ # evs) = windows_of evs"

definition feed :: "('u, 's) PreambleSocket \<Rightarrow> 's \<Rightarrow> window list \<Rightarrow> 's" where
  "feed sock s ws = (case sink sock of None \<Rightarrow> s | Some k \<Rightarrow> foldl k s ws)"

definition slot :: "bytes list \<Rightarrow> 'a RecvMeta list \<Rightarrow> nat \<Rightarrow> bytes \<times> 'a" where
  "slot bufs meta i = (take (meta_len (meta ! i)) (bufs ! i), meta_addr (meta ! i))"

lemma decode_transcript_cases:
  obtains e where "decode_transcript bs = Ret (Inl e)" | w where "decode_transcript bs = Ret (Inr w)"
proof -
  have "decode_transcript bs \<noteq> None"
    by (cases "length bs < 8") (auto simp: decode_transcript_short decode_transcript_eq)
  then show ?thesis using that by (metis not_None_eq sum.exhaust)
qed

lemma parse_preamble_cases:
  "parse_preamble d = (if is_preamble d then map_option Some (decode_transcript (tl d)) else Ret None)"
  by (cases d) (auto simp: parse_preamble_def is_preamble_def split: bind_splits)

lemma feed_Nil [simp]: "feed sock s [] = s"
  by (simp add: feed_def split: option.split)

lemma feed_append: "feed sock s (ws @ ws') = feed sock (feed sock s ws) ws'"
  by (simp add: feed_def split: option.split)

lemma windows_of_Cons: "windows_of (ev # evs) = windows_of [ev] @ windows_of evs"
  by (cases ev) (auto split: option.split sum.split)

lemma quic_of_Cons: "quic_of (ev # evs) = quic_of [ev] @ quic_of evs"
  by (cases ev) auto

lemma handle_preamble_datagram_feed:
  "handle_preamble_datagram sock payload s =
     Ret (case decode_transcript payload of Some (Inr w) \<Rightarrow> feed sock s [w] | _ \<Rightarrow> s)"
  by (rule decode_transcript_cases [of payload])
    (auto simp: handle_preamble_datagram_def feed_def split: option.split)

definition poll_post ::
    "('u, 's) PreambleSocket \<Rightarrow> nat \<Rightarrow> bytes list \<Rightarrow> 'a RecvMeta list \<Rightarrow> 's
      \<Rightarrow> ('ioe, 'a) recv_event list \<Rightarrow> ('ioe, 'a) recv_event list
      \<Rightarrow> 'ioe poll \<Rightarrow> bytes list \<Rightarrow> 'a RecvMeta list \<Rightarrow> 's \<Rightarrow> bool" where
  "poll_post sock filled bufs meta s evs1 evs2 r bufs' meta' s' \<longleftrightarrow>
     (let q = quic_of evs1; n = filled + length q in
        n \<le> length bufs \<and> s' = feed sock s (windows_of evs1)
        \<and> length bufs' = length bufs \<and> length meta' = length meta
        \<and> (\<forall>i < filled. slot bufs' meta' i = slot bufs meta i)
        \<and> (\<forall>j < length q. slot bufs' meta' (filled + j) = q ! j)
        \<and> (0 < n \<longrightarrow> r = Ready (Inr n))
        \<and> (r = Pending \<longrightarrow> evs2 = [])
        \<and> (\<forall>e. r = Ready (Inl e) \<longrightarrow> evs2 \<noteq> [] \<and> hd evs2 \<in> {ReadyErr e, RecvErr e}))"

text \<open>A preamble (or nothing) was consumed; a QUIC datagram was put into the next slot.\<close>

lemma poll_post_skip:
  assumes "poll_post sock filled bufs1 meta (feed sock s (windows_of [ev])) evs1 evs2 r bufs' meta' s'"
    and "quic_of [ev] = []" and "length bufs1 = length bufs" and "\<forall>i < filled. bufs1 ! i = bufs ! i"
  shows "poll_post sock filled bufs meta s (ev # evs1) evs2 r bufs' meta' s'"
  using assms by (simp add: poll_post_def Let_def quic_of_Cons [of ev evs1] windows_of_Cons [of ev evs1]
      feed_append slot_def)

lemma poll_post_take:
  assumes "poll_post sock (filled + 1) bufs1 meta1 s evs1 evs2 r bufs' meta' s'"
    and "quic_of [ev] = [slot bufs1 meta1 filled]" and "windows_of [ev] = []"
    and "length bufs1 = length bufs" and "length meta1 = length meta"
    and "\<forall>i < filled. slot bufs1 meta1 i = slot bufs meta i"
  shows "poll_post sock filled bufs meta s (ev # evs1) evs2 r bufs' meta' s'"
  using assms by (auto simp: poll_post_def Let_def quic_of_Cons [of ev evs1] windows_of_Cons [of ev evs1]
      nth_Cons split: nat.splits)

lemma poll_recv_spec:
  assumes "filled \<le> length bufs" and "length bufs \<le> length meta"
  shows "\<exists>evs1 evs2 r bufs' meta' s'. evs = evs1 @ evs2
    \<and> poll_recv sock evs filled bufs meta s = Ret (r, bufs', meta', s')
    \<and> poll_post sock filled bufs meta s evs1 evs2 r bufs' meta' s'"
  using assms
proof (induction evs arbitrary: filled bufs meta s)
  case Nil
  then show ?case by (auto simp: poll_post_def Let_def poll_recv.simps)
next
  case (Cons ev evs)
  have stop: ?case if "poll_recv sock (ev # evs) filled bufs meta s = Ret (r, bufs, meta, s)"
      and "poll_post sock filled bufs meta s [] (ev # evs) r bufs meta s" for r
    using that by (metis append_Nil)
  have go: ?case if "poll_recv sock (ev # evs) filled bufs meta s = poll_recv sock evs filled' bufs1 meta1 s1"
      and "filled' \<le> length bufs1" and "length bufs1 \<le> length meta1"
      and "\<And>evs1 evs2 r bufs' meta' s'. poll_post sock filled' bufs1 meta1 s1 evs1 evs2 r bufs' meta' s'
        \<Longrightarrow> poll_post sock filled bufs meta s (ev # evs1) evs2 r bufs' meta' s'"
      for filled' bufs1 meta1 s1
    using Cons.IH [OF that(2,3), of s1] that(1,4) by (metis append_Cons)
  show ?case
  proof (cases "length bufs \<le> filled")
    case True
    with Cons.prems show ?thesis by (intro stop) (auto simp: poll_post_def poll_recv.simps)
  next
    case room: False
    show ?thesis
    proof (cases ev)
      case (Received d addr)
      let ?bufs = "bufs[filled := fill_buf (bufs ! filled) d]"
      have d: "take (length d) (?bufs ! filled) = d" using room by (simp add: fill_buf_def)
      show ?thesis
      proof (cases "is_preamble d")
        case True
        have pay: "sub_slice (?bufs ! filled) 1 (length d) = Ret (tl d)"
          using True room by (cases d) (auto simp: is_preamble_def sub_slice_def fill_buf_def)
        obtain x where "decode_transcript (tl d) = Ret x"
          by (rule decode_transcript_cases [of "tl d"])
        then have eq: "poll_recv sock (ev # evs) filled bufs meta s =
            poll_recv sock evs filled ?bufs meta (feed sock s (windows_of [ev]))"
          using Received room d True pay
          by (simp add: handle_preamble_datagram_feed poll_recv.simps(2) parse_preamble_cases
              split: sum.split)
        show ?thesis
          by (rule go [OF eq]; (erule poll_post_skip)?) (use Cons.prems Received True in auto)
      next
        case False
        let ?meta = "meta[filled := \<lparr>meta_addr = addr, meta_len = length d\<rparr>]"
        have eq: "poll_recv sock (ev # evs) filled bufs meta s = poll_recv sock evs (filled + 1) ?bufs ?meta s"
          using Received room False d Cons.prems by (simp add: parse_preamble_cases poll_recv.simps(2))
        have new: "slot ?bufs ?meta filled = (d, addr)"
          using room d Cons.prems by (simp add: slot_def)
        show ?thesis
          by (rule go [OF eq]; (erule poll_post_take)?)
            (use Cons.prems Received False room new in \<open>auto simp: slot_def split: option.split sum.split\<close>)
      qed
    next
      case WouldBlock
      show ?thesis
      proof (cases "filled > 0")
        case False
        then have eq: "poll_recv sock (ev # evs) filled bufs meta s = poll_recv sock evs filled bufs meta (feed sock s (windows_of [ev]))"
          using WouldBlock room by (simp add: poll_recv.simps(2))
        show ?thesis
          by (rule go [OF eq]; (erule poll_post_skip)?) (use Cons.prems WouldBlock in auto)
      qed (use WouldBlock room in \<open>intro stop, auto simp: poll_post_def poll_recv.simps\<close>)
    next
      case (ReadyErr e)
      with room Cons.prems show ?thesis
        by (intro stop) (auto simp: poll_post_def poll_recv.simps split: if_splits)
    next
      case (RecvErr e)
      with room Cons.prems show ?thesis
        by (intro stop) (auto simp: poll_post_def poll_recv.simps split: if_splits)
    qed
  qed
qed

subsection \<open>Properties\<close>

text \<open>
  C39: Packing a window. The buckets concatenate to the longest prefix of the window whose entries
  each fit an otherwise empty datagram and together fit the total budget; every bucket is
  non-empty and fits the datagram budget with the transcript header.
\<close>

theorem bucket_window_longest_prefix:
  "prefix (concat (bucket_window w budget per)) w
   \<and> (\<forall>n \<le> length w. n \<le> length (concat (bucket_window w budget per)) \<longleftrightarrow>
        (\<forall>e \<in> set (take n w). TRANSCRIPT_HEADER_LEN + entry_wire_len e \<le> per)
        \<and> sum_list (map entry_wire_len (take n w)) \<le> budget)
   \<and> (\<forall>b \<in> set (bucket_window w budget per).
        b \<noteq> [] \<and> TRANSCRIPT_HEADER_LEN + sum_list (map entry_wire_len b) \<le> per)"
proof -
  have "n \<le> length (concat (bucket_window w budget per)) \<longleftrightarrow>
      (\<forall>e \<in> set (take n w). 8 + entry_len e \<le> per) \<and> window_wire (take n w) \<le> budget"
    if "n \<le> length w" for n
    using length_taken [OF that, of budget per 0] by (cases "n = 0") (simp_all add: bucket_window_taken)
  then show ?thesis
    using packer.pack_prefix [of w budget per] packer.pack_nonempty [of _ w budget per]
      packer.pack_fits [of _ w budget per]
    by (simp add: entry_wire_len_eq TRANSCRIPT_HEADER_LEN_def window_wire_def)
qed

lemma bucket_window_all:
  assumes "\<forall>e \<in> set w. length (snd e) \<le> 1179" and "sum_list (map entry_wire_len w) \<le> budget"
  shows "concat (bucket_window w budget (MAX_DATAGRAM_PAYLOAD - 1)) = w"
proof -
  have "\<forall>e \<in> set w. 8 + entry_len e \<le> MAX_DATAGRAM_PAYLOAD - 1"
    using assms(1) by (auto simp: entry_len_def MAX_DATAGRAM_PAYLOAD_def)
  then have "length w \<le> length (taken budget (MAX_DATAGRAM_PAYLOAD - 1) 0 w)"
    using assms(2) length_taken [of "length w" w budget "MAX_DATAGRAM_PAYLOAD - 1" 0]
    by (simp add: entry_wire_len_eq window_wire_def)
  with prefix_takeD [OF taken_prefix [of budget "MAX_DATAGRAM_PAYLOAD - 1" 0 w]]
  show ?thesis by (simp add: bucket_window_taken)
qed

text \<open>
  The packing is optimal. No other way of cutting the same entries, in order, into pieces that
  fit a datagram uses fewer datagrams.
\<close>

lemma bucket_window_fewest:
  assumes "concat cs = concat (bucket_window w budget per)"
    and "\<forall>c \<in> set cs. TRANSCRIPT_HEADER_LEN + sum_list (map entry_wire_len c) \<le> per"
  shows "length (bucket_window w budget per) \<le> length cs"
  using tight_minimal [OF bucket_window_taken(2), of cs per "[]"] assms
  by (simp add: entry_wire_len_eq TRANSCRIPT_HEADER_LEN_def window_wire_def)

text \<open>
  Preamble datagrams arrive as sent. Every datagram of a preamble is at most 1200 bytes long,
  and a receiver classifies each as a preamble and decodes it to exactly its bucket, in order.
\<close>

lemma preamble_datagrams_roundtrip:
  "list_all (\<lambda>d. length d \<le> MAX_DATAGRAM_PAYLOAD) (preamble_datagrams w budget)
   \<and> map parse_preamble (preamble_datagrams w budget) =
       map (\<lambda>b. Ret (Some (Inr b))) (bucket_window w budget (MAX_DATAGRAM_PAYLOAD - 1))"
  using parse_preamble_datagrams preamble_bucket_ok(2) [of _ w budget]
  by (auto simp: list_all_iff preamble_datagrams_def MAX_DATAGRAM_PAYLOAD_def)

text \<open>Sending in terms of what the socket accepts.\<close>

lemma send_preamble_sends:
  "\<exists>ds r u'. sends send_to peer (io sock) (preamble_datagrams w budget) = (ds, r, u')
     \<and> prefix ds (preamble_datagrams w budget) \<and> (r = None \<longrightarrow> ds = preamble_datagrams w budget)
     \<and> send_preamble send_to sock peer w budget =
         (case r of
            None \<Rightarrow> (Inr (word_of_nat (length (concat ds))),
                     sock\<lparr>io := u', preamble_bytes_sent :=
                       preamble_bytes_sent sock + word_of_nat (length (concat ds))\<rparr>)
          | Some e \<Rightarrow> (Inl e, sock\<lparr>io := u'\<rparr>))"
proof -
  let ?f = "\<lambda>b. PREAMBLE_MARKER # encode_transcript b usize_MAX"
  obtain ds r u' where s: "sends send_to peer (io sock) (preamble_datagrams w budget) = (ds, r, u')"
    by (cases "sends send_to peer (io sock) (preamble_datagrams w budget)")
  have "\<forall>b \<in> set (bucket_window w budget (MAX_DATAGRAM_PAYLOAD - 1)). bucket_datagram b = Some (?f b)"
    using preamble_bucket_ok(1) by blast
  from send_buckets_sends [OF this, of send_to peer "io sock" 0] s
  have "send_buckets send_to peer (io sock) (bucket_window w budget (MAX_DATAGRAM_PAYLOAD - 1)) 0 =
      (case r of None \<Rightarrow> (Inr (word_of_nat (length (concat ds))), u') | Some e \<Rightarrow> (Inl e, u'))"
    by (simp add: preamble_datagrams_def split: option.split)
  with s sends_prefix [OF s] show ?thesis
    by (simp add: send_preamble_def split: option.split)
qed

text \<open>
  C40: Sending. \<open>send_preamble\<close> sends the datagrams of the packed window in order until the socket
  reports an error. Without an error it returns the number of bytes sent and adds it to the
  counter; with one it returns the error and leaves the counter as it was, whatever was sent
  before.
\<close>

theorem send_preamble_transmits:
  "\<exists>ds r u'. sends send_to peer (io sock) (preamble_datagrams w budget) = (ds, r, u')
     \<and> prefix ds (preamble_datagrams w budget) \<and> (r = None \<longrightarrow> ds = preamble_datagrams w budget)
     \<and> send_preamble send_to sock peer w budget =
         (case r of
            None \<Rightarrow> (Inr (word_of_nat (length (concat ds))),
                     sock\<lparr>io := u', preamble_bytes_sent :=
                       preamble_bytes_sent sock + word_of_nat (length (concat ds))\<rparr>)
          | Some e \<Rightarrow> (Inl e, sock\<lparr>io := u'\<rparr>))"
  by (rule send_preamble_sends)

text \<open>
  Telling a preamble from a QUIC packet. Classifying never panics, and a datagram goes to QUIC
  exactly if it is empty or has one of the two top bits of its first byte set; in particular every
  QUIC packet, whose fixed bit (bit 6) or long-header bit (bit 7) is set, does.
\<close>

lemma parse_preamble_classifies:
  "parse_preamble d \<noteq> Panic \<and> (parse_preamble d = Ret None \<longleftrightarrow> d = [] \<or> bit (hd d) 6 \<or> bit (hd d) 7)"
proof -
  obtain x where "decode_transcript (tl d) = Ret x"
    by (rule decode_transcript_cases [of "tl d"])
  then show ?thesis
    by (auto simp: parse_preamble_cases is_preamble_def marker_bits)
qed

text \<open>
  C29: The receive path. With as many metadata slots as buffers, \<open>poll_recv\<close> never panics. It
  consumes a prefix of what the socket delivers: the QUIC datagrams of that prefix are handed to
  QUIC in order, one per buffer and with their addresses, and the sink gets the windows of the
  well-formed preambles in order. It reports the number of QUIC datagrams if there is one, an
  error only for an error of the socket, and \<open>Pending\<close> only when nothing is left to read.
\<close>

theorem poll_recv_splits_traffic:
  assumes "length bufs \<le> length meta"
  shows "\<exists>evs1 evs2 r bufs' meta' s'. evs = evs1 @ evs2
    \<and> poll_recv sock evs 0 bufs meta s = Ret (r, bufs', meta', s')
    \<and> map (slot bufs' meta') [0..<length (quic_of evs1)] = quic_of evs1
    \<and> length (quic_of evs1) \<le> length bufs \<and> s' = feed sock s (windows_of evs1)
    \<and> (quic_of evs1 \<noteq> [] \<longrightarrow> r = Ready (Inr (length (quic_of evs1))))
    \<and> (r = Pending \<longrightarrow> evs2 = [])
    \<and> (\<forall>e. r = Ready (Inl e) \<longrightarrow> evs2 \<noteq> [] \<and> hd evs2 \<in> {ReadyErr e, RecvErr e})"
proof -
  from poll_recv_spec [of 0 bufs meta evs sock s] assms obtain evs1 evs2 r bufs' meta' s'
    where evs: "evs = evs1 @ evs2" "poll_recv sock evs 0 bufs meta s = Ret (r, bufs', meta', s')"
    and post: "poll_post sock 0 bufs meta s evs1 evs2 r bufs' meta' s'" by auto
  from post have "map (slot bufs' meta') [0..<length (quic_of evs1)] = quic_of evs1"
    by (intro nth_equalityI) (auto simp: poll_post_def Let_def)
  with evs post show ?thesis
    by (intro exI [of _ evs1] exI [of _ evs2] exI [of _ r] exI [of _ bufs'] exI [of _ meta'] exI [of _ s'])
      (simp add: poll_post_def Let_def)
qed

text \<open>
  An oversized commit blocks the channel. A commit that does not fit one datagram, and every
  commit after it in the window, is never sent, whatever the total budget.
\<close>

lemma oversized_commit_blocks:
  assumes "length (snd e) > 1179"
  shows "preamble_datagrams (w @ e # w') budget = preamble_datagrams w budget"
proof -
  have "8 + entry_len e > MAX_DATAGRAM_PAYLOAD - 1"
    using assms by (simp add: entry_len_def MAX_DATAGRAM_PAYLOAD_def)
  then show ?thesis
    by (simp add: preamble_datagrams_def bucket_window_close bucket_loop_oversize)
qed

subsection \<open>Witnesses\<close>

lemmas bucket_simps =
  bucket_window_def sample_window_def entry_wire_len_def TRANSCRIPT_HEADER_LEN_def

lemma sample_buckets:
  "bucket_window sample_window 100 35 = [[(1, [7, 8]), (2, [9])], [(3, [10, 11, 12])]]"
  by (simp add: bucket_simps)

lemma bucket_window_longest_prefix_witness:
  "concat (bucket_window sample_window 30 35) = take 2 sample_window"
proof -
  have n: "length sample_window = 3" by (simp add: sample_window_def)
  note packed = bucket_window_longest_prefix [of sample_window 30 35]
  have "2 \<le> length (concat (bucket_window sample_window 30 35))"
    using packed [THEN conjunct2, THEN conjunct1, THEN spec [of _ 2]] n by (simp add: bucket_simps)
  moreover have "\<not> 3 \<le> length (concat (bucket_window sample_window 30 35))"
    using packed [THEN conjunct2, THEN conjunct1, THEN spec [of _ 3]] n by (simp add: bucket_simps)
  ultimately have "length (concat (bucket_window sample_window 30 35)) = 2" by simp
  with prefix_takeD [OF packed [THEN conjunct1]] show ?thesis by simp
qed

lemma bucket_window_fewest_witness:
  "length (bucket_window sample_window 100 35) \<le> length (map (\<lambda>e. [e]) sample_window)"
proof (rule bucket_window_fewest)
  show "concat (map (\<lambda>e. [e]) sample_window) = concat (bucket_window sample_window 100 35)"
    by (simp add: sample_buckets) (simp add: sample_window_def)
  show "\<forall>c \<in> set (map (\<lambda>e. [e]) sample_window).
      TRANSCRIPT_HEADER_LEN + sum_list (map entry_wire_len c) \<le> 35"
    by (simp add: bucket_simps)
qed

text \<open>A socket that accepts every datagram and records it.\<close>

definition recording_send :: "bytes list \<Rightarrow> bytes \<Rightarrow> unit \<Rightarrow> (string + nat) \<times> bytes list" where
  "recording_send u d peer = (Inr (length d), u @ [d])"

lemma send_preamble_transmits_witness:
  "\<exists>sent. send_preamble recording_send (preamble_socket_new [] (None :: (unit \<Rightarrow> window \<Rightarrow> unit) option)) ()
      sample_window 100
    = (Inr sent, \<lparr>io = preamble_datagrams sample_window 100, sink = None, preamble_bytes_sent = sent\<rparr>)"
proof -
  have accept: "sends recording_send () u ds = (ds, None, u @ ds)" for u ds
    by (induction ds arbitrary: u) (simp_all add: recording_send_def)
  from send_preamble_transmits [of recording_send "()"
      "preamble_socket_new [] (None :: (unit \<Rightarrow> window \<Rightarrow> unit) option)" sample_window 100]
  show ?thesis by (auto simp: accept) (simp add: preamble_socket_new_def)
qed

definition sample_events :: "(string, string) recv_event list" where
  "sample_events =
     [Received (PREAMBLE_MARKER # encode_transcript sample_window 100) ''peer'', Received [0x40, 1] ''peer'']"

definition sample_meta :: "string RecvMeta list" where
  "sample_meta = replicate 2 \<lparr>meta_addr = ''none'', meta_len = 0\<rparr>"

definition sample_receiver :: "(unit, window list) PreambleSocket" where
  "sample_receiver = preamble_socket_new () (Some (\<lambda>s w. s @ [w]))"

lemma poll_recv_splits_traffic_witness:
  "\<exists>r bufs' meta' s'. poll_recv sample_receiver sample_events 0 (replicate 2 []) sample_meta []
     = Ret (r, bufs', meta', s')"
proof -
  have "length (replicate 2 ([] :: bytes)) \<le> length sample_meta" by (simp add: sample_meta_def)
  from poll_recv_splits_traffic [OF this, of sample_events sample_receiver "[]"] show ?thesis by blast
qed

lemma oversized_commit_blocks_witness:
  "preamble_datagrams (sample_window @ (4, replicate 1180 0) # [(5, [1])]) 10000
     = preamble_datagrams sample_window 10000"
proof -
  have "length (snd (4 :: u64, replicate 1180 (0 :: u8))) > 1179" by simp
  from oversized_commit_blocks [OF this] show ?thesis .
qed

end
