(* ===== verification/Hkdf.thy ===== *)
theory Hkdf
  imports Prelude
begin

text \<open>
  HKDF-Expand-Label (\<open>quic-mls/src/hkdf.rs\<close>). The crate \<open>hkdf\<close> over SHA-256 is a parameter
  (\<open>hkdf_lib\<close>); what the code relies on is its documented behaviour (\<open>hkdf_documented\<close>): a
  pseudo-random key shorter than the hash is refused, and expansion succeeds up to 255 blocks of
  32 bytes and gives the number of bytes asked for. The label encoding is modelled byte by byte.
\<close>

definition INITIAL_SALT :: bytes where
  "INITIAL_SALT =
     [0x38, 0x76, 0x2c, 0xf7, 0xf5, 0x59, 0x34, 0xb3, 0x4d, 0x17, 0x9a, 0xe6, 0xa4, 0xc8,
      0x0c, 0xad, 0xcc, 0xbb, 0x7f, 0x0a]"

definition hkdf_label_info :: "string \<Rightarrow> bytes \<Rightarrow> nat \<Rightarrow> bytes" where
  "hkdf_label_info label context len =
     (let full_label = ''tls13 '' @ label
      in u16_to_be_bytes (word_of_nat len)
           @ [word_of_nat (length full_label)] @ ascii full_label
           @ [word_of_nat (length context)] @ context)"

record 'h hkdf_lib =
  hk_new :: "bytes option \<Rightarrow> bytes \<Rightarrow> 'h"
  hk_from_prk :: "bytes \<Rightarrow> 'h option"
  hk_expand :: "'h \<Rightarrow> bytes \<Rightarrow> nat \<Rightarrow> bytes option"

text \<open>\<open>hkdf.expand(&info, &mut okm)\<close> fills a zeroed buffer of \<open>len\<close> bytes.\<close>

definition hkdf_expand_label ::
    "'h hkdf_lib \<Rightarrow> bytes \<Rightarrow> string \<Rightarrow> bytes \<Rightarrow> nat \<Rightarrow> bytes panics" where
  "hkdf_expand_label lib secret label context len = do {
     let info = hkdf_label_info label context len;
     hkdf \<leftarrow> hk_from_prk lib secret;
     okm \<leftarrow> hk_expand lib hkdf info len;
     Ret okm
   }"

definition hkdf_documented :: "'h hkdf_lib \<Rightarrow> bool" where
  "hkdf_documented lib \<longleftrightarrow>
     (\<forall>prk. hk_from_prk lib prk = None \<longleftrightarrow> length prk < 32) \<and>
     (\<forall>h info n. if n \<le> 255 * 32 then \<exists>okm. hk_expand lib h info n = Some okm \<and> length okm = n
                 else hk_expand lib h info n = None)"

lemma hkdf_documentedD:
  assumes "hkdf_documented lib"
  shows "hk_from_prk lib prk = None \<longleftrightarrow> length prk < 32"
    and "n \<le> 255 * 32 \<Longrightarrow> \<exists>okm. hk_expand lib h info n = Some okm \<and> length okm = n"
    and "\<not> n \<le> 255 * 32 \<Longrightarrow> hk_expand lib h info n = None"
  using assms unfolding hkdf_documented_def by metis+

lemma hkdf_expand_label_Ret:
  assumes "hkdf_documented lib" and "32 \<le> length secret" and "len \<le> 8160"
  shows "\<exists>okm. hkdf_expand_label lib secret label context len = Ret okm \<and> length okm = len"
proof -
  obtain h where "hk_from_prk lib secret = Some h"
    using hkdf_documentedD(1) [OF assms(1), of secret] assms(2) by fastforce
  then show ?thesis
    using hkdf_documentedD(2) [OF assms(1), of len h] assms(3)
    by (auto simp: hkdf_expand_label_def)
qed

subsection \<open>The label encoding\<close>

lemma of_char_word: "(of_char c :: u8) = word_of_nat (of_char c)"
  by (simp only: of_nat_of_char)

lemma of_char_inj: "(of_char c :: u8) = of_char d \<longleftrightarrow> c = d"
proof
  assume "(of_char c :: u8) = of_char d"
  then have "(of_char c :: nat) mod 256 = of_char d mod 256"
    by (metis of_char_word unat_byte_of_nat)
  then show "c = d" by simp
qed simp

lemma ascii_inj: "ascii s = ascii t \<longleftrightarrow> s = t"
  unfolding ascii_def by (rule inj_map_eq_map) (simp add: inj_def of_char_inj)

text \<open>
  Key separation by label. For labels and contexts short enough for their length bytes and
  lengths below \<open>2 ^ 16\<close>, two label encodings are equal only if label, context and length are all
  equal, so the keys, IVs and header keys of the code are expanded from distinct inputs.
\<close>

lemma hkdf_label_info_injective:
  assumes "length l1 \<le> 249" and "length l2 \<le> 249" and "length c1 \<le> 255" and "length c2 \<le> 255"
    and "n1 < 65536" and "n2 < 65536"
    and "hkdf_label_info l1 c1 n1 = hkdf_label_info l2 c2 n2"
  shows "l1 = l2 \<and> c1 = c2 \<and> n1 = n2"
proof -
  from assms(7) have n: "u16_to_be_bytes (word_of_nat n1) = u16_to_be_bytes (word_of_nat n2)"
    and rest: "word_of_nat (6 + length l1) # ascii (''tls13 '' @ l1) @ word_of_nat (length c1) # c1
      = (word_of_nat (6 + length l2) :: u8) # ascii (''tls13 '' @ l2) @ word_of_nat (length c2) # c2"
    unfolding hkdf_label_info_def Let_def by (simp_all add: append_eq_append_conv)
  from n assms(5,6) have "n1 = n2" by (simp add: u16_to_be_bytes_inj u16_len_inj)
  moreover from rest assms(1,2) have "length l1 = length l2"
    by (simp add: byte_len_inj del: of_nat_add)
  with rest have "ascii (''tls13 '' @ l1) = ascii (''tls13 '' @ l2)" and "c1 = c2"
    by (simp_all add: append_eq_append_conv)
  ultimately show ?thesis by (simp add: ascii_inj)
qed

text \<open>
  Expansion panics exactly on misuse. Under the documented behaviour of the HKDF crate,
  \<open>hkdf_expand_label\<close> returns the number of bytes asked for if the secret has at least 32 bytes and
  at most 8160 bytes are asked for, and panics otherwise.
\<close>

lemma hkdf_expand_label_total:
  assumes "hkdf_documented lib"
  shows "if 32 \<le> length secret \<and> len \<le> 8160
    then \<exists>okm. hkdf_expand_label lib secret label context len = Ret okm \<and> length okm = len
    else hkdf_expand_label lib secret label context len = Panic"
proof (cases "32 \<le> length secret \<and> len \<le> 8160")
  case True
  then show ?thesis using hkdf_expand_label_Ret [OF assms] by auto
next
  case False
  show ?thesis
  proof (cases "hk_from_prk lib secret")
    case (Some h)
    with False have "\<not> len \<le> 8160"
      using hkdf_documentedD(1) [OF assms, of secret] by auto
    then have "hk_expand lib h info len = None" for info
      using hkdf_documentedD(3) [OF assms, of len] by simp
    with False Some show ?thesis by (auto simp: hkdf_expand_label_def)
  qed (use False in \<open>auto simp: hkdf_expand_label_def\<close>)
qed

subsection \<open>Witnesses\<close>

text \<open>A library with the documented behaviour: the output repeats the first key byte.\<close>

definition sample_hkdf :: "u8 hkdf_lib" where
  "sample_hkdf =
     \<lparr>hk_new = (\<lambda>salt ikm. hd (ikm @ [0])),
      hk_from_prk = (\<lambda>prk. if length prk < 32 then None else Some (hd prk)),
      hk_expand = (\<lambda>h info n. if n \<le> 255 * 32 then Some (replicate n (h + foldl (+) 0 info)) else None)\<rparr>"

lemma sample_hkdf_documented: "hkdf_documented sample_hkdf"
  by (simp add: hkdf_documented_def sample_hkdf_def)

lemma hkdf_label_info_injective_witness:
  "hkdf_label_info ''quic key'' [] 16 = hkdf_label_info ''quic key'' [] 16 \<and> ''quic key'' = ''quic key''"
  using hkdf_label_info_injective [of "''quic key''" "''quic key''" "[]" "[]" 16 16] by simp

lemma hkdf_expand_label_total_witness:
  "(\<exists>okm. hkdf_expand_label sample_hkdf (replicate 32 1) ''quic iv'' [] 12 = Ret okm \<and> length okm = 12)
   \<and> hkdf_expand_label sample_hkdf (replicate 31 1) ''quic iv'' [] 12 = Panic"
  using hkdf_expand_label_total [OF sample_hkdf_documented, of "replicate 32 1" 12 "''quic iv''" "[]"]
    hkdf_expand_label_total [OF sample_hkdf_documented, of "replicate 31 1" 12 "''quic iv''" "[]"]
  by simp

end
