(* ===== verification/Packet_Key.thy ===== *)
theory Packet_Key
  imports Prelude
begin

text \<open>
  AES-128-GCM packet protection (\<open>quic-mls/src/packet_key.rs\<close>). The crate \<open>aes_gcm\<close> is a
  parameter (\<open>aead_lib\<close>): encryption in place with a detached tag, and its inverse, which also says
  what it leaves in the buffer when the tag is wrong. \<open>aead_documented\<close> is what the code relies
  on: the ciphertext has the length of the plaintext, the tag has 16 bytes, and a pair of
  ciphertext and tag opens exactly if it is the encryption of what it opens to.
\<close>

type_synonym aead_key = bytes
type_synonym aead_nonce = bytes

record aead_lib =
  gcm_encrypt :: "aead_key \<Rightarrow> aead_nonce \<Rightarrow> bytes \<Rightarrow> bytes \<Rightarrow> (bytes \<times> bytes) option"
  gcm_decrypt :: "aead_key \<Rightarrow> aead_nonce \<Rightarrow> bytes \<Rightarrow> bytes \<Rightarrow> bytes \<Rightarrow> bytes + bytes"

definition aead_max :: nat where
  "aead_max = 2 ^ 36"

definition aead_documented :: "aead_lib \<Rightarrow> bool" where
  "aead_documented lib \<longleftrightarrow>
     (\<forall>k n aad pt. length aad \<le> aead_max \<longrightarrow> length pt \<le> aead_max \<longrightarrow>
        (\<exists>ct tag. gcm_encrypt lib k n aad pt = Some (ct, tag) \<and> length ct = length pt \<and> length tag = 16
           \<and> gcm_decrypt lib k n aad ct tag = Inr pt)) \<and>
     (\<forall>k n aad ct tag pt. gcm_decrypt lib k n aad ct tag = Inr pt \<longrightarrow>
        gcm_encrypt lib k n aad pt = Some (ct, tag) \<and> length pt = length ct) \<and>
     (\<forall>k n aad ct tag left. gcm_decrypt lib k n aad ct tag = Inl left \<longrightarrow> length left = length ct)"

record Aes128GcmPacketKey =
  pk_key :: bytes
  pk_iv :: bytes

text \<open>The Rust arrays have fixed lengths: \<open>[u8; 16]\<close> and \<open>[u8; 12]\<close>.\<close>

definition packet_key_wf :: "Aes128GcmPacketKey \<Rightarrow> bool" where
  "packet_key_wf k \<longleftrightarrow> length (pk_key k) = 16 \<and> length (pk_iv k) = 12"

definition nonce_for :: "bytes \<Rightarrow> u64 \<Rightarrow> bytes" where
  "nonce_for iv packet =
     (let pn_bytes = u64_to_be_bytes packet
      in fold (\<lambda>i nonce. nonce[4 + i := nonce ! (4 + i) XOR pn_bytes ! i]) [0..<8] iv)"

definition packet_encrypt ::
    "aead_lib \<Rightarrow> Aes128GcmPacketKey \<Rightarrow> u64 \<Rightarrow> bytes \<Rightarrow> nat \<Rightarrow> bytes panics" where
  "packet_encrypt lib self packet buf header_len = do {
     let nonce_bytes = nonce_for (pk_iv self) packet;
     (header, rest) \<leftarrow> split_at buf header_len;
     pt_len \<leftarrow> usize_sub (length rest) 16;
     (plaintext, tag_dst) \<leftarrow> split_at rest pt_len;
     (ciphertext, tag) \<leftarrow> gcm_encrypt lib (pk_key self) nonce_bytes header plaintext;
     tag_dst \<leftarrow> copy_from_slice tag_dst tag;
     Ret (header @ ciphertext @ tag_dst)
   }"

datatype CryptoError = CryptoError

text \<open>Returns the payload as the call leaves it, and the \<open>Result\<close>.\<close>

definition packet_decrypt ::
    "aead_lib \<Rightarrow> Aes128GcmPacketKey \<Rightarrow> u64 \<Rightarrow> bytes \<Rightarrow> bytes \<Rightarrow> (bytes \<times> (CryptoError + unit)) panics" where
  "packet_decrypt lib self packet header payload = do {
     let nonce_bytes = nonce_for (pk_iv self) packet;
     tag_start \<leftarrow> usize_sub (length payload) 16;
     (ciphertext, tag) \<leftarrow> split_at payload tag_start;
     case gcm_decrypt lib (pk_key self) nonce_bytes header ciphertext tag of
       Inl left \<Rightarrow> Ret (left @ tag, Inl CryptoError)
     | Inr plaintext \<Rightarrow> Ret (take tag_start (plaintext @ tag), Inr ())
   }"

definition tag_len :: "Aes128GcmPacketKey \<Rightarrow> nat" where
  "tag_len self = 16"

definition confidentiality_limit :: "Aes128GcmPacketKey \<Rightarrow> u64" where
  "confidentiality_limit self = - 1"

definition integrity_limit :: "Aes128GcmPacketKey \<Rightarrow> u64" where
  "integrity_limit self = - 1"

subsection \<open>The nonce\<close>

lemma fold_xor_bytes:
  assumes "length iv = 4 + length ys" and "n \<le> length ys"
  shows "fold (\<lambda>i nonce. nonce[4 + i := nonce ! (4 + i) XOR ys ! i]) [0..<n] iv
    = take 4 iv @ map2 (XOR) (take n (drop 4 iv)) (take n ys) @ drop (4 + n) (iv :: bytes)"
  using assms(2)
proof (induction n)
  case (Suc n)
  have d: "drop (4 + n) iv = iv ! (4 + n) # drop (5 + n) iv"
    using Suc.prems assms(1) by (simp add: Cons_nth_drop_Suc [symmetric])
  have l: "length (take 4 iv @ map2 (XOR) (take n (drop 4 iv)) (take n ys)) = 4 + n"
    using Suc.prems assms(1) by simp
  have t: "take (Suc n) (drop 4 iv) = take n (drop 4 iv) @ [iv ! (4 + n)]"
    "take (Suc n) ys = take n ys @ [ys ! n]"
    using Suc.prems assms(1) by (simp_all add: take_Suc_conv_app_nth)
  have z: "zip (take n (drop 4 iv) @ [iv ! (4 + n)]) (take n ys @ [ys ! n])
    = zip (take n (drop 4 iv)) (take n ys) @ [(iv ! (4 + n), ys ! n)]"
    using Suc.prems assms(1) by simp
  have "(take 4 iv @ map2 (XOR) (take n (drop 4 iv)) (take n ys) @ iv ! (4 + n) # drop (5 + n) iv)
      [4 + n := b] = (take 4 iv @ map2 (XOR) (take n (drop 4 iv)) (take n ys)) @ b # drop (5 + n) iv" for b
    using l by (metis append_assoc list_update_length)
  moreover have "(take 4 iv @ map2 (XOR) (take n (drop 4 iv)) (take n ys) @ iv ! (4 + n) # drop (5 + n) iv)
      ! (4 + n) = iv ! (4 + n)"
    using l by (metis append_assoc nth_append_length)
  ultimately show ?case
    using Suc by (simp only: upt_Suc_append fold_append t z d map_append o_apply fold.simps id_apply list.map split
        Suc_leD le0) simp
qed simp

lemma nonce_for_eq:
  assumes "length iv = 12"
  shows "nonce_for iv packet = take 4 iv @ map2 (XOR) (drop 4 iv) (u64_to_be_bytes packet)"
  using fold_xor_bytes [of iv "u64_to_be_bytes packet" 8] assms
  by (simp add: nonce_for_def Let_def)

lemma map2_xor_inj:
  "length xs = length ys \<Longrightarrow> length xs = length zs \<Longrightarrow>
     map2 (XOR) xs ys = map2 (XOR) xs (zs :: u8 list) \<longleftrightarrow> ys = zs"
proof (induction xs ys arbitrary: zs rule: list_induct2')
  case (4 x xs y ys)
  have "x XOR y = x XOR z \<longleftrightarrow> y = z" for z
    by (metis bit.xor_left_self)
  with 4 show ?case by (cases zs) auto
qed auto

text \<open>
  Nonces. For a 12-byte IV, the nonce of a packet has 12 bytes, keeps the first four bytes of
  the IV, and two packet numbers get the same nonce only if they are the same number; so one key
  never uses a nonce twice as long as packet numbers are not reused under it.
\<close>

lemma nonce_for_injective:
  assumes "length iv = 12"
  shows "length (nonce_for iv p) = 12 \<and> take 4 (nonce_for iv p) = take 4 iv
    \<and> (nonce_for iv p = nonce_for iv q \<longleftrightarrow> p = q)"
  using assms by (simp add: nonce_for_eq map2_xor_inj u64_to_be_bytes_inj)

subsection \<open>Sealing and opening\<close>

text \<open>
  The interface that quinn's \<open>PacketKey\<close> trait expects of a provider, with the laws of an
  authenticated encryption, and what follows for its clients.
\<close>

locale packet_protection =
  fixes seal :: "'k \<Rightarrow> u64 \<Rightarrow> bytes \<Rightarrow> nat \<Rightarrow> bytes panics"
    and unseal :: "'k \<Rightarrow> u64 \<Rightarrow> bytes \<Rightarrow> bytes \<Rightarrow> (bytes \<times> (CryptoError + unit)) panics"
    and ok :: "'k \<Rightarrow> bool"
    and limit :: nat
  assumes seal_unseal: "ok k \<Longrightarrow> length header \<le> limit \<Longrightarrow> length pt \<le> limit \<Longrightarrow> length room = 16 \<Longrightarrow>
      \<exists>payload. seal k pn (header @ pt @ room) (length header) = Ret (header @ payload)
        \<and> length payload = length pt + 16 \<and> unseal k pn header payload = Ret (pt, Inr ())"
    and unseal_sound: "ok k \<Longrightarrow> unseal k pn header payload = Ret (pt, Inr ()) \<Longrightarrow> length room = 16 \<Longrightarrow>
      seal k pn (header @ pt @ room) (length header) = Ret (header @ payload)"
begin

lemma seal_inj:
  assumes "ok k" and "length header \<le> limit" and "length pt1 \<le> limit" and "length pt2 \<le> limit"
    and "length room1 = 16" and "length room2 = 16"
    and "seal k pn (header @ pt1 @ room1) (length header) = seal k pn (header @ pt2 @ room2) (length header)"
  shows "pt1 = pt2"
proof -
  obtain p1 p2 where "seal k pn (header @ pt1 @ room1) (length header) = Ret (header @ p1)"
    "unseal k pn header p1 = Ret (pt1, Inr ())"
    "seal k pn (header @ pt2 @ room2) (length header) = Ret (header @ p2)"
    "unseal k pn header p2 = Ret (pt2, Inr ())"
    using seal_unseal [OF assms(1,2,3,5), of pn] seal_unseal [OF assms(1,2,4,6), of pn] by auto
  with assms(7) show ?thesis by simp
qed

text \<open>A forged payload, one that is no encryption under the key and header, does not open.\<close>

lemma forged_rejected:
  assumes "ok k" and "\<And>pt. seal k pn (header @ pt @ replicate 16 0) (length header) \<noteq> Ret (header @ payload)"
  shows "unseal k pn header payload \<noteq> Ret (pt, Inr ())"
  using unseal_sound [OF assms(1), of pn header payload pt "replicate 16 0"] assms(2) [of pt] by auto

end

lemma aead_documentedD:
  assumes "aead_documented lib"
  shows "length aad \<le> aead_max \<Longrightarrow> length pt \<le> aead_max \<Longrightarrow>
      \<exists>ct tag. gcm_encrypt lib k n aad pt = Some (ct, tag) \<and> length ct = length pt \<and> length tag = 16
        \<and> gcm_decrypt lib k n aad ct tag = Inr pt"
    and "gcm_decrypt lib k n aad ct tag = Inr pt \<Longrightarrow>
      gcm_encrypt lib k n aad pt = Some (ct, tag) \<and> length pt = length ct"
    and "gcm_decrypt lib k n aad ct tag = Inl left \<Longrightarrow> length left = length ct"
  using assms unfolding aead_documented_def by blast+

lemma packet_encrypt_eq:
  assumes "gcm_encrypt lib (pk_key k) (nonce_for (pk_iv k) pn) header pt = Some (ct, tag)"
    and "length tag = 16" and "length room = 16"
  shows "packet_encrypt lib k pn (header @ pt @ room) (length header) = Ret (header @ ct @ tag)"
  using assms by (simp add: packet_encrypt_def usize_sub_def copy_from_slice_def)

lemma packet_decrypt_eq:
  assumes "length tag = 16"
  shows "packet_decrypt lib k pn header (ct @ tag) =
    (case gcm_decrypt lib (pk_key k) (nonce_for (pk_iv k) pn) header ct tag of
       Inl left \<Rightarrow> Ret (left @ tag, Inl CryptoError)
     | Inr pt \<Rightarrow> Ret (take (length ct) (pt @ tag), Inr ()))"
  using assms by (simp add: packet_decrypt_def usize_sub_def)

lemma packet_seal_unseal:
  assumes "aead_documented lib" and "length header \<le> aead_max" and "length pt \<le> aead_max"
    and "length room = 16"
  shows "\<exists>payload. packet_encrypt lib k pn (header @ pt @ room) (length header) = Ret (header @ payload)
    \<and> length payload = length pt + 16 \<and> packet_decrypt lib k pn header payload = Ret (pt, Inr ())"
proof -
  obtain ct tag where "gcm_encrypt lib (pk_key k) (nonce_for (pk_iv k) pn) header pt = Some (ct, tag)"
    and "length ct = length pt" "length tag = 16"
    and "gcm_decrypt lib (pk_key k) (nonce_for (pk_iv k) pn) header ct tag = Inr pt"
    using aead_documentedD(1) [OF assms(1,2,3), of "pk_key k" "nonce_for (pk_iv k) pn"] by blast
  then show ?thesis
    using assms(4) by (intro exI [of _ "ct @ tag"]) (simp add: packet_encrypt_eq packet_decrypt_eq)
qed

lemma packet_decrypt_cases:
  assumes "packet_decrypt lib k pn header payload = Ret r"
  obtains ct tag where "payload = ct @ tag" and "length tag = 16"
proof -
  from assms have "16 \<le> length payload"
    by (auto simp: packet_decrypt_def usize_sub_def split: if_splits)
  then show ?thesis
    using that [of "take (length payload - 16) payload" "drop (length payload - 16) payload"] by simp
qed

lemma packet_unseal_sound:
  assumes "aead_documented lib" and "packet_decrypt lib k pn header payload = Ret (pt, Inr ())"
    and "length room = 16"
  shows "packet_encrypt lib k pn (header @ pt @ room) (length header) = Ret (header @ payload)"
proof -
  from assms(2) obtain ct tag where p: "payload = ct @ tag" and tag: "length tag = 16"
    by (rule packet_decrypt_cases)
  with assms(2) obtain pt' where dec: "gcm_decrypt lib (pk_key k) (nonce_for (pk_iv k) pn) header ct tag = Inr pt'"
    and pt: "pt = take (length ct) (pt' @ tag)"
    by (auto simp: packet_decrypt_eq split: sum.splits)
  with aead_documentedD(2) [OF assms(1) dec] have "pt = pt'" by simp
  with aead_documentedD(2) [OF assms(1) dec] tag assms(3) p show ?thesis
    by (simp add: packet_encrypt_eq)
qed

interpretation gcm: packet_protection "\<lambda>(lib, k). packet_encrypt lib k" "\<lambda>(lib, k). packet_decrypt lib k"
  "\<lambda>(lib, k). aead_documented lib \<and> packet_key_wf k" aead_max
proof
  fix lk :: "aead_lib \<times> Aes128GcmPacketKey" and header pt room :: bytes and pn
  assume "case lk of (lib, k) \<Rightarrow> aead_documented lib \<and> packet_key_wf k"
    and "length header \<le> aead_max" and "length pt \<le> aead_max" and "length room = 16"
  then show "\<exists>payload. (case lk of (lib, k) \<Rightarrow> packet_encrypt lib k) pn (header @ pt @ room) (length header)
      = Ret (header @ payload) \<and> length payload = length pt + 16
      \<and> (case lk of (lib, k) \<Rightarrow> packet_decrypt lib k) pn header payload = Ret (pt, Inr ())"
    using packet_seal_unseal by (cases lk) auto
next
  fix lk :: "aead_lib \<times> Aes128GcmPacketKey" and header payload pt room :: bytes and pn
  assume "case lk of (lib, k) \<Rightarrow> aead_documented lib \<and> packet_key_wf k" and "length room = 16"
    and "(case lk of (lib, k) \<Rightarrow> packet_decrypt lib k) pn header payload = Ret (pt, Inr ())"
  then show "(case lk of (lib, k) \<Rightarrow> packet_encrypt lib k) pn (header @ pt @ room) (length header)
      = Ret (header @ payload)"
    using packet_unseal_sound by (cases lk) auto
qed

text \<open>
  Packet protection. With a documented AEAD and a well-formed key, encrypting a buffer that
  consists of header, plaintext and 16 spare bytes leaves the header in place and a payload of the
  plaintext's length plus the tag, and decrypting that payload under the same packet number and
  header gives the plaintext back; conversely a payload that decrypts is the encryption of what it
  decrypts to, so nothing but sealed payloads opens.
\<close>

lemma packet_protection_roundtrip:
  assumes "aead_documented lib" and "packet_key_wf k"
    and "length header \<le> aead_max" and "length pt \<le> aead_max" and "length room = 16"
  shows "(\<exists>payload. packet_encrypt lib k pn (header @ pt @ room) (length header) = Ret (header @ payload)
      \<and> length payload = length pt + tag_len k \<and> packet_decrypt lib k pn header payload = Ret (pt, Inr ()))
    \<and> (\<forall>payload. packet_decrypt lib k pn header payload = Ret (pt, Inr ()) \<longleftrightarrow>
        packet_encrypt lib k pn (header @ pt @ room) (length header) = Ret (header @ payload))"
proof -
  obtain payload where p: "packet_encrypt lib k pn (header @ pt @ room) (length header) = Ret (header @ payload)"
    "length payload = length pt + tag_len k" "packet_decrypt lib k pn header payload = Ret (pt, Inr ())"
    using gcm.seal_unseal [of "(lib, k)" header pt room pn] assms by (auto simp: tag_len_def)
  have "packet_decrypt lib k pn header q = Ret (pt, Inr ()) \<Longrightarrow>
      packet_encrypt lib k pn (header @ pt @ room) (length header) = Ret (header @ q)" for q
    using gcm.unseal_sound [of "(lib, k)" pn header q pt room] assms by simp
  moreover have "packet_encrypt lib k pn (header @ pt @ room) (length header) = Ret (header @ q) \<Longrightarrow> q = payload"
    for q using p(1) by simp
  ultimately show ?thesis using p by metis
qed

text \<open>
  Panics of packet protection. \<open>encrypt\<close> panics exactly if the buffer has no room for header and
  tag, and \<open>decrypt\<close> exactly if the payload is shorter than the tag; a payload long enough whose tag
  is wrong is an error value, and then the length of the payload is unchanged.
\<close>

lemma packet_protection_panics:
  assumes "aead_documented lib" and "length buf \<le> aead_max"
  shows "(packet_encrypt lib k pn buf header_len = Panic \<longleftrightarrow> length buf < header_len + tag_len k)
    \<and> (packet_decrypt lib k pn header payload = Panic \<longleftrightarrow> length payload < tag_len k)
    \<and> (packet_decrypt lib k pn header payload = Ret (left, Inl CryptoError) \<longrightarrow> length left = length payload)"
proof (intro conjI)
  show "packet_encrypt lib k pn buf header_len = Panic \<longleftrightarrow> length buf < header_len + tag_len k"
  proof (cases "length buf < header_len + 16")
    case True
    then show ?thesis
      by (auto simp: packet_encrypt_def split_at_def usize_sub_def tag_len_def)
  next
    case False
    let ?n = "length buf - 16 - header_len"
    let ?h = "take header_len buf" and ?pt = "take ?n (drop header_len buf)"
      and ?room = "drop ?n (drop header_len buf)"
    have "buf = ?h @ ?pt @ ?room" by (simp only: append_take_drop_id)
    moreover have "length ?h = header_len" "length ?room = 16" using False by simp_all
    moreover have "length ?h \<le> aead_max" "length ?pt \<le> aead_max" using assms(2) False by simp_all
    ultimately obtain payload where "packet_encrypt lib k pn buf header_len = Ret (?h @ payload)"
      using packet_seal_unseal [OF assms(1), of ?h ?pt ?room k pn] by metis
    with False show ?thesis by (simp add: tag_len_def)
  qed
  show "packet_decrypt lib k pn header payload = Panic \<longleftrightarrow> length payload < tag_len k"
    by (auto simp: packet_decrypt_def usize_sub_def split_at_def tag_len_def split: sum.splits)
  show "packet_decrypt lib k pn header payload = Ret (left, Inl CryptoError) \<longrightarrow> length left = length payload"
  proof
    assume dec: "packet_decrypt lib k pn header payload = Ret (left, Inl CryptoError)"
    then obtain ct tag where "payload = ct @ tag" "length tag = 16"
      by (rule packet_decrypt_cases)
    with dec aead_documentedD(3) [OF assms(1), of _ _ header ct tag] show "length left = length payload"
      by (fastforce simp: packet_decrypt_eq split: sum.splits)
  qed
qed

subsection \<open>Witnesses\<close>

text \<open>
  A toy AEAD with the documented behaviour: the ciphertext adds the first key byte, the tag is one
  sum over key, nonce, header and plaintext, sixteen times.
\<close>

definition sample_tag :: "bytes \<Rightarrow> bytes \<Rightarrow> bytes \<Rightarrow> bytes \<Rightarrow> bytes" where
  "sample_tag k n aad pt = replicate 16 (fold (+) (k @ n @ aad @ pt) 0)"

definition sample_aead :: aead_lib where
  "sample_aead =
     \<lparr>gcm_encrypt = (\<lambda>k n aad pt. if length aad \<le> aead_max \<and> length pt \<le> aead_max
        then Some (map ((+) (hd (k @ [0]))) pt, sample_tag k n aad pt) else None),
      gcm_decrypt = (\<lambda>k n aad ct tag.
        let pt = map (\<lambda>c. c - hd (k @ [0])) ct
        in if length aad \<le> aead_max \<and> length pt \<le> aead_max \<and> tag = sample_tag k n aad pt
           then Inr pt else Inl ct)\<rparr>"

lemma sample_aead_documented: "aead_documented sample_aead"
  by (auto simp: aead_documented_def sample_aead_def sample_tag_def Let_def o_def split: if_splits)

definition sample_packet_key :: Aes128GcmPacketKey where
  "sample_packet_key = \<lparr>pk_key = replicate 16 7, pk_iv = replicate 12 3\<rparr>"

lemma aead_max_ge: "n \<le> 1000 \<Longrightarrow> n \<le> aead_max"
  by (simp add: aead_max_def)

lemma nonce_for_injective_witness:
  "nonce_for (replicate 12 3) 1 \<noteq> nonce_for (replicate 12 3) 2"
  using nonce_for_injective [of "replicate 12 3" 1 2] by simp

lemma packet_protection_roundtrip_witness:
  "\<exists>payload. packet_encrypt sample_aead sample_packet_key 5 ([64, 1] @ [9, 9, 9] @ replicate 16 0) 2
      = Ret ([64, 1] @ payload)
    \<and> packet_decrypt sample_aead sample_packet_key 5 [64, 1] payload = Ret ([9, 9, 9], Inr ())"
  using packet_protection_roundtrip [OF sample_aead_documented, of sample_packet_key "[64, 1]" "[9, 9, 9]"
      "replicate 16 0" 5]
  by (simp add: sample_packet_key_def packet_key_wf_def aead_max_ge numeral_2_eq_2) blast

lemma packet_protection_panics_witness:
  "packet_encrypt sample_aead sample_packet_key 5 (replicate 17 0) 2 = Panic
    \<and> packet_decrypt sample_aead sample_packet_key 5 [64] (replicate 15 0) = Panic"
  using packet_protection_panics [OF sample_aead_documented, of "replicate 17 0" sample_packet_key 5 2 "[64]"
      "replicate 15 0"]
  by (simp add: tag_len_def aead_max_ge)

end
