(* ===== verification/Header_Key.thy ===== *)
theory Header_Key
  imports Prelude
begin

text \<open>
  Header protection with AES in ECB mode (\<open>quic-mls/src/header_key.rs\<close>). The block cipher of the
  crate \<open>aes\<close> is a parameter; the code relies only on its block length. The two directions differ
  in one point: encryption reads the length of the packet number before it masks the first byte,
  decryption after it has unmasked it. The interface of quinn's \<open>HeaderKey\<close> trait is a locale.
\<close>

type_synonym block_cipher = "bytes \<Rightarrow> bytes \<Rightarrow> bytes"

definition aes_documented :: "block_cipher \<Rightarrow> bool" where
  "aes_documented aes \<longleftrightarrow> (\<forall>k b. length k = 16 \<longrightarrow> length b = 16 \<longrightarrow> length (aes k b) = 16)"

record Aes128EcbHeaderKey =
  hk_key :: bytes

definition header_key_wf :: "Aes128EcbHeaderKey \<Rightarrow> bool" where
  "header_key_wf k \<longleftrightarrow> length (hk_key k) = 16"

definition compute_mask :: "block_cipher \<Rightarrow> Aes128EcbHeaderKey \<Rightarrow> bytes \<Rightarrow> bytes panics" where
  "compute_mask aes self sample = do {
     cipher \<leftarrow> (if length (hk_key self) = 16 then Ret (aes (hk_key self)) else Panic);
     block \<leftarrow> copy_from_slice (replicate 16 0) sample;
     copy_from_slice (replicate 16 0) (cipher block)
   }"

definition xor_first_byte :: "bytes \<Rightarrow> u8 \<Rightarrow> bytes panics" where
  "xor_first_byte packet mask_byte = do {
     b \<leftarrow> index packet 0;
     let is_long_header = (b AND 0x80 \<noteq> 0);
     if is_long_header
     then index_set packet 0 (b XOR (mask_byte AND 0x0f))
     else index_set packet 0 (b XOR (mask_byte AND 0x1f))
   }"

definition xor_pn_bytes :: "bytes \<Rightarrow> nat \<Rightarrow> nat \<Rightarrow> bytes \<Rightarrow> bytes panics" where
  "xor_pn_bytes packet pn_offset pn_len hp_mask =
     for_each (xor_at pn_offset (\<lambda>i. hp_mask ! (1 + i))) [0..<pn_len] packet"

definition header_pn_len :: "bytes \<Rightarrow> nat panics" where
  "header_pn_len packet = do { b \<leftarrow> index packet 0; Ret (unat (b AND 0x03) + 1) }"

definition header_decrypt :: "block_cipher \<Rightarrow> Aes128EcbHeaderKey \<Rightarrow> nat \<Rightarrow> bytes \<Rightarrow> bytes panics" where
  "header_decrypt aes self pn_offset packet = do {
     sample \<leftarrow> sub_slice packet (pn_offset + 4) (pn_offset + 20);
     hp_mask \<leftarrow> compute_mask aes self sample;
     packet \<leftarrow> xor_first_byte packet (hp_mask ! 0);
     pn_len \<leftarrow> header_pn_len packet;
     xor_pn_bytes packet pn_offset pn_len hp_mask
   }"

definition header_encrypt :: "block_cipher \<Rightarrow> Aes128EcbHeaderKey \<Rightarrow> nat \<Rightarrow> bytes \<Rightarrow> bytes panics" where
  "header_encrypt aes self pn_offset packet = do {
     sample \<leftarrow> sub_slice packet (pn_offset + 4) (pn_offset + 20);
     hp_mask \<leftarrow> compute_mask aes self sample;
     pn_len \<leftarrow> header_pn_len packet;
     packet \<leftarrow> xor_first_byte packet (hp_mask ! 0);
     xor_pn_bytes packet pn_offset pn_len hp_mask
   }"

definition sample_size :: "Aes128EcbHeaderKey \<Rightarrow> nat" where
  "sample_size self = 16"

subsection \<open>What masking does to a packet\<close>

text \<open>The bits of the first byte that are masked, and the number of packet-number bytes.\<close>

definition first_byte_bits :: "u8 \<Rightarrow> u8" where
  "first_byte_bits b = (if b AND 0x80 \<noteq> 0 then 0x0f else 0x1f)"

definition pn_bytes_of :: "u8 \<Rightarrow> nat" where
  "pn_bytes_of b = unat (b AND 0x03) + 1"

lemma pn_bytes_of_bounds: "1 \<le> pn_bytes_of b" "pn_bytes_of b \<le> 4"
proof -
  have "b AND 0x03 = take_bit 2 b" by (simp add: take_bit_eq_mask mask_eq_exp_minus_1)
  then have "unat (b AND 0x03) < 4" using take_bit_nat_less_exp [of 2 "unat b"] by (simp add: unsigned_take_bit_eq)
  then show "1 \<le> pn_bytes_of b" "pn_bytes_of b \<le> 4" by (simp_all add: pn_bytes_of_def)
qed

lemma and_xor_and: "(b XOR (x AND m)) AND c = (b AND c) XOR (x AND (m AND c))" for b :: u8
  by (rule bit_word_eqI) (auto simp: bit_simps)

lemma first_byte_bits_xor [simp]:
  "first_byte_bits (b XOR (x AND first_byte_bits b)) = first_byte_bits b"
  by (simp add: first_byte_bits_def and_xor_and)

lemma xor_twice [simp]: "(b XOR k) XOR k = b" for b :: u8
  by (simp add: xor.assoc)

text \<open>The packet with its first byte xored with \<open>m 0\<close> in the masked bits and \<open>n\<close> bytes from \<open>off\<close>.\<close>

definition masked :: "nat \<Rightarrow> nat \<Rightarrow> bytes \<Rightarrow> bytes \<Rightarrow> bytes \<Rightarrow> bool" where
  "masked off n m p q \<longleftrightarrow> length q = length p \<and> (\<forall>j < length p. q ! j =
     (if j = 0 then p ! 0 XOR (m ! 0 AND first_byte_bits (p ! 0))
      else if off \<le> j \<and> j < off + n then p ! j XOR m ! (1 + (j - off)) else p ! j))"

lemma maskedD:
  assumes "masked off n m p q"
  shows "length q = length p"
    and "j < length p \<Longrightarrow> q ! j = (if j = 0 then p ! 0 XOR (m ! 0 AND first_byte_bits (p ! 0))
      else if off \<le> j \<and> j < off + n then p ! j XOR m ! (1 + (j - off)) else p ! j)"
  using assms unfolding masked_def by blast+

lemma masked_unique: "masked off n m p q \<Longrightarrow> masked off n m p r \<Longrightarrow> q = r"
  unfolding masked_def by (intro nth_equalityI) auto

lemma masked_involution:
  assumes "masked off n m p q" and "masked off n m q r" and "1 \<le> off" and "p \<noteq> []"
  shows "r = p"
proof (rule nth_equalityI)
  show "length r = length p" using assms(1,2) by (simp add: masked_def)
  fix j assume "j < length r"
  then have j: "j < length p" "j < length q" using assms(1,2) by (simp_all add: masked_def)
  have q0: "q ! 0 = p ! 0 XOR (m ! 0 AND first_byte_bits (p ! 0))"
    using maskedD(2) [OF assms(1), of 0] assms(4) by simp
  show "r ! j = p ! j"
    using maskedD(2) [OF assms(1) j(1)] maskedD(2) [OF assms(2) j(2)] q0 by (simp split: if_splits)
qed

lemma xor_first_byte_eq:
  "xor_first_byte (b # bs) x = Ret ((b XOR (x AND first_byte_bits b)) # bs)"
  by (simp add: xor_first_byte_def first_byte_bits_def index_def index_set_def)

lemma header_pn_len_eq: "header_pn_len (b # bs) = Ret (pn_bytes_of b)"
  by (simp add: header_pn_len_def pn_bytes_of_def index_def)

lemma mask_and_pn:
  assumes "p \<noteq> []" and "off + n \<le> length p" and "1 \<le> off"
  shows "\<exists>q. xor_first_byte p (m ! 0) \<bind> (\<lambda>p'. xor_pn_bytes p' off n m) = Ret q \<and> masked off n m p q"
proof -
  from assms(1) obtain b bs where p: "p = b # bs" by (cases p) auto
  let ?p = "(b XOR (m ! 0 AND first_byte_bits b)) # bs"
  obtain q where "for_each (xor_at off (\<lambda>i. m ! (1 + i))) [0..<n] ?p = Some q" "length q = length ?p"
    "\<forall>j < length ?p. q ! j = (if off \<le> j \<and> j < off + n then ?p ! j XOR m ! (1 + (j - off)) else ?p ! j)"
    using for_each_xor [of off n ?p "\<lambda>i. m ! (1 + i)"] assms(2) p by auto
  then show ?thesis
    using assms(3) by (intro exI [of _ q]) (auto simp: p xor_first_byte_eq xor_pn_bytes_def masked_def nth_Cons')
qed

definition hp_mask_of :: "block_cipher \<Rightarrow> Aes128EcbHeaderKey \<Rightarrow> nat \<Rightarrow> bytes \<Rightarrow> bytes" where
  "hp_mask_of aes k off p = aes (hk_key k) (take 16 (drop (off + 4) p))"

lemma sample_mask:
  assumes "aes_documented aes" and "header_key_wf k" and "off + 20 \<le> length p"
  shows "sub_slice p (off + 4) (off + 20) = Ret (take 16 (drop (off + 4) p))"
    and "compute_mask aes k (take 16 (drop (off + 4) p)) = Ret (hp_mask_of aes k off p)"
    and "length (hp_mask_of aes k off p) = 16"
  using assms
  by (simp_all add: sub_slice_def compute_mask_def copy_from_slice_def hp_mask_of_def aes_documented_def header_key_wf_def)

lemma masked_sample:
  assumes "masked off n m p q" and "n \<le> 4" and "off + 20 \<le> length p"
  shows "take 16 (drop (off + 4) q) = take 16 (drop (off + 4) p)"
proof (rule nth_equalityI)
  show "length (take 16 (drop (off + 4) q)) = length (take 16 (drop (off + 4) p))"
    using maskedD(1) [OF assms(1)] by simp
  fix i assume "i < length (take 16 (drop (off + 4) q))"
  then have i: "i < 16" "off + 4 + i < length p" using assms(3) by simp_all
  then show "take 16 (drop (off + 4) q) ! i = take 16 (drop (off + 4) p) ! i"
    using maskedD(2) [OF assms(1) i(2)] maskedD(1) [OF assms(1)] assms(2) by simp
qed

lemma header_encrypt_masks:
  assumes "aes_documented aes" and "header_key_wf k" and "1 \<le> off" and "off + 20 \<le> length p"
  shows "\<exists>q. header_encrypt aes k off p = Ret q \<and> masked off (pn_bytes_of (p ! 0)) (hp_mask_of aes k off p) p q"
proof -
  from assms(4) obtain b bs where p: "p = b # bs" by (cases p) auto
  have "off + pn_bytes_of b \<le> length p" using assms(4) pn_bytes_of_bounds(2) [of b] by simp
  then show ?thesis
    using mask_and_pn [of p off "pn_bytes_of b" "hp_mask_of aes k off p"] sample_mask [OF assms(1,2,4)] assms(3)
    by (simp add: header_encrypt_def p header_pn_len_eq xor_first_byte_eq)
qed

lemma header_decrypt_masks:
  assumes "aes_documented aes" and "header_key_wf k" and "1 \<le> off" and "off + 20 \<le> length p"
  shows "\<exists>q. header_decrypt aes k off p = Ret q \<and> masked off (pn_bytes_of (q ! 0)) (hp_mask_of aes k off p) p q"
proof -
  from assms(4) obtain b bs where p: "p = b # bs" by (cases p) auto
  let ?m = "hp_mask_of aes k off p" and ?b = "b XOR (hp_mask_of aes k off p ! 0 AND first_byte_bits b)"
  have n: "off + pn_bytes_of ?b \<le> length p" using assms(4) pn_bytes_of_bounds(2) [of ?b] by simp
  obtain q where q: "xor_first_byte p (?m ! 0) \<bind> (\<lambda>p'. xor_pn_bytes p' off (pn_bytes_of ?b) ?m) = Ret q"
    and masked: "masked off (pn_bytes_of ?b) ?m p q"
    using mask_and_pn [of p off "pn_bytes_of ?b" ?m] n assms(3) p by auto
  have "q ! 0 = ?b" using maskedD(2) [OF masked, of 0] p by simp
  with q masked sample_mask [OF assms(1,2,4)] show ?thesis
    by (simp add: header_decrypt_def p header_pn_len_eq xor_first_byte_eq)
qed

subsection \<open>The interface of header protection\<close>

text \<open>
  The two laws quinn relies on: on packets that hold the sample, each direction undoes the other
  one. What follows once: protection is a bijection of the packets of one length.
\<close>

locale header_protection =
  fixes protect :: "'k \<Rightarrow> nat \<Rightarrow> bytes \<Rightarrow> bytes panics"
    and unprotect :: "'k \<Rightarrow> nat \<Rightarrow> bytes \<Rightarrow> bytes panics"
    and ok :: "'k \<Rightarrow> bool"
  assumes protect_unprotect: "ok k \<Longrightarrow> 1 \<le> off \<Longrightarrow> off + 20 \<le> length p \<Longrightarrow>
      \<exists>q. protect k off p = Ret q \<and> length q = length p \<and> unprotect k off q = Ret p"
    and unprotect_protect: "ok k \<Longrightarrow> 1 \<le> off \<Longrightarrow> off + 20 \<le> length p \<Longrightarrow>
      \<exists>q. unprotect k off p = Ret q \<and> length q = length p \<and> protect k off q = Ret p"
begin

lemma protect_inj:
  "ok k \<Longrightarrow> 1 \<le> off \<Longrightarrow> off + 20 \<le> length p1 \<Longrightarrow> off + 20 \<le> length p2 \<Longrightarrow>
     protect k off p1 = protect k off p2 \<Longrightarrow> p1 = p2"
  by (metis option.inject protect_unprotect)

lemma protect_bij:
  assumes "ok k" and "1 \<le> off" and "off + 20 \<le> n"
  shows "bij_betw (\<lambda>p. the (protect k off p)) {p. length p = n} {p. length p = n}"
proof (rule bij_betw_byWitness [where f' = "\<lambda>p. the (unprotect k off p)"])
  show "\<forall>p \<in> {p. length p = n}. the (unprotect k off (the (protect k off p))) = p"
    using protect_unprotect [OF assms(1,2)] assms(3) by fastforce
  show "\<forall>p \<in> {p. length p = n}. the (protect k off (the (unprotect k off p))) = p"
    using unprotect_protect [OF assms(1,2)] assms(3) by fastforce
  show "(\<lambda>p. the (protect k off p)) ` {p. length p = n} \<subseteq> {p. length p = n}"
    using protect_unprotect [OF assms(1,2)] assms(3) by fastforce
  show "(\<lambda>p. the (unprotect k off p)) ` {p. length p = n} \<subseteq> {p. length p = n}"
    using unprotect_protect [OF assms(1,2)] assms(3) by fastforce
qed

end

lemma masked_hp_mask:
  "masked off (pn_bytes_of b) m p q \<Longrightarrow> off + 20 \<le> length p \<Longrightarrow> hp_mask_of aes k off q = hp_mask_of aes k off p"
  by (simp add: hp_mask_of_def masked_sample pn_bytes_of_bounds)

lemma header_encrypt_decrypt:
  assumes "aes_documented aes" and "header_key_wf k" and "1 \<le> off" and "off + 20 \<le> length p"
  shows "\<exists>q. header_encrypt aes k off p = Ret q \<and> length q = length p \<and> header_decrypt aes k off q = Ret p"
proof -
  obtain q where q: "header_encrypt aes k off p = Ret q"
    and pq: "masked off (pn_bytes_of (p ! 0)) (hp_mask_of aes k off p) p q"
    using header_encrypt_masks [OF assms] by blast
  have l: "length q = length p" using pq by (rule maskedD)
  then have "off + 20 \<le> length q" using assms(4) by simp
  with header_decrypt_masks [OF assms(1-3)] obtain r where r: "header_decrypt aes k off q = Ret r"
    and qr: "masked off (pn_bytes_of (r ! 0)) (hp_mask_of aes k off p) q r"
    using masked_hp_mask [OF pq assms(4)] by metis
  have ne: "0 < length p" "0 < length q" using assms(4) l by linarith+
  then have "p \<noteq> []" by simp
  have "r ! 0 = p ! 0" using maskedD(2) [OF qr ne(2)] maskedD(2) [OF pq ne(1)] by simp
  with qr have "r = p" using masked_involution [OF pq _ assms(3) \<open>p \<noteq> []\<close>, of r] by simp
  with q r l show ?thesis by simp
qed

lemma header_decrypt_encrypt:
  assumes "aes_documented aes" and "header_key_wf k" and "1 \<le> off" and "off + 20 \<le> length p"
  shows "\<exists>q. header_decrypt aes k off p = Ret q \<and> length q = length p \<and> header_encrypt aes k off q = Ret p"
proof -
  obtain q where q: "header_decrypt aes k off p = Ret q"
    and pq: "masked off (pn_bytes_of (q ! 0)) (hp_mask_of aes k off p) p q"
    using header_decrypt_masks [OF assms] by blast
  have l: "length q = length p" using pq by (rule maskedD)
  then have "off + 20 \<le> length q" using assms(4) by simp
  with header_encrypt_masks [OF assms(1-3)] obtain r where r: "header_encrypt aes k off q = Ret r"
    and qr: "masked off (pn_bytes_of (q ! 0)) (hp_mask_of aes k off p) q r"
    using masked_hp_mask [OF pq assms(4)] by metis
  have "p \<noteq> []" using assms(4) by (cases p) simp_all
  with masked_involution [OF pq qr assms(3)] have "r = p" by simp
  with q r l show ?thesis by simp
qed

interpretation ecb: header_protection "\<lambda>(aes, k). header_encrypt aes k" "\<lambda>(aes, k). header_decrypt aes k"
  "\<lambda>(aes, k). aes_documented aes \<and> header_key_wf k"
proof
  fix ak :: "block_cipher \<times> Aes128EcbHeaderKey" and off :: nat and p :: bytes
  assume ok: "case ak of (aes, k) \<Rightarrow> aes_documented aes \<and> header_key_wf k" "1 \<le> off" "off + 20 \<le> length p"
  show "\<exists>q. (case ak of (aes, k) \<Rightarrow> header_encrypt aes k) off p = Ret q \<and> length q = length p
      \<and> (case ak of (aes, k) \<Rightarrow> header_decrypt aes k) off q = Ret p"
    using header_encrypt_decrypt ok by (cases ak) auto
  show "\<exists>q. (case ak of (aes, k) \<Rightarrow> header_decrypt aes k) off p = Ret q \<and> length q = length p
      \<and> (case ak of (aes, k) \<Rightarrow> header_encrypt aes k) off q = Ret p"
    using header_decrypt_encrypt ok by (cases ak) auto
qed

text \<open>
  C32: Header protection is undone. For a 16-byte key, a packet-number offset past the first byte and
  a packet that holds the sample, removing the protection of a protected packet gives the packet
  back, protecting an unprotected one gives it back as well, and no two packets are protected to the
  same bytes.
\<close>

theorem header_protection_roundtrip:
  assumes "aes_documented aes" and "header_key_wf k" and "1 \<le> off" and "off + 20 \<le> length p"
  shows "(header_encrypt aes k off p \<bind> header_decrypt aes k off = Ret p)
    \<and> (header_decrypt aes k off p \<bind> header_encrypt aes k off = Ret p)
    \<and> (\<forall>q. off + 20 \<le> length q \<longrightarrow> header_encrypt aes k off p = header_encrypt aes k off q \<longrightarrow> p = q)"
proof (intro conjI allI impI)
  show "header_encrypt aes k off p \<bind> header_decrypt aes k off = Ret p"
    using ecb.protect_unprotect [of "(aes, k)" off p] assms by auto
  show "header_decrypt aes k off p \<bind> header_encrypt aes k off = Ret p"
    using ecb.unprotect_protect [of "(aes, k)" off p] assms by auto
  show "p = q" if "off + 20 \<le> length q" "header_encrypt aes k off p = header_encrypt aes k off q" for q
    using ecb.protect_inj [of "(aes, k)" off p q] assms that by simp
qed

text \<open>
  What header protection touches. Protecting a packet keeps its length and every byte but the
  first and those of the packet number, whose count is read from the unprotected first byte; of the
  first byte it keeps the upper four bits of a long header and the upper three of a short one.
\<close>

lemma header_protection_frame:
  assumes "aes_documented aes" and "header_key_wf k" and "1 \<le> off" and "off + 20 \<le> length p"
  shows "\<exists>q. header_encrypt aes k off p = Ret q \<and> length q = length p
    \<and> q ! 0 AND 0xe0 = p ! 0 AND 0xe0
    \<and> (p ! 0 AND 0x80 \<noteq> 0 \<longrightarrow> q ! 0 AND 0xf0 = p ! 0 AND 0xf0)
    \<and> (\<forall>j. 0 < j \<and> j < length p \<and> (j < off \<or> off + unat (p ! 0 AND 0x03) + 1 \<le> j) \<longrightarrow> q ! j = p ! j)"
proof -
  obtain q where q: "header_encrypt aes k off p = Ret q"
    and pq: "masked off (pn_bytes_of (p ! 0)) (hp_mask_of aes k off p) p q"
    using header_encrypt_masks [OF assms] by blast
  have "0 < length p" using assms(4) by linarith
  then have q0: "q ! 0 = p ! 0 XOR (hp_mask_of aes k off p ! 0 AND first_byte_bits (p ! 0))"
    using maskedD(2) [OF pq, of 0] by simp
  have "q ! 0 AND 0xe0 = p ! 0 AND 0xe0" "p ! 0 AND 0x80 \<noteq> 0 \<Longrightarrow> q ! 0 AND 0xf0 = p ! 0 AND 0xf0"
    by (simp_all add: q0 first_byte_bits_def and_xor_and)
  moreover have "q ! j = p ! j" if "0 < j" "j < length p" "j < off \<or> off + unat (p ! 0 AND 0x03) + 1 \<le> j" for j
    using maskedD(2) [OF pq that(2)] that by (auto simp: pn_bytes_of_def)
  ultimately show ?thesis using q maskedD(1) [OF pq] by blast
qed

lemma xor_pn_bytes_Ret:
  "off + 4 \<le> length p \<Longrightarrow> \<exists>q. xor_pn_bytes p off (pn_bytes_of b) m = Ret q"
  using for_each_xor [of off "pn_bytes_of b" p "\<lambda>i. m ! (1 + i)"] pn_bytes_of_bounds(2) [of b]
  by (auto simp: xor_pn_bytes_def)

text \<open>With a well-formed key each direction panics exactly if the packet ends before the sample.\<close>

lemma header_protection_panics_iff:
  assumes "aes_documented aes" and "header_key_wf k"
  shows "header_encrypt aes k off p = Panic \<longleftrightarrow> length p < off + 20"
    and "header_decrypt aes k off p = Panic \<longleftrightarrow> length p < off + 20"
proof -
  have "(header_encrypt aes k off p = Panic \<longleftrightarrow> length p < off + 20)
    \<and> (header_decrypt aes k off p = Panic \<longleftrightarrow> length p < off + 20)"
  proof (cases "length p < off + 20")
    case True
    then show ?thesis by (simp add: header_encrypt_def header_decrypt_def sub_slice_def)
  next
    case False
    then have len: "off + 20 \<le> length p" by simp
    then obtain b bs where p: "p = b # bs" by (cases p) auto
    have "\<exists>q. xor_pn_bytes (x # bs) off (pn_bytes_of y) (hp_mask_of aes k off p) = Ret q" for x y
      using xor_pn_bytes_Ret [of off "x # bs"] len p by simp
    then show ?thesis
      using False sample_mask [OF assms len]
      by (simp add: header_encrypt_def header_decrypt_def p xor_first_byte_eq header_pn_len_eq)
  qed
  then show "header_encrypt aes k off p = Panic \<longleftrightarrow> length p < off + 20"
    and "header_decrypt aes k off p = Panic \<longleftrightarrow> length p < off + 20" by blast+
qed

subsection \<open>Witnesses\<close>

definition sample_aes :: block_cipher where
  "sample_aes k b = map2 (XOR) k b"

lemma sample_aes_documented: "aes_documented sample_aes"
  by (simp add: aes_documented_def sample_aes_def)

definition sample_header_key :: Aes128EcbHeaderKey where
  "sample_header_key = \<lparr>hk_key = replicate 16 0x5a\<rparr>"

lemma sample_header_key_wf: "header_key_wf sample_header_key"
  by (simp add: header_key_wf_def sample_header_key_def)

lemma header_protection_roundtrip_witness:
  "header_encrypt sample_aes sample_header_key 9 (replicate 40 0x41) \<bind> header_decrypt sample_aes sample_header_key 9
    = Ret (replicate 40 0x41)"
  using header_protection_roundtrip [OF sample_aes_documented sample_header_key_wf, of 9 "replicate 40 0x41"] by simp

lemma header_protection_frame_witness:
  "\<exists>q. header_encrypt sample_aes sample_header_key 9 (replicate 40 0x41) = Ret q \<and> length q = 40 \<and> q ! 5 = 0x41"
  using header_protection_frame [OF sample_aes_documented sample_header_key_wf, of 9 "replicate 40 0x41"] by auto

end
