(* ===== verification/Keys.thy ===== *)
theory Keys
  imports Group Hkdf Packet_Key Header_Key
begin

text \<open>
  Key derivation (\<open>quic-mls/src/keys.rs\<close>): the packet, IV and header keys of a secret, the
  assignment of the two directions to local and remote by side, the Initial keys of RFC 9001 and
  the keys exported from the MLS group. \<open>Side\<close>, \<open>KeyPair\<close> and \<open>Keys\<close> are the data types
  of \<open>quinn_proto\<close> that the code fills in.
\<close>

datatype Side = Client | Server

instantiation Side :: linorder
begin

definition less_eq_Side :: "Side \<Rightarrow> Side \<Rightarrow> bool" where
  "less_eq_Side a b \<longleftrightarrow> a = Client \<or> b = Server"

definition less_Side :: "Side \<Rightarrow> Side \<Rightarrow> bool" where
  "less_Side a b \<longleftrightarrow> a = Client \<and> b = Server"

instance
proof
  fix a b c :: Side
  show "a < b \<longleftrightarrow> a \<le> b \<and> \<not> b \<le> a" by (cases a; cases b) (simp_all add: less_eq_Side_def less_Side_def)
  show "a \<le> a" by (cases a) (simp_all add: less_eq_Side_def)
  show "a \<le> b \<Longrightarrow> b \<le> c \<Longrightarrow> a \<le> c" by (cases a; cases b; cases c) (simp_all add: less_eq_Side_def)
  show "a \<le> b \<Longrightarrow> b \<le> a \<Longrightarrow> a = b" by (cases a; cases b) (simp_all add: less_eq_Side_def)
  show "a \<le> b \<or> b \<le> a" by (cases a; cases b) (simp_all add: less_eq_Side_def)
qed

end

record 'k KeyPair =
  kp_local :: 'k
  kp_remote :: 'k

record Keys =
  header :: "Aes128EcbHeaderKey KeyPair"
  packet :: "Aes128GcmPacketKey KeyPair"

text \<open>\<open>try_into\<close> an array of a fixed length, and \<open>expect\<close>.\<close>

definition into_array :: "nat \<Rightarrow> bytes \<Rightarrow> bytes panics" where
  "into_array n bs = (if length bs = n then Ret bs else Panic)"

definition derive_keys_from_secret ::
    "'h hkdf_lib \<Rightarrow> bytes \<Rightarrow> (Aes128GcmPacketKey \<times> Aes128EcbHeaderKey) panics" where
  "derive_keys_from_secret lib secret = do {
     key \<leftarrow> hkdf_expand_label lib secret ''quic key'' [] 16; key \<leftarrow> into_array 16 key;
     iv \<leftarrow> hkdf_expand_label lib secret ''quic iv'' [] 12; iv \<leftarrow> into_array 12 iv;
     hp \<leftarrow> hkdf_expand_label lib secret ''quic hp'' [] 16; hp \<leftarrow> into_array 16 hp;
     Ret (\<lparr>pk_key = key, pk_iv = iv\<rparr>, \<lparr>hk_key = hp\<rparr>)
   }"

definition derive_directional_keys :: "'h hkdf_lib \<Rightarrow> bytes \<Rightarrow> bytes \<Rightarrow> Side \<Rightarrow> Keys panics" where
  "derive_directional_keys lib client_secret server_secret side = do {
     (client_packet, client_header) \<leftarrow> derive_keys_from_secret lib client_secret;
     (server_packet, server_header) \<leftarrow> derive_keys_from_secret lib server_secret;
     let (local_packet, remote_packet, local_header, remote_header) =
       (case side of
          Client \<Rightarrow> (client_packet, server_packet, client_header, server_header)
        | Server \<Rightarrow> (server_packet, client_packet, server_header, client_header));
     Ret \<lparr>header = \<lparr>kp_local = local_header, kp_remote = remote_header\<rparr>,
          packet = \<lparr>kp_local = local_packet, kp_remote = remote_packet\<rparr>\<rparr>
   }"

definition derive_initial_secrets :: "'h hkdf_lib \<Rightarrow> bytes \<Rightarrow> (bytes \<times> bytes) panics" where
  "derive_initial_secrets lib dst_cid = do {
     let hkdf = hk_new lib (Some INITIAL_SALT) dst_cid;
     client_secret \<leftarrow> hk_expand lib hkdf (hkdf_label_info ''client in'' [] 32) 32;
     server_secret \<leftarrow> hk_expand lib hkdf (hkdf_label_info ''server in'' [] 32) 32;
     Ret (client_secret, server_secret)
   }"

definition derive_initial_keys :: "'h hkdf_lib \<Rightarrow> bytes \<Rightarrow> Side \<Rightarrow> Keys panics" where
  "derive_initial_keys lib dst_cid side = do {
     (client_secret, server_secret) \<leftarrow> derive_initial_secrets lib dst_cid;
     derive_directional_keys lib client_secret server_secret side
   }"

definition derive_mls_keys ::
    "'h hkdf_lib \<Rightarrow> ('g, 'e) ExportSecret \<Rightarrow> 'g \<Rightarrow> string \<Rightarrow> Side \<Rightarrow> bytes \<Rightarrow> ('e + Keys) panics" where
  "derive_mls_keys lib ops g level side context = do {
     r \<leftarrow> export_secret ops g (ascii (''quic-mls c2s '' @ level)) context 32;
     case r of
       Inl e \<Rightarrow> Ret (Inl e)
     | Inr client_secret \<Rightarrow> do {
         r \<leftarrow> export_secret ops g (ascii (''quic-mls s2c '' @ level)) context 32;
         case r of
           Inl e \<Rightarrow> Ret (Inl e)
         | Inr server_secret \<Rightarrow> do {
             keys \<leftarrow> derive_directional_keys lib client_secret server_secret side;
             Ret (Inr keys)
           }
       }
   }"

subsection \<open>Directions and well-formed keys\<close>

definition swap_pair :: "'k KeyPair \<Rightarrow> 'k KeyPair" where
  "swap_pair kp = \<lparr>kp_local = kp_remote kp, kp_remote = kp_local kp\<rparr>"

definition swap_keys :: "Keys \<Rightarrow> Keys" where
  "swap_keys ks = \<lparr>header = swap_pair (header ks), packet = swap_pair (packet ks)\<rparr>"

lemma swap_keys_simps [simp]:
  "kp_local (swap_pair kp) = kp_remote kp" "kp_remote (swap_pair kp) = kp_local kp"
  "header (swap_keys ks) = swap_pair (header ks)" "packet (swap_keys ks) = swap_pair (packet ks)"
  by (simp_all add: swap_pair_def swap_keys_def)

definition other_side :: "Side \<Rightarrow> Side" where
  "other_side s = (case s of Client \<Rightarrow> Server | Server \<Rightarrow> Client)"

lemma other_side_simps [simp]: "other_side Client = Server" "other_side Server = Client"
  by (simp_all add: other_side_def)

lemma derive_directional_swap:
  "derive_directional_keys lib cs ss (other_side side) = map_option swap_keys (derive_directional_keys lib cs ss side)"
  by (cases side; cases "derive_keys_from_secret lib cs"; cases "derive_keys_from_secret lib ss")
    (auto simp: derive_directional_keys_def swap_keys_def swap_pair_def)

definition keys_wf :: "Keys \<Rightarrow> bool" where
  "keys_wf ks \<longleftrightarrow> packet_key_wf (kp_local (packet ks)) \<and> packet_key_wf (kp_remote (packet ks))
     \<and> header_key_wf (kp_local (header ks)) \<and> header_key_wf (kp_remote (header ks))"

lemma derive_keys_from_secret_Ret:
  assumes "hkdf_documented lib" and "32 \<le> length secret"
  shows "\<exists>pk hk. derive_keys_from_secret lib secret = Ret (pk, hk) \<and> packet_key_wf pk \<and> header_key_wf hk"
proof -
  obtain key iv hp where "hkdf_expand_label lib secret ''quic key'' [] 16 = Ret key" "length key = 16"
    "hkdf_expand_label lib secret ''quic iv'' [] 12 = Ret iv" "length iv = 12"
    "hkdf_expand_label lib secret ''quic hp'' [] 16 = Ret hp" "length hp = 16"
    using hkdf_expand_label_Ret [OF assms, of 16 "''quic key''" "[]"]
      hkdf_expand_label_Ret [OF assms, of 12 "''quic iv''" "[]"]
      hkdf_expand_label_Ret [OF assms, of 16 "''quic hp''" "[]"] by fastforce
  then show ?thesis
    by (simp add: derive_keys_from_secret_def into_array_def packet_key_wf_def header_key_wf_def)
qed

lemma derive_directional_Ret:
  assumes "hkdf_documented lib" and "32 \<le> length cs" and "32 \<le> length ss"
  shows "\<exists>ks. derive_directional_keys lib cs ss side = Ret ks \<and> keys_wf ks"
proof -
  obtain cp ch sp sh where "derive_keys_from_secret lib cs = Ret (cp, ch)" "packet_key_wf cp" "header_key_wf ch"
    "derive_keys_from_secret lib ss = Ret (sp, sh)" "packet_key_wf sp" "header_key_wf sh"
    using derive_keys_from_secret_Ret [OF assms(1,2)] derive_keys_from_secret_Ret [OF assms(1,3)] by blast
  then show ?thesis
    by (cases side) (simp_all add: derive_directional_keys_def keys_wf_def)
qed

text \<open>
  Well-formedness needs no assumption: whatever the libraries return, keys that are derived have the
  array lengths.
\<close>

lemma derive_keys_from_secret_wf:
  "derive_keys_from_secret lib secret = Ret (pk, hk) \<Longrightarrow> packet_key_wf pk \<and> header_key_wf hk"
  by (auto simp: derive_keys_from_secret_def into_array_def packet_key_wf_def header_key_wf_def
      split: bind_splits if_splits)

lemma derive_directional_wf: "derive_directional_keys lib cs ss side = Ret ks \<Longrightarrow> keys_wf ks"
  by (cases side) (auto simp: derive_directional_keys_def keys_wf_def dest!: derive_keys_from_secret_wf
      split: bind_splits)

lemma derive_mls_keys_wf: "derive_mls_keys lib ops g level side ctx = Ret (Inr ks) \<Longrightarrow> keys_wf ks"
  by (auto simp: derive_mls_keys_def dest: derive_directional_wf split: bind_splits sum.splits)

text \<open>What the code relies on of \<open>export_secret\<close>: no panic, and as many bytes as asked for.\<close>

definition exports_documented :: "('g, 'e) ExportSecret \<Rightarrow> 'g \<Rightarrow> bool" where
  "exports_documented ops g \<longleftrightarrow> (\<forall>label context n. \<exists>r. export_secret ops g label context n = Ret r
     \<and> (\<forall>secret. r = Inr secret \<longrightarrow> length secret = n))"

lemma exports_documentedE:
  assumes "exports_documented ops g"
  obtains e where "export_secret ops g l c n = Ret (Inl e)"
    | s where "export_secret ops g l c n = Ret (Inr s)" and "length s = n"
  using assms unfolding exports_documented_def by (metis sum.exhaust)

lemma derive_mls_keys_cases:
  assumes "hkdf_documented lib" and "exports_documented ops g"
  obtains (client_error) e where "export_secret ops g (ascii (''quic-mls c2s '' @ level)) ctx 32 = Ret (Inl e)"
      and "derive_mls_keys lib ops g level side ctx = Ret (Inl e)"
    | (server_error) cs e where "export_secret ops g (ascii (''quic-mls c2s '' @ level)) ctx 32 = Ret (Inr cs)"
      and "export_secret ops g (ascii (''quic-mls s2c '' @ level)) ctx 32 = Ret (Inl e)"
      and "derive_mls_keys lib ops g level side ctx = Ret (Inl e)"
    | (keys) cs ss ks where "export_secret ops g (ascii (''quic-mls c2s '' @ level)) ctx 32 = Ret (Inr cs)"
      and "export_secret ops g (ascii (''quic-mls s2c '' @ level)) ctx 32 = Ret (Inr ss)"
      and "derive_mls_keys lib ops g level side ctx = Ret (Inr ks)" and "keys_wf ks"
proof (cases rule: exports_documentedE [OF assms(2), of "ascii (''quic-mls c2s '' @ level)" ctx 32])
  case (1 e)
  then show ?thesis using client_error by (simp add: derive_mls_keys_def)
next
  case c: (2 cs)
  then show ?thesis
  proof (cases rule: exports_documentedE [OF assms(2), of "ascii (''quic-mls s2c '' @ level)" ctx 32])
    case (1 e)
    with c show ?thesis using server_error by (simp add: derive_mls_keys_def)
  next
    case (2 ss)
    with c derive_directional_Ret [OF assms(1), of cs ss side] show ?thesis
      using keys by (auto simp: derive_mls_keys_def)
  qed
qed

lemma derive_mls_keys_swap:
  "derive_mls_keys lib ops g level (other_side side) ctx
    = map_option (map_sum id swap_keys) (derive_mls_keys lib ops g level side ctx)"
proof -
  have "do { keys \<leftarrow> map_option swap_keys x; Ret (Inr keys) } =
      map_option (map_sum id swap_keys) (do { keys \<leftarrow> x; Ret (Inr keys :: 'b + Keys) })" for x
    by (cases x) simp_all
  then show ?thesis
    by (auto simp: derive_mls_keys_def derive_directional_swap bind_eq_None_conv split: bind_split sum.split)
qed

lemma derive_mls_keys_server:
  "derive_mls_keys lib ops g level Server ctx
    = map_option (map_sum id swap_keys) (derive_mls_keys lib ops g level Client ctx)"
  by (metis derive_mls_keys_swap other_side_simps(1))

lemma derive_initial_keys_server:
  "derive_initial_keys lib dst_cid Server = map_option swap_keys (derive_initial_keys lib dst_cid Client)"
  using derive_directional_swap [where side = Client]
  by (auto simp: derive_initial_keys_def split: bind_split)

text \<open>The keys depend on the group only through what it exports.\<close>

lemma derive_mls_keys_cong:
  "export_secret ops g = export_secret ops' g' \<Longrightarrow>
     derive_mls_keys lib ops g level side ctx = derive_mls_keys lib ops' g' level side ctx"
proof -
  assume e: "export_secret ops g = export_secret ops' g'"
  show ?thesis unfolding derive_mls_keys_def e ..
qed

text \<open>The keys seen through any wrapper of the group are those of the group inside it.\<close>

context export_secret_wrapper
begin

lemma derive_mls_keys_view:
  "ok s \<Longrightarrow> derive_mls_keys lib outer s level side ctx = derive_mls_keys lib inside (view s) level side ctx"
  by (intro derive_mls_keys_cong ext) (rule export_view)

end

text \<open>
  Both sides derive the same keys. The keys a server derives from a group are the keys a client
  derives from it with local and remote exchanged, for every level and context and for the Initial
  keys of a connection id, errors and panics included; and all derived keys have the lengths of the
  arrays they are stored in.
\<close>

lemma derived_keys_mirror:
  "derive_mls_keys lib ops g level Server ctx
     = map_option (map_sum id swap_keys) (derive_mls_keys lib ops g level Client ctx)
   \<and> derive_initial_keys lib dst_cid Server = map_option swap_keys (derive_initial_keys lib dst_cid Client)
   \<and> (case derive_mls_keys lib ops g level Client ctx of Some (Inr ks) \<Rightarrow> keys_wf ks | _ \<Rightarrow> True)"
proof (intro conjI)
  show "derive_mls_keys lib ops g level Server ctx
      = map_option (map_sum id swap_keys) (derive_mls_keys lib ops g level Client ctx)"
    by (rule derive_mls_keys_server)
  show "derive_initial_keys lib dst_cid Server = map_option swap_keys (derive_initial_keys lib dst_cid Client)"
    by (rule derive_initial_keys_server)
  show "case derive_mls_keys lib ops g level Client ctx of Some (Inr ks) \<Rightarrow> keys_wf ks | _ \<Rightarrow> True"
    by (auto dest: derive_mls_keys_wf split: option.split sum.split)
qed

text \<open>
  Key derivation does not panic. If the HKDF crate and the exporter behave as documented, the
  Initial keys are always derived, and \<open>derive_mls_keys\<close> returns keys if both exports of the level
  succeed and otherwise the first error.
\<close>

lemma derive_keys_no_panic:
  assumes "hkdf_documented lib" and "exports_documented ops g"
  shows "(\<exists>ks. derive_initial_keys lib dst_cid side = Ret ks \<and> keys_wf ks)
    \<and> (case (export_secret ops g (ascii (''quic-mls c2s '' @ level)) ctx 32,
            export_secret ops g (ascii (''quic-mls s2c '' @ level)) ctx 32) of
        (Some (Inr _), Some (Inr _)) \<Rightarrow> \<exists>ks. derive_mls_keys lib ops g level side ctx = Ret (Inr ks) \<and> keys_wf ks
      | (Some (Inr _), Some (Inl e)) \<Rightarrow> derive_mls_keys lib ops g level side ctx = Ret (Inl e)
      | (Some (Inl e), _) \<Rightarrow> derive_mls_keys lib ops g level side ctx = Ret (Inl e)
      | _ \<Rightarrow> False)"
proof
  let ?h = "hk_new lib (Some INITIAL_SALT) dst_cid"
  obtain cs ss where "hk_expand lib ?h (hkdf_label_info ''client in'' [] 32) 32 = Some cs" "length cs = 32"
    "hk_expand lib ?h (hkdf_label_info ''server in'' [] 32) 32 = Some ss" "length ss = 32"
    using hkdf_documentedD(2) [OF assms(1), of 32 ?h "hkdf_label_info ''client in'' [] 32"]
      hkdf_documentedD(2) [OF assms(1), of 32 ?h "hkdf_label_info ''server in'' [] 32"] by auto
  then show "\<exists>ks. derive_initial_keys lib dst_cid side = Ret ks \<and> keys_wf ks"
    using derive_directional_Ret [OF assms(1), of cs ss side]
    by (simp add: derive_initial_keys_def derive_initial_secrets_def)
next
  let ?c = "ascii (''quic-mls c2s '' @ level)" and ?s = "ascii (''quic-mls s2c '' @ level)"
  show "case (export_secret ops g ?c ctx 32, export_secret ops g ?s ctx 32) of
        (Some (Inr _), Some (Inr _)) \<Rightarrow> \<exists>ks. derive_mls_keys lib ops g level side ctx = Ret (Inr ks) \<and> keys_wf ks
      | (Some (Inr _), Some (Inl e)) \<Rightarrow> derive_mls_keys lib ops g level side ctx = Ret (Inl e)
      | (Some (Inl e), _) \<Rightarrow> derive_mls_keys lib ops g level side ctx = Ret (Inl e)
      | _ \<Rightarrow> False"
    by (rule derive_mls_keys_cases [OF assms, of level ctx side]) auto
qed

text \<open>
  Wrappers do not change keys. The testbed hands the session a box around the shared commit log;
  as long as no panic poisoned its mutex, the keys derived through the box, the mutex and the log are
  the keys of the MLS group inside, so commits, reports and trims change them only through the group.
\<close>

lemma keys_through_wrappers:
  assumes "\<not> poisoned m"
  shows "derive_mls_keys lib (box_dyn (arc_mutex (commit_log_ops ops))) m level side ctx
    = derive_mls_keys lib ops (inner (guarded m)) level side ctx"
  by (simp add: box.derive_mls_keys_view mutex.derive_mls_keys_view [OF assms] logged.derive_mls_keys_view)

subsection \<open>Packets between the two sides\<close>

text \<open>
  C26: A packet from one side opens at the other. With documented libraries, if a client and a server
  derive keys from groups that export the same secrets, then a packet the client protects with its
  local keys (payload first, then header) is unprotected and opened by the server's remote keys to
  the header and plaintext the client started from.
\<close>

theorem mls_keys_packet_exchange:
  assumes "aead_documented aead" and "aes_documented aes"
    and "export_secret ops_c gc = export_secret ops_s gs"
    and "derive_mls_keys lib ops_c gc level Client ctx = Ret (Inr ck)"
    and "derive_mls_keys lib ops_s gs level Server ctx = Ret (Inr sk)"
    and "length hdr = off + unat (hdr ! 0 AND 0x03) + 1" and "1 \<le> off" and "4 \<le> length pt"
    and "length hdr \<le> aead_max" and "length pt \<le> aead_max" and "length room = 16"
  shows "\<exists>payload wire.
      packet_encrypt aead (kp_local (packet ck)) pn (hdr @ pt @ room) (length hdr) = Ret (hdr @ payload)
    \<and> header_encrypt aes (kp_local (header ck)) off (hdr @ payload) = Ret wire
    \<and> header_decrypt aes (kp_remote (header sk)) off wire = Ret (hdr @ payload)
    \<and> packet_decrypt aead (kp_remote (packet sk)) pn hdr payload = Ret (pt, Inr ())"
proof -
  have "derive_mls_keys lib ops_s gs level Server ctx = derive_mls_keys lib ops_c gc level Server ctx"
    by (rule derive_mls_keys_cong) (rule assms(3) [symmetric])
  with assms(4,5) derive_mls_keys_server [of lib ops_c gc level ctx] have sk: "sk = swap_keys ck" by simp
  have wf: "packet_key_wf (kp_local (packet ck))" "header_key_wf (kp_local (header ck))"
    using derive_mls_keys_wf [OF assms(4)] by (simp_all add: keys_wf_def)
  obtain payload where p: "packet_encrypt aead (kp_local (packet ck)) pn (hdr @ pt @ room) (length hdr) = Ret (hdr @ payload)"
    "length payload = length pt + 16" "packet_decrypt aead (kp_local (packet ck)) pn hdr payload = Ret (pt, Inr ())"
    using packet_seal_unseal [OF assms(1,9-11), of "kp_local (packet ck)" pn] by blast
  have "off + 20 \<le> length (hdr @ payload)" using assms(6,8) p(2) by simp
  then obtain wire where "header_encrypt aes (kp_local (header ck)) off (hdr @ payload) = Ret wire"
    "header_decrypt aes (kp_local (header ck)) off wire = Ret (hdr @ payload)"
    using header_encrypt_decrypt [OF assms(2) wf(2) assms(7)] by blast
  with p sk show ?thesis by simp
qed

text \<open>
  C31: An unprotected packet has a full tag. Whatever bytes arrive, if header protection is removed
  without a panic, then cutting the packet after the packet number its first byte announces leaves a
  payload that packet protection decrypts without a panic: the sample size makes up for the tag
  length that \<open>decrypt\<close> does not check itself.
\<close>

theorem unprotected_packet_no_panic:
  assumes "aes_documented aes" and "header_key_wf hk" and "1 \<le> off"
    and "header_decrypt aes hk off p = Ret q"
  shows "packet_decrypt aead pk pn (take (off + unat (q ! 0 AND 0x03) + 1) q)
      (drop (off + unat (q ! 0 AND 0x03) + 1) q) \<noteq> Panic"
proof -
  have len: "off + 20 \<le> length p"
    using header_protection_panics_iff [OF assms(1,2), of off p] assms(4) by fastforce
  with header_decrypt_encrypt [OF assms(1-3)] assms(4) have "length q = length p" by fastforce
  with len pn_bytes_of_bounds(2) [of "q ! 0"]
  have "16 \<le> length (drop (off + unat (q ! 0 AND 0x03) + 1) q)" by (simp add: pn_bytes_of_def)
  then show ?thesis by (auto simp: packet_decrypt_def usize_sub_def split_at_def split: sum.splits)
qed

subsection \<open>Witnesses\<close>

text \<open>Keys that the sample group exports, for the witnesses.\<close>

lemma sample_exports: "exports_documented sample_ops g"
  by (simp add: exports_documented_def)

lemma derive_keys_no_panic_witness:
  "\<exists>ks. derive_mls_keys sample_hkdf sample_ops 3 ''0-rtt'' Client [] = Ret (Inr ks) \<and> keys_wf ks"
  using derive_keys_no_panic [OF sample_hkdf_documented sample_exports [of 3], of "[]" Client "''0-rtt''" "[]"] by simp

lemma sample_derive:
  obtains ks where "derive_mls_keys sample_hkdf sample_ops g level side ctx = Ret (Inr ks)"
  using derive_directional_Ret [OF sample_hkdf_documented, of "replicate 32 (word_of_nat g)" "replicate 32 (word_of_nat g)" side]
  by (auto simp: derive_mls_keys_def)

lemma keys_through_wrappers_witness:
  "derive_mls_keys sample_hkdf (box_dyn (arc_mutex (commit_log_ops sample_ops))) (mutex_new (sample_log 4 [] 1 1)) ''0-rtt'' Server []
    = derive_mls_keys sample_hkdf sample_ops 4 ''0-rtt'' Server []"
  using keys_through_wrappers [of "mutex_new (sample_log 4 [] 1 1)"] by (simp add: mutex_new_def sample_log_def)

lemma mls_keys_packet_exchange_witness:
  "\<exists>ck sk payload. derive_mls_keys sample_hkdf sample_ops 3 ''0-rtt'' Client [] = Ret (Inr ck)
    \<and> derive_mls_keys sample_hkdf sample_ops 3 ''0-rtt'' Server [] = Ret (Inr sk)
    \<and> packet_encrypt sample_aead (kp_local (packet ck)) 7 ([0x40, 7] @ [1, 2, 3, 4] @ replicate 16 0) 2 = Ret ([0x40, 7] @ payload)
    \<and> packet_decrypt sample_aead (kp_remote (packet sk)) 7 [0x40, 7] payload = Ret ([1, 2, 3, 4], Inr ())"
proof -
  obtain ck where c: "derive_mls_keys sample_hkdf sample_ops 3 ''0-rtt'' Client [] = Ret (Inr ck)"
    by (rule sample_derive)
  obtain sk where s: "derive_mls_keys sample_hkdf sample_ops 3 ''0-rtt'' Server [] = Ret (Inr sk)"
    by (rule sample_derive)
  have l: "length [0x40, 7 :: u8] = 1 + unat ([0x40, 7 :: u8] ! 0 AND 0x03) + 1" by simp
  show ?thesis
    using mls_keys_packet_exchange [OF sample_aead_documented sample_aes_documented refl c s l, of "[1, 2, 3, 4]" "replicate 16 0" 7] c s
    by (simp add: aead_max_ge numeral_2_eq_2) blast
qed

lemma unprotected_packet_no_panic_witness:
  "\<exists>q. header_decrypt sample_aes sample_header_key 1 (replicate 30 0) = Ret q
    \<and> packet_decrypt sample_aead sample_packet_key 0 (take (1 + unat (q ! 0 AND 0x03) + 1) q)
        (drop (1 + unat (q ! 0 AND 0x03) + 1) q) \<noteq> Panic"
proof -
  obtain q where "header_decrypt sample_aes sample_header_key 1 (replicate 30 0) = Ret q"
    using header_decrypt_encrypt [OF sample_aes_documented sample_header_key_wf, of 1 "replicate 30 0"] by auto
  with unprotected_packet_no_panic [OF sample_aes_documented sample_header_key_wf _ this, of sample_aead sample_packet_key 0]
  show ?thesis by auto
qed

end
