(* ===== verification/Retry.thy ===== *)
theory Retry
  imports Packet_Key
begin

text \<open>
  Retry integrity (\<open>quic-mls/src/retry.rs\<close>): the tag of a Retry packet is the AEAD tag of an empty
  plaintext whose associated data is the pseudo-packet (length of the original connection id, that
  id, the packet). The server computes it, the client verifies it.
\<close>

definition RETRY_INTEGRITY_KEY :: bytes where
  "RETRY_INTEGRITY_KEY =
     [0xbe, 0x0c, 0x69, 0x0b, 0x9f, 0x66, 0x57, 0x5a, 0x1d, 0x76, 0x6b, 0x54, 0xe3, 0x68, 0xc8, 0x4e]"

definition RETRY_INTEGRITY_NONCE :: bytes where
  "RETRY_INTEGRITY_NONCE = [0x46, 0x15, 0x99, 0xd3, 0x5d, 0x63, 0x2b, 0xf2, 0x23, 0x98, 0x25, 0xbb]"

definition compute_retry_tag :: "aead_lib \<Rightarrow> bytes \<Rightarrow> bytes \<Rightarrow> bytes panics" where
  "compute_retry_tag aead orig_dst_cid pkt = do {
     let pseudo_packet = [word_of_nat (length orig_dst_cid)] @ orig_dst_cid @ pkt;
     (_, tag) \<leftarrow> gcm_encrypt aead RETRY_INTEGRITY_KEY RETRY_INTEGRITY_NONCE pseudo_packet [];
     copy_from_slice (replicate 16 0) tag
   }"

definition verify_retry_tag :: "aead_lib \<Rightarrow> bytes \<Rightarrow> bytes \<Rightarrow> bytes \<Rightarrow> bool panics" where
  "verify_retry_tag aead orig_dst_cid hdr payload =
     (case usize_sub (length payload) 16 of
        None \<Rightarrow> Ret False
      | Some tag_start \<Rightarrow> do {
          body \<leftarrow> sub_slice payload 0 tag_start;
          let pseudo_packet = [word_of_nat (length orig_dst_cid)] @ orig_dst_cid @ hdr @ body;
          tag \<leftarrow> sub_slice payload tag_start (length payload);
          tag \<leftarrow> (if length tag = 16 then Ret tag else Panic);
          Ret (case gcm_decrypt aead RETRY_INTEGRITY_KEY RETRY_INTEGRITY_NONCE pseudo_packet [] tag of
                 Inl _ \<Rightarrow> False | Inr _ \<Rightarrow> True)
        })"

lemma verify_retry_tag_eq:
  "length tag = 16 \<Longrightarrow> verify_retry_tag aead cid hdr (body @ tag) =
     Ret (\<exists>pt. gcm_decrypt aead RETRY_INTEGRITY_KEY RETRY_INTEGRITY_NONCE
        (word_of_nat (length cid) # cid @ hdr @ body) [] tag = Inr pt)"
  by (auto simp: verify_retry_tag_def usize_sub_def sub_slice_def Let_def split: sum.split)

lemma compute_retry_tag_Some:
  assumes "aead_documented aead" and "length cid + length pkt < aead_max"
  obtains tag where "compute_retry_tag aead cid pkt = Ret tag" and "length tag = 16"
    and "gcm_encrypt aead RETRY_INTEGRITY_KEY RETRY_INTEGRITY_NONCE (word_of_nat (length cid) # cid @ pkt) [] = Some ([], tag)"
    and "gcm_decrypt aead RETRY_INTEGRITY_KEY RETRY_INTEGRITY_NONCE (word_of_nat (length cid) # cid @ pkt) [] tag = Inr []"
proof -
  have "length (word_of_nat (length cid) # cid @ pkt) \<le> aead_max" using assms(2) by simp
  from aead_documentedD(1) [OF assms(1) this, of "[]" RETRY_INTEGRITY_KEY RETRY_INTEGRITY_NONCE] that
  show ?thesis by (auto simp: compute_retry_tag_def copy_from_slice_def)
qed

text \<open>
  C36: Retry tags. With a documented AEAD, verification never panics and accepts exactly the payloads
  that end in the tag the server computes for the original connection id and the bytes before the
  tag, however those bytes are split between header and payload; in particular a payload shorter
  than a tag is refused and every tag the server computes is accepted.
\<close>

theorem verify_retry_tag_iff:
  assumes "aead_documented aead" and "length cid + length hdr + length payload < aead_max"
  shows "verify_retry_tag aead cid hdr payload =
    Ret (\<exists>body tag. payload = body @ tag \<and> length tag = 16 \<and> compute_retry_tag aead cid (hdr @ body) = Ret tag)"
proof (cases "length payload < 16")
  case True
  then show ?thesis by (auto simp: verify_retry_tag_def usize_sub_def)
next
  case False
  define body where "body = take (length payload - 16) payload"
  define tag where "tag = drop (length payload - 16) payload"
  have p: "payload = body @ tag" and tag: "length tag = 16" using False by (simp_all add: body_def tag_def)
  have "length cid + length (hdr @ body) < aead_max" using assms(2) p by simp
  then obtain t where t: "compute_retry_tag aead cid (hdr @ body) = Ret t" "length t = 16"
    "gcm_encrypt aead RETRY_INTEGRITY_KEY RETRY_INTEGRITY_NONCE (word_of_nat (length cid) # cid @ hdr @ body) [] = Some ([], t)"
    "gcm_decrypt aead RETRY_INTEGRITY_KEY RETRY_INTEGRITY_NONCE (word_of_nat (length cid) # cid @ hdr @ body) [] t = Inr []"
    by (rule compute_retry_tag_Some [OF assms(1)])
  have "(\<exists>pt. gcm_decrypt aead RETRY_INTEGRITY_KEY RETRY_INTEGRITY_NONCE
      (word_of_nat (length cid) # cid @ hdr @ body) [] tag = Inr pt) \<longleftrightarrow> tag = t"
    using aead_documentedD(2) [OF assms(1), of RETRY_INTEGRITY_KEY RETRY_INTEGRITY_NONCE
        "word_of_nat (length cid) # cid @ hdr @ body" "[]" tag] t(3,4) by fastforce
  moreover have "(\<exists>b u. payload = b @ u \<and> length u = 16 \<and> compute_retry_tag aead cid (hdr @ b) = Ret u) \<longleftrightarrow> tag = t"
    using p tag t(1) by auto
  ultimately show ?thesis using p tag by (simp add: verify_retry_tag_eq)
qed

text \<open>
  What a Retry tag authenticates. Connection ids of at most 255 bytes are delimited by their
  length byte, so nothing is conflated before the AEAD sees it: two calls of \<open>compute_retry_tag\<close>
  agree under every AEAD only if connection id and packet are the same.
\<close>

lemma retry_tag_binds:
  assumes "length cid1 \<le> 255" and "length cid2 \<le> 255"
  shows "(\<forall>aead. compute_retry_tag aead cid1 p1 = compute_retry_tag aead cid2 p2) \<longleftrightarrow> cid1 = cid2 \<and> p1 = p2"
proof
  assume all: "\<forall>aead. compute_retry_tag aead cid1 p1 = compute_retry_tag aead cid2 p2"
  let ?aad = "word_of_nat (length cid1) # cid1 @ p1"
  define aead where "aead = \<lparr>gcm_encrypt = (\<lambda>k n aad pt. Some ([], replicate 16 (if aad = ?aad then 1 else 0))),
    gcm_decrypt = (\<lambda>k n aad ct tag. Inl ct)\<rparr>"
  from all have "compute_retry_tag aead cid1 p1 = compute_retry_tag aead cid2 p2" by blast
  then have "word_of_nat (length cid2) # cid2 @ p2 = ?aad"
    by (auto simp: aead_def compute_retry_tag_def copy_from_slice_def split: if_splits)
  moreover have "length cid1 = length cid2"
    using calculation assms byte_len_inj [of "length cid2" "length cid1"] by simp
  ultimately show "cid1 = cid2 \<and> p1 = p2" by simp
qed simp

subsection \<open>Witnesses\<close>

lemma verify_retry_tag_iff_witness:
  "\<exists>tag. compute_retry_tag sample_aead [1, 2, 3] [9, 8, 7] = Ret tag
    \<and> verify_retry_tag sample_aead [1, 2, 3] [9, 8] ([7] @ tag) = Ret True"
proof -
  obtain tag where tag: "compute_retry_tag sample_aead [1, 2, 3] [9, 8, 7] = Ret tag" "length tag = 16"
    by (rule compute_retry_tag_Some [OF sample_aead_documented, of "[1, 2, 3]" "[9, 8, 7]"]) (simp_all add: aead_max_def)
  then have "\<exists>body u. [7] @ tag = body @ u \<and> length u = 16
      \<and> compute_retry_tag sample_aead [1, 2, 3] ([9, 8] @ body) = Ret u"
    by (intro exI [of _ "[7]"] exI [of _ tag]) simp
  moreover have "length [1, 2, 3 :: u8] + length [9, 8 :: u8] + length ([7] @ tag) < aead_max"
    using tag(2) by (simp add: aead_max_def)
  ultimately show ?thesis
    using verify_retry_tag_iff [OF sample_aead_documented, of "[1, 2, 3]" "[9, 8]" "[7] @ tag"] tag(1) by simp
qed

lemma retry_tag_binds_witness:
  "\<exists>aead. compute_retry_tag aead [1] [2, 3] \<noteq> compute_retry_tag aead [1, 2] [3]"
  using retry_tag_binds [of "[1]" "[1, 2]" "[2, 3]" "[3]"] by auto

end
