(* ===== verification/Session.thy ===== *)
theory Session
  imports Keys Retry
begin

text \<open>
  The QUIC session that replaces the TLS handshake (\<open>quic-mls/src/session.rs\<close>): the record
  \<open>MlsSession\<close>, one definition per method of the trait \<open>Session\<close>, and the session as a machine
  whose events are those calls plus a change of the group by another owner of the shared
  \<open>Arc<Mutex<..>>\<close>. \<open>TransportParameters\<close> and \<open>VarInt\<close> of \<open>quinn_proto\<close> are parameters.
\<close>

datatype HsState = Initial | AwaitingZeroRttKeys | ConfirmingZeroRttKeys | Done

fun hs_rank :: "HsState \<Rightarrow> nat" where
  "hs_rank Initial = 0"
| "hs_rank AwaitingZeroRttKeys = 1"
| "hs_rank ConfirmingZeroRttKeys = 2"
| "hs_rank Done = 3"

lemma hs_rank_inj: "hs_rank a = hs_rank b \<longleftrightarrow> a = b"
  by (cases a; cases b) simp_all

instantiation HsState :: linorder
begin

definition less_eq_HsState :: "HsState \<Rightarrow> HsState \<Rightarrow> bool" where
  "less_eq_HsState a b \<longleftrightarrow> hs_rank a \<le> hs_rank b"

definition less_HsState :: "HsState \<Rightarrow> HsState \<Rightarrow> bool" where
  "less_HsState a b \<longleftrightarrow> hs_rank a < hs_rank b"

instance
  by intro_classes (auto simp: less_eq_HsState_def less_HsState_def hs_rank_inj)

end

definition TP_INITIAL_MAX_DATA :: u64 where "TP_INITIAL_MAX_DATA = 0x04"
definition TP_INITIAL_MAX_STREAM_DATA_BIDI_REMOTE :: u64 where "TP_INITIAL_MAX_STREAM_DATA_BIDI_REMOTE = 0x06"
definition TP_INITIAL_MAX_STREAMS_BIDI :: u64 where "TP_INITIAL_MAX_STREAMS_BIDI = 0x08"

record ('v, 'tp, 'te) tp_lib =
  varint_from_u64 :: "u64 \<Rightarrow> 'v option"
  varint_encode :: "'v \<Rightarrow> bytes"
  tp_read :: "Side \<Rightarrow> bytes \<Rightarrow> 'te + 'tp"
  tp_write :: "'tp \<Rightarrow> bytes"

definition encode_transport_param :: "('v, 'tp, 'te) tp_lib \<Rightarrow> bytes \<Rightarrow> u64 \<Rightarrow> u64 \<Rightarrow> bytes panics" where
  "encode_transport_param tpl buf ident val = do {
     v \<leftarrow> varint_from_u64 tpl val;
     let encoded_value = varint_encode tpl v;
     i \<leftarrow> varint_from_u64 tpl ident;
     let buf = buf @ varint_encode tpl i;
     l \<leftarrow> varint_from_u64 tpl (word_of_nat (length encoded_value));
     let buf = buf @ varint_encode tpl l;
     Ret (buf @ encoded_value)
   }"

definition synthetic_cached_peer_params :: "('v, 'tp, 'te) tp_lib \<Rightarrow> Side \<Rightarrow> 'tp panics" where
  "synthetic_cached_peer_params tpl side = do {
     let buf = [];
     buf \<leftarrow> encode_transport_param tpl buf TP_INITIAL_MAX_DATA 65536;
     buf \<leftarrow> encode_transport_param tpl buf TP_INITIAL_MAX_STREAM_DATA_BIDI_REMOTE 65536;
     buf \<leftarrow> encode_transport_param tpl buf TP_INITIAL_MAX_STREAMS_BIDI 1;
     result_ok (tp_read tpl side buf)
   }"

record ('g, 'tp) MlsSession =
  group :: 'g
  side :: Side
  state :: HsState
  local_params :: 'tp
  peer_params :: "'tp option"
  cached_peer_params :: "'tp option"
  key_update_generation :: u64
  pinned_zero_rtt_upgrade_keys :: "Keys option"
  pinned_zero_rtt_keys :: "Keys option"

definition session_new :: "('v, 'tp, 'te) tp_lib \<Rightarrow> 'g \<Rightarrow> Side \<Rightarrow> 'tp \<Rightarrow> ('g, 'tp) MlsSession panics" where
  "session_new tpl g sd params = do {
     cached \<leftarrow> (if sd = Client then map_option Some (synthetic_cached_peer_params tpl sd) else Ret None);
     Ret \<lparr>group = g, side = sd, state = Initial, local_params = params,
          peer_params = None, cached_peer_params = cached, key_update_generation = 0,
          pinned_zero_rtt_upgrade_keys = None, pinned_zero_rtt_keys = None\<rparr>
   }"

definition session_create_commit ::
    "('g, 'e) ExportSecret \<Rightarrow> ('g, 'tp) MlsSession \<Rightarrow> (('e + bytes) \<times> ('g, 'tp) MlsSession) panics" where
  "session_create_commit ops s = do {
     (r, g) \<leftarrow> create_commit ops (group s);
     Ret (r, s\<lparr>group := g\<rparr>)
   }"

definition session_apply_commit ::
    "('g, 'e) ExportSecret \<Rightarrow> ('g, 'tp) MlsSession \<Rightarrow> bytes \<Rightarrow> (('e + unit) \<times> ('g, 'tp) MlsSession) panics" where
  "session_apply_commit ops s commit = do {
     (r, g) \<leftarrow> apply_commit ops (group s) commit;
     Ret (r, s\<lparr>group := g\<rparr>)
   }"

subsection \<open>The methods of the trait\<close>

definition initial_keys :: "'h hkdf_lib \<Rightarrow> ('g, 'tp) MlsSession \<Rightarrow> bytes \<Rightarrow> Side \<Rightarrow> Keys panics" where
  "initial_keys lib s dst_cid sd = derive_initial_keys lib dst_cid sd"

definition is_handshaking :: "('g, 'tp) MlsSession \<Rightarrow> bool" where
  "is_handshaking s \<longleftrightarrow> \<not> (case state s of Done \<Rightarrow> True | _ \<Rightarrow> False)"

definition handshake_data :: "('g, 'tp) MlsSession \<Rightarrow> 'any option" where
  "handshake_data s = None"

definition peer_identity :: "('g, 'tp) MlsSession \<Rightarrow> 'any option" where
  "peer_identity s = None"

definition early_crypto ::
    "'h hkdf_lib \<Rightarrow> ('g, 'e) ExportSecret \<Rightarrow> ('g, 'tp) MlsSession
      \<Rightarrow> (Aes128EcbHeaderKey \<times> Aes128GcmPacketKey) option panics" where
  "early_crypto lib ops s = do {
     r \<leftarrow> derive_mls_keys lib ops (group s) ''0-rtt'' (side s) [];
     case result_ok r of
       None \<Rightarrow> Ret None
     | Some keys \<Rightarrow>
         let (hk, pk) = (case side s of
               Client \<Rightarrow> (kp_local (header keys), kp_local (packet keys))
             | Server \<Rightarrow> (kp_remote (header keys), kp_remote (packet keys)))
         in Ret (Some (hk, pk))
   }"

definition early_data_accepted :: "('g, 'tp) MlsSession \<Rightarrow> bool option" where
  "early_data_accepted s = Some True"

definition write_handshake ::
    "'h hkdf_lib \<Rightarrow> ('g, 'e) ExportSecret \<Rightarrow> ('v, 'tp, 'te) tp_lib \<Rightarrow> ('g, 'tp) MlsSession \<Rightarrow> bytes
      \<Rightarrow> (Keys option \<times> bytes \<times> ('g, 'tp) MlsSession) panics" where
  "write_handshake lib ops tpl s buf =
     (case state s of
        Initial \<Rightarrow> do {
          let buf = buf @ tp_write tpl (local_params s);
          r \<leftarrow> derive_mls_keys lib ops (group s) ''0-rtt'' (side s) [];
          let s = s\<lparr>pinned_zero_rtt_upgrade_keys := result_ok r\<rparr>;
          r \<leftarrow> derive_mls_keys lib ops (group s) ''0-rtt'' (side s) [];
          let s = s\<lparr>pinned_zero_rtt_keys := result_ok r\<rparr>;
          let s = s\<lparr>state := AwaitingZeroRttKeys\<rparr>;
          Ret (None, buf, s)
        }
      | AwaitingZeroRttKeys \<Rightarrow>
          if peer_params s = None then Ret (None, buf, s)
          else
            let s = s\<lparr>state := ConfirmingZeroRttKeys\<rparr>
            in Ret (pinned_zero_rtt_upgrade_keys s, buf, s\<lparr>pinned_zero_rtt_upgrade_keys := None\<rparr>)
      | ConfirmingZeroRttKeys \<Rightarrow>
          let buf = buf @ [0];
              s = s\<lparr>state := Done\<rparr>
          in Ret (pinned_zero_rtt_keys s, buf, s\<lparr>pinned_zero_rtt_keys := None\<rparr>)
      | Done \<Rightarrow> Ret (None, buf, s))"

definition read_handshake ::
    "('v, 'tp, 'te) tp_lib \<Rightarrow> ('g, 'tp) MlsSession \<Rightarrow> bytes \<Rightarrow> ('te + bool) \<times> ('g, 'tp) MlsSession" where
  "read_handshake tpl s buf =
     (if peer_params s = None then
        (case tp_read tpl (side s) buf of
           Inl e \<Rightarrow> (Inl e, s)
         | Inr params \<Rightarrow> (Inr False, s\<lparr>peer_params := Some params\<rparr>))
      else (Inr False, s))"

definition transport_parameters :: "('g, 'tp) MlsSession \<Rightarrow> 'te + 'tp option" where
  "transport_parameters s =
     Inr (case peer_params s of Some p \<Rightarrow> Some p | None \<Rightarrow> cached_peer_params s)"

definition next_1rtt_keys ::
    "'h hkdf_lib \<Rightarrow> ('g, 'e) ExportSecret \<Rightarrow> ('g, 'tp) MlsSession
      \<Rightarrow> (Aes128GcmPacketKey KeyPair option \<times> ('g, 'tp) MlsSession) panics" where
  "next_1rtt_keys lib ops s = do {
     let s = s\<lparr>key_update_generation := key_update_generation s + 1\<rparr>;
     r \<leftarrow> derive_mls_keys lib ops (group s) ''0-rtt'' (side s) (u64_to_be_bytes (key_update_generation s));
     keys \<leftarrow> result_ok r;
     Ret (Some (packet keys), s)
   }"

definition is_valid_retry :: "aead_lib \<Rightarrow> ('g, 'tp) MlsSession \<Rightarrow> bytes \<Rightarrow> bytes \<Rightarrow> bytes \<Rightarrow> bool panics" where
  "is_valid_retry aead s orig_dst_cid hdr payload = verify_retry_tag aead orig_dst_cid hdr payload"

datatype ExportKeyingMaterialError = ExportKeyingMaterialError

definition export_keying_material ::
    "('g, 'tp) MlsSession \<Rightarrow> bytes \<Rightarrow> bytes \<Rightarrow> bytes \<Rightarrow> (ExportKeyingMaterialError + unit) \<times> bytes" where
  "export_keying_material s output label context = (Inl ExportKeyingMaterialError, output)"

subsection \<open>The session as a machine\<close>

text \<open>
  One event is one call that takes \<open>&mut self\<close>, or a change of the group by another holder of the
  shared handle. \<open>session_event\<close> also returns the keys a call of \<open>write_handshake\<close> hands out.
\<close>

datatype 'g session_input =
  WriteHandshake bytes | ReadHandshake bytes | Next1RttKeys | CreateCommit | ApplyCommit bytes | SharedGroup 'g

fun session_event ::
    "'h hkdf_lib \<Rightarrow> ('g, 'e) ExportSecret \<Rightarrow> ('v, 'tp, 'te) tp_lib \<Rightarrow> 'g session_input
      \<Rightarrow> ('g, 'tp) MlsSession \<Rightarrow> (Keys option \<times> ('g, 'tp) MlsSession) panics" where
  "session_event lib ops tpl (WriteHandshake buf) s = do {
     (keys, _, s') \<leftarrow> write_handshake lib ops tpl s buf; Ret (keys, s') }"
| "session_event lib ops tpl (ReadHandshake buf) s = Ret (None, snd (read_handshake tpl s buf))"
| "session_event lib ops tpl Next1RttKeys s = do {
     (_, s') \<leftarrow> next_1rtt_keys lib ops s; Ret (None, s') }"
| "session_event lib ops tpl CreateCommit s = do {
     (_, s') \<leftarrow> session_create_commit ops s; Ret (None, s') }"
| "session_event lib ops tpl (ApplyCommit commit) s = do {
     (_, s') \<leftarrow> session_apply_commit ops s commit; Ret (None, s') }"
| "session_event lib ops tpl (SharedGroup g) s = Ret (None, s\<lparr>group := g\<rparr>)"

text \<open>A run of events, with the keys handed out, in order.\<close>

fun session_run ::
    "'h hkdf_lib \<Rightarrow> ('g, 'e) ExportSecret \<Rightarrow> ('v, 'tp, 'te) tp_lib \<Rightarrow> 'g session_input list
      \<Rightarrow> ('g, 'tp) MlsSession \<Rightarrow> (Keys list \<times> ('g, 'tp) MlsSession) panics" where
  "session_run lib ops tpl [] s = Ret ([], s)"
| "session_run lib ops tpl (ev # evs) s = do {
     (k, s) \<leftarrow> session_event lib ops tpl ev s;
     (ks, s) \<leftarrow> session_run lib ops tpl evs s;
     Ret (case k of None \<Rightarrow> ks | Some k \<Rightarrow> k # ks, s)
   }"

inductive session_step ::
    "'h hkdf_lib \<Rightarrow> ('g, 'e) ExportSecret \<Rightarrow> ('v, 'tp, 'te) tp_lib \<Rightarrow>
      ('g, 'tp) MlsSession \<Rightarrow> ('g, 'tp) MlsSession \<Rightarrow> bool" for lib ops tpl where
  session_stepI: "session_event lib ops tpl ev s = Ret (k, t) \<Longrightarrow> session_step lib ops tpl s t"

inductive_cases session_stepE: "session_step lib ops tpl s t"

text \<open>What every event does to the fields the handshake depends on.\<close>

definition same_pins :: "('g, 'tp) MlsSession \<Rightarrow> ('g, 'tp) MlsSession \<Rightarrow> bool" where
  "same_pins s t \<longleftrightarrow> state t = state s
     \<and> pinned_zero_rtt_upgrade_keys t = pinned_zero_rtt_upgrade_keys s
     \<and> pinned_zero_rtt_keys t = pinned_zero_rtt_keys s
     \<and> (peer_params s \<noteq> None \<longrightarrow> peer_params t = peer_params s)"

definition same_setup :: "('g, 'tp) MlsSession \<Rightarrow> ('g, 'tp) MlsSession \<Rightarrow> bool" where
  "same_setup s t \<longleftrightarrow> side t = side s \<and> local_params t = local_params s \<and> cached_peer_params t = cached_peer_params s"

lemma same_setup_trans: "same_setup s t \<Longrightarrow> same_setup t u \<Longrightarrow> same_setup s u"
  by (simp add: same_setup_def)

lemma read_handshake_pins: "same_pins s (snd (read_handshake tpl s buf))"
  by (auto simp: read_handshake_def same_pins_def split: sum.split)

lemma event_pins:
  assumes "session_event lib ops tpl ev s = Ret (k, t)" and "\<And>buf. ev \<noteq> WriteHandshake buf"
  shows "k = None \<and> same_pins s t"
proof (cases ev)
  case (ReadHandshake buf)
  with assms(1) read_handshake_pins [of s tpl buf] show ?thesis by auto
qed (use assms in \<open>auto simp: same_pins_def next_1rtt_keys_def session_create_commit_def
    session_apply_commit_def Let_def split: bind_splits\<close>)

lemma event_setup:
  assumes "session_event lib ops tpl ev s = Ret (k, t)"
  shows "same_setup s t"
  using assms
  by (cases ev)
    (auto simp: same_setup_def write_handshake_def read_handshake_def next_1rtt_keys_def
      session_create_commit_def session_apply_commit_def Let_def
      split: bind_splits HsState.splits if_splits sum.splits)

text \<open>One call of \<open>write_handshake\<close>, by state.\<close>

lemma write_Awaiting:
  "state s = AwaitingZeroRttKeys \<Longrightarrow> write_handshake lib ops tpl s buf =
     (if peer_params s = None then Ret (None, buf, s)
      else Ret (pinned_zero_rtt_upgrade_keys s, buf,
             s\<lparr>state := ConfirmingZeroRttKeys, pinned_zero_rtt_upgrade_keys := None\<rparr>))"
  by (simp add: write_handshake_def Let_def)

lemma write_Confirming:
  "state s = ConfirmingZeroRttKeys \<Longrightarrow> write_handshake lib ops tpl s buf =
     Ret (pinned_zero_rtt_keys s, buf @ [0], s\<lparr>state := Done, pinned_zero_rtt_keys := None\<rparr>)"
  by (simp add: write_handshake_def Let_def)

lemma write_Done: "state s = Done \<Longrightarrow> write_handshake lib ops tpl s buf = Ret (None, buf, s)"
  by (simp add: write_handshake_def)

lemma write_Initial:
  "state s = Initial \<Longrightarrow> write_handshake lib ops tpl s buf =
     map_option (\<lambda>r. (None, buf @ tp_write tpl (local_params s),
         s\<lparr>pinned_zero_rtt_upgrade_keys := result_ok r, pinned_zero_rtt_keys := result_ok r,
           state := AwaitingZeroRttKeys\<rparr>))
       (derive_mls_keys lib ops (group s) ''0-rtt'' (side s) [])"
  by (cases "derive_mls_keys lib ops (group s) ''0-rtt'' (side s) []") (simp_all add: write_handshake_def Let_def)

lemmas write_simps = write_Initial write_Awaiting write_Confirming write_Done

subsection \<open>Progress\<close>

lemma event_progress:
  assumes "session_event lib ops tpl ev s = Ret (k, t)"
  shows "state s \<le> state t"
proof (cases "\<exists>buf. ev = WriteHandshake buf")
  case True
  with assms show ?thesis
    by (cases "state s") (auto simp: write_simps less_eq_HsState_def split: bind_splits if_splits)
next
  case False
  with event_pins [OF assms] show ?thesis by (auto simp: same_pins_def)
qed

interpretation handshake: machine_progress "session_step lib ops tpl" state for lib ops tpl
  by unfold_locales (auto elim!: session_stepE dest: event_progress)

lemma event_keeps_params:
  assumes "session_event lib ops tpl ev s = Ret (k, t)" and "peer_params s \<noteq> None"
  shows "peer_params t = peer_params s"
proof (cases "\<exists>buf. ev = WriteHandshake buf")
  case True
  with assms show ?thesis
    by (cases "state s") (auto simp: write_simps split: bind_splits if_splits)
next
  case False
  with event_pins [OF assms(1)] assms(2) show ?thesis by (auto simp: same_pins_def)
qed

lemma steps_keep_params:
  "(session_step lib ops tpl)\<^sup>*\<^sup>* s t \<Longrightarrow>
     same_setup s t \<and> (peer_params s \<noteq> None \<longrightarrow> peer_params t = peer_params s)"
  by (induction rule: rtranclp_induct)
    (auto elim!: session_stepE dest: event_keeps_params event_setup intro: same_setup_trans, simp add: same_setup_def)

text \<open>
  The handshake only moves forward. Whatever calls are made on a session and however the shared
  group changes, its handshake state never goes back, its side and its own parameters never change,
  and the peer's transport parameters, once read, stay the ones read first and are from then on what
  \<open>transport_parameters\<close> returns.
\<close>

lemma handshake_moves_forward:
  fixes tpl :: "('v, 'tp, 'te) tp_lib" and s t :: "('g, 'tp) MlsSession"
  assumes "(session_step lib ops tpl)\<^sup>*\<^sup>* s t"
  shows "state s \<le> state t \<and> side t = side s \<and> local_params t = local_params s
    \<and> (peer_params s = Some p \<longrightarrow> peer_params t = Some p \<and> (transport_parameters t :: 'te + 'tp option) = Inr (Some p))
    \<and> (is_handshaking t \<longrightarrow> is_handshaking s)"
proof -
  have le: "state s \<le> state t" using assms by (rule handshake.steps_rank)
  then have "is_handshaking t \<longrightarrow> is_handshaking s"
    by (cases "state s"; cases "state t") (simp_all add: is_handshaking_def less_eq_HsState_def)
  with le steps_keep_params [OF assms] show ?thesis
    by (auto simp: same_setup_def transport_parameters_def)
qed

subsection \<open>The keys handed out\<close>

text \<open>The session after its first write, when the derivation gave \<open>k\<close>.\<close>

definition pinned :: "Keys option \<Rightarrow> ('g, 'tp) MlsSession \<Rightarrow> bool" where
  "pinned k s \<longleftrightarrow> (case state s of
       Initial \<Rightarrow> False
     | AwaitingZeroRttKeys \<Rightarrow> pinned_zero_rtt_upgrade_keys s = k \<and> pinned_zero_rtt_keys s = k
     | ConfirmingZeroRttKeys \<Rightarrow> pinned_zero_rtt_keys s = k \<and> peer_params s \<noteq> None
     | Done \<Rightarrow> peer_params s \<noteq> None)"

definition copies :: "nat \<Rightarrow> 'k option \<Rightarrow> 'k list" where
  "copies n k = (case k of None \<Rightarrow> [] | Some k \<Rightarrow> replicate n k)"

lemma copies_0 [simp]: "copies 0 k = []"
  by (simp add: copies_def split: option.split)

lemma copies_Suc: "copies (Suc n) k = (case k of None \<Rightarrow> copies n k | Some x \<Rightarrow> x # copies n k)"
  by (simp add: copies_def split: option.split)

lemma event_pinned:
  assumes "session_event lib ops tpl ev s = Ret (r, t)" and "pinned k s"
  shows "pinned k t \<and> (state t = state s \<and> r = None \<or> hs_rank (state t) = Suc (hs_rank (state s)) \<and> r = k)"
proof (cases "\<exists>buf. ev = WriteHandshake buf")
  case True
  with assms show ?thesis
    by (cases "state s") (auto simp: write_simps pinned_def split: if_splits)
next
  case False
  with event_pins [OF assms(1)] assms(2) show ?thesis
    by (auto simp: same_pins_def pinned_def split: HsState.splits)
qed

lemma run_pinned:
  "session_run lib ops tpl evs s = Ret (ks, t) \<Longrightarrow> pinned k s \<Longrightarrow>
     pinned k t \<and> hs_rank (state s) \<le> hs_rank (state t) \<and> ks = copies (hs_rank (state t) - hs_rank (state s)) k"
proof (induction evs arbitrary: s ks)
  case (Cons ev evs)
  then obtain r s' ks' where ev: "session_event lib ops tpl ev s = Ret (r, s')"
    and run: "session_run lib ops tpl evs s' = Ret (ks', t)"
    and ks: "ks = (case r of None \<Rightarrow> ks' | Some k \<Rightarrow> k # ks')"
    by (auto split: bind_splits)
  from event_pinned [OF ev Cons.prems(2)] have p: "pinned k s'"
    and st: "state s' = state s \<and> r = None \<or> hs_rank (state s') = Suc (hs_rank (state s)) \<and> r = k" by auto
  from Cons.IH [OF run p] have t: "pinned k t" "hs_rank (state s') \<le> hs_rank (state t)"
    "ks' = copies (hs_rank (state t) - hs_rank (state s')) k" by auto
  from st show ?case
  proof
    assume "state s' = state s \<and> r = None"
    with t ks show ?case by simp
  next
    assume r: "hs_rank (state s') = Suc (hs_rank (state s)) \<and> r = k"
    with t(2) have "hs_rank (state t) - hs_rank (state s) = Suc (hs_rank (state t) - hs_rank (state s'))" by simp
    then have "ks = copies (hs_rank (state t) - hs_rank (state s)) k"
      using ks t(3) r by (simp only: copies_Suc)
    with r t(1,2) show ?case by simp
  qed
qed simp

lemma first_write_pins:
  assumes "state s = Initial" and "derive_mls_keys lib ops (group s) ''0-rtt'' (side s) [] = Ret r"
    and "session_run lib ops tpl (WriteHandshake buf # evs) s = Ret (ks, t)"
  shows "pinned (result_ok r) t \<and> ks = copies (hs_rank (state t) - 1) (result_ok r)"
proof -
  from assms obtain s' where "session_run lib ops tpl evs s' = Ret (ks, t)" "pinned (result_ok r) s'"
    "state s' = AwaitingZeroRttKeys"
    by (auto simp: write_Initial pinned_def split: bind_splits)
  with run_pinned [of lib ops tpl evs s' ks t] show ?thesis by fastforce
qed

text \<open>
  C24: Keys are pinned by the first write. The keys that all later calls of \<open>write_handshake\<close> hand
  out are those exported from the group as it was at the first call, whatever commits are created,
  applied or made by another owner of the group in between; they are handed out once per step past
  \<open>AwaitingZeroRttKeys\<close>, so at most twice, and only after the peer's parameters were read. If the
  export failed at the first call, no keys are ever handed out.
\<close>

theorem handshake_keys_pinned:
  assumes "state s = Initial" and "derive_mls_keys lib ops (group s) ''0-rtt'' (side s) [] = Ret r"
    and "session_run lib ops tpl (WriteHandshake buf # evs) s = Ret (ks, t)"
  shows "ks = (case r of Inl _ \<Rightarrow> [] | Inr k \<Rightarrow> replicate (hs_rank (state t) - 1) k)
    \<and> length ks \<le> 2 \<and> (ks \<noteq> [] \<longrightarrow> peer_params t \<noteq> None)"
proof -
  from first_write_pins [OF assms] have p: "pinned (result_ok r) t"
    and ks: "ks = copies (hs_rank (state t) - 1) (result_ok r)" by auto
  have "hs_rank (state t) - 1 \<le> 2" by (cases "state t") simp_all
  moreover have "length ks \<le> hs_rank (state t) - 1" using ks by (simp add: copies_def split: option.split)
  ultimately have "length ks \<le> 2" by (rule le_trans [rotated])
  moreover have "peer_params t \<noteq> None" if "ks \<noteq> []"
    using p ks that by (cases "state t") (simp_all add: pinned_def)
  ultimately show ?thesis using ks by (auto simp: copies_def split: sum.split)
qed

text \<open>
  Both ends agree on the keys. If a client and a server export the same secrets at their first
  writes, then once both have finished the handshake, however their runs went and their groups
  changed, the client was handed one set of keys twice and the server the same set with local and
  remote exchanged.
\<close>

lemma handshake_agreement:
  assumes "state c = Initial" and "side c = Client" and "state s = Initial" and "side s = Server"
    and "export_secret ops_c (group c) = export_secret ops_s (group s)"
    and "derive_mls_keys lib ops_c (group c) ''0-rtt'' Client [] = Ret (Inr k)"
    and "session_run lib ops_c tpl (WriteHandshake b1 # evs1) c = Ret (ks1, c')" and "state c' = Done"
    and "session_run lib ops_s tpl (WriteHandshake b2 # evs2) s = Ret (ks2, s')" and "state s' = Done"
  shows "ks1 = [k, k] \<and> ks2 = [swap_keys k, swap_keys k]"
proof -
  have "derive_mls_keys lib ops_s (group s) ''0-rtt'' Server [] = derive_mls_keys lib ops_c (group c) ''0-rtt'' Server []"
    by (rule derive_mls_keys_cong) (rule assms(5) [symmetric])
  then have "derive_mls_keys lib ops_s (group s) ''0-rtt'' (side s) [] = Ret (Inr (swap_keys k))"
    using assms(4,6) derive_mls_keys_server [of lib ops_c "group c" "''0-rtt''" "[]"] by simp
  from first_write_pins [OF assms(3) this assms(9)] assms(10)
  have "ks2 = [swap_keys k, swap_keys k]" by (simp add: copies_def numeral_2_eq_2)
  moreover have "derive_mls_keys lib ops_c (group c) ''0-rtt'' (side c) [] = Ret (Inr k)"
    using assms(2,6) by simp
  from first_write_pins [OF assms(1) this assms(7)] assms(8)
  have "ks1 = [k, k]" by (simp add: copies_def numeral_2_eq_2)
  ultimately show ?thesis by simp
qed

text \<open>
  C33: The handshake completes. A session in state \<open>Initial\<close> that writes, reads parameters that
  parse and writes twice more is done, no longer handshaking, reports the peer's parameters and was
  handed the keys of its first write twice; without the read it stays handshaking and is handed
  nothing, however often it writes.
\<close>

theorem handshake_completes:
  assumes "state s = Initial" and "peer_params s = None"
    and "derive_mls_keys lib ops (group s) ''0-rtt'' (side s) [] = Ret r"
    and "tp_read tpl (side s) flight = Inr p"
  shows "(\<exists>t. session_run lib ops tpl [WriteHandshake a, ReadHandshake flight, WriteHandshake b, WriteHandshake c] s
        = Ret (copies 2 (result_ok r), t)
      \<and> state t = Done \<and> \<not> is_handshaking t \<and> transport_parameters t = Inr (Some p))
    \<and> (\<exists>t. session_run lib ops tpl (WriteHandshake a # map WriteHandshake bufs) s = Ret ([], t) \<and> is_handshaking t)"
proof
  show "\<exists>t. session_run lib ops tpl [WriteHandshake a, ReadHandshake flight, WriteHandshake b, WriteHandshake c] s
        = Ret (copies 2 (result_ok r), t)
      \<and> state t = Done \<and> \<not> is_handshaking t \<and> transport_parameters t = Inr (Some p)"
    using assms
    by (simp add: write_simps read_handshake_def is_handshaking_def transport_parameters_def copies_def
        numeral_2_eq_2 split: option.split)
  let ?s = "s\<lparr>pinned_zero_rtt_upgrade_keys := result_ok r, pinned_zero_rtt_keys := result_ok r,
      state := AwaitingZeroRttKeys\<rparr>"
  have "session_run lib ops tpl (map WriteHandshake bufs) ?s = Ret ([], ?s)"
    using assms(2) by (induction bufs) (simp_all add: write_Awaiting)
  then show "\<exists>t. session_run lib ops tpl (WriteHandshake a # map WriteHandshake bufs) s = Ret ([], t) \<and> is_handshaking t"
    using assms(1,3) by (simp add: write_Initial is_handshaking_def)
qed

text \<open>
  C25: The levels share their keys. In a completed handshake the keys of the Handshake level (handed
  out first), those of the 1-RTT level (handed out second) and, if the group is unchanged at the first
  write, the client's 0-RTT key of \<open>early_crypto\<close> are the same: packets with the same number in
  different packet-number spaces are protected with the same key and the same nonce.
\<close>

theorem handshake_and_data_keys_coincide:
  assumes "state s = Initial" and "derive_mls_keys lib ops (group s) ''0-rtt'' (side s) [] = Ret (Inr k)"
    and "session_run lib ops tpl (WriteHandshake b # evs) s = Ret (ks, t)" and "state t = Done"
  shows "ks = [k, k]
    \<and> early_crypto lib ops s = Ret (Some (case side s of
        Client \<Rightarrow> (kp_local (header k), kp_local (packet k))
      | Server \<Rightarrow> (kp_remote (header k), kp_remote (packet k))))"
  using first_write_pins [OF assms(1-3)] assms(2,4)
  by (simp add: copies_def numeral_2_eq_2 early_crypto_def split: Side.split)

text \<open>
  0-RTT keys agree. If a client and a server hold groups that export the same secrets, the server
  opens early data with the keys the client seals it with, the client's direction on both sides, and
  one side has no early keys exactly if the other one has none.
\<close>

lemma early_crypto_agrees:
  assumes "side c = Client" and "side s = Server"
    and "export_secret ops_c (group c) = export_secret ops_s (group s)"
  shows "early_crypto lib ops_s s = early_crypto lib ops_c c \<and> early_data_accepted s = Some True"
proof -
  have "derive_mls_keys lib ops_s (group s) ''0-rtt'' Server [] = derive_mls_keys lib ops_c (group c) ''0-rtt'' Server []"
    by (rule derive_mls_keys_cong) (rule assms(3) [symmetric])
  then show ?thesis
    using assms(1,2) derive_mls_keys_server [of lib ops_c "group c" "''0-rtt''" "[]"]
    by (cases "derive_mls_keys lib ops_c (group c) ''0-rtt'' Client []")
      (auto simp: early_crypto_def early_data_accepted_def Let_def result_ok_def split: sum.split)
qed

subsection \<open>Key updates\<close>

lemma next_1rtt_keys_eq:
  "next_1rtt_keys lib ops s =
     (case derive_mls_keys lib ops (group s) ''0-rtt'' (side s) (u64_to_be_bytes (key_update_generation s + 1)) of
        Some (Inr keys) \<Rightarrow> Ret (Some (packet keys), s\<lparr>key_update_generation := key_update_generation s + 1\<rparr>)
      | _ \<Rightarrow> Panic)"
  by (auto simp: next_1rtt_keys_def Let_def split: option.split sum.split)

lemma run_updates:
  "session_run lib ops tpl (replicate n Next1RttKeys) s = Ret (ks, t) \<Longrightarrow>
     ks = [] \<and> t = s\<lparr>key_update_generation := key_update_generation s + word_of_nat n\<rparr>"
proof (induction n arbitrary: s ks)
  case (Suc n)
  let ?s = "s\<lparr>key_update_generation := key_update_generation s + 1\<rparr>"
  from Suc.prems obtain ks' where "session_run lib ops tpl (replicate n Next1RttKeys) ?s = Ret (ks', t)" "ks = ks'"
    by (auto simp: next_1rtt_keys_eq split: bind_splits option.splits sum.splits)
  with Suc.IH [of ?s ks'] show ?case by (simp add: add.assoc)
qed simp

text \<open>
  C34: Key updates stay in step. After any number \<open>n\<close> of key updates below \<open>2 ^ 64\<close> on a client and
  a server that started at generation 0 and whose groups export the same secrets, the next update
  gives the client the packet keys of generation \<open>n + 1\<close> and the server the same ones exchanged; the
  context of that generation differs from that of every earlier one and from that of the handshake.
\<close>

theorem key_updates_in_step:
  assumes "side c = Client" and "side s = Server"
    and "key_update_generation c = 0" and "key_update_generation s = 0"
    and "export_secret ops_c (group c) = export_secret ops_s (group s)"
    and "session_run lib ops_c tpl (replicate n Next1RttKeys) c = Ret (ks1, c')"
    and "session_run lib ops_s tpl (replicate n Next1RttKeys) s = Ret (ks2, s')"
    and "next_1rtt_keys lib ops_c c' = Ret (kp, c'')" and "n + 1 < 2 ^ 64"
  shows "\<exists>keys. derive_mls_keys lib ops_c (group c) ''0-rtt'' Client (u64_to_be_bytes (word_of_nat (n + 1))) = Ret (Inr keys)
    \<and> kp = Some (packet keys)
    \<and> (\<exists>s''. next_1rtt_keys lib ops_s s' = Ret (Some (swap_pair (packet keys)), s''))
    \<and> u64_to_be_bytes (word_of_nat (n + 1)) \<noteq> []
    \<and> (\<forall>m \<le> n. u64_to_be_bytes (word_of_nat m) \<noteq> u64_to_be_bytes (word_of_nat (n + 1)))"
proof -
  let ?ctx = "u64_to_be_bytes (word_of_nat n + 1)"
  from run_updates [OF assms(6)] assms(3) have c': "c' = c\<lparr>key_update_generation := word_of_nat n\<rparr>" by simp
  from run_updates [OF assms(7)] assms(4) have s': "s' = s\<lparr>key_update_generation := word_of_nat n\<rparr>" by simp
  from assms(1,8) c' obtain keys where keys: "derive_mls_keys lib ops_c (group c) ''0-rtt'' Client ?ctx = Ret (Inr keys)"
    "kp = Some (packet keys)"
    by (auto simp: next_1rtt_keys_eq split: option.splits sum.splits)
  have "derive_mls_keys lib ops_s (group s) ''0-rtt'' Server ?ctx = derive_mls_keys lib ops_c (group c) ''0-rtt'' Server ?ctx"
    by (rule derive_mls_keys_cong) (rule assms(5) [symmetric])
  with keys(1) have "derive_mls_keys lib ops_s (group s) ''0-rtt'' Server ?ctx = Ret (Inr (swap_keys keys))"
    by (simp add: derive_mls_keys_server)
  then have "next_1rtt_keys lib ops_s s' = Ret (Some (swap_pair (packet keys)), s'\<lparr>key_update_generation := word_of_nat n + 1\<rparr>)"
    using assms(2) by (simp add: next_1rtt_keys_eq s')
  moreover have "u64_to_be_bytes (word_of_nat m) \<noteq> ?ctx" if "m \<le> n" for m
  proof -
    have "unat (word_of_nat m :: u64) = m" "unat (word_of_nat (n + 1) :: u64) = n + 1"
      using that assms(9) by (simp_all add: unat_of_nat del: of_nat_add of_nat_Suc)
    with that have "(word_of_nat m :: u64) \<noteq> word_of_nat (n + 1)" by (metis not_add_less1 le_imp_less_Suc Suc_eq_plus1 nat_neq_iff)
    then show ?thesis by (simp add: u64_to_be_bytes_inj add.commute)
  qed
  ultimately show ?thesis using keys by (auto simp: add.commute)
qed

text \<open>
  What \<open>new\<close> relies on of \<open>quinn_proto\<close>: a variable-length integer holds the numbers below $2^{62}$ and takes at
  most eight bytes. Then the synthetic parameters of a client are these bytes.
\<close>

definition varints_documented :: "('v, 'tp, 'te) tp_lib \<Rightarrow> bool" where
  "varints_documented tpl \<longleftrightarrow> (\<forall>n. varint_from_u64 tpl n = None \<longleftrightarrow> 2 ^ 62 \<le> n) \<and> (\<forall>v. length (varint_encode tpl v) \<le> 8)"

definition varint_bytes :: "('v, 'tp, 'te) tp_lib \<Rightarrow> u64 \<Rightarrow> bytes" where
  "varint_bytes tpl n = (case varint_from_u64 tpl n of None \<Rightarrow> [] | Some v \<Rightarrow> varint_encode tpl v)"

definition param_bytes :: "('v, 'tp, 'te) tp_lib \<Rightarrow> u64 \<Rightarrow> u64 \<Rightarrow> bytes" where
  "param_bytes tpl ident val =
     varint_bytes tpl ident @ varint_bytes tpl (word_of_nat (length (varint_bytes tpl val))) @ varint_bytes tpl val"

lemma varint_bytes_fit:
  assumes "varints_documented tpl" and "n < 2 ^ 62"
  obtains v where "varint_from_u64 tpl n = Some v" and "varint_bytes tpl n = varint_encode tpl v"
    and "length (varint_bytes tpl n) \<le> 8"
proof -
  from assms obtain v where "varint_from_u64 tpl n = Some v"
    unfolding varints_documented_def by (meson not_le not_None_eq)
  with that assms(1) show ?thesis unfolding varints_documented_def by (simp add: varint_bytes_def)
qed

lemma encode_transport_param_eq:
  assumes "varints_documented tpl" and "val < 2 ^ 62" and "ident < 2 ^ 62"
  shows "encode_transport_param tpl buf ident val = Ret (buf @ param_bytes tpl ident val)"
proof -
  obtain v where v: "varint_from_u64 tpl val = Some v" "varint_bytes tpl val = varint_encode tpl v"
    "length (varint_bytes tpl val) \<le> 8" by (rule varint_bytes_fit [OF assms(1,2)])
  obtain i where i: "varint_from_u64 tpl ident = Some i" "varint_bytes tpl ident = varint_encode tpl i"
    by (rule varint_bytes_fit [OF assms(1,3)])
  have "(word_of_nat (length (varint_encode tpl v)) :: u64) < 2 ^ 62"
    using v(2,3) by (simp add: word_less_nat_alt unat_of_nat)
  then obtain l where "varint_from_u64 tpl (word_of_nat (length (varint_encode tpl v))) = Some l"
    "varint_bytes tpl (word_of_nat (length (varint_encode tpl v))) = varint_encode tpl l"
    by (rule varint_bytes_fit [OF assms(1)])
  with v(1,2) i show ?thesis by (simp add: encode_transport_param_def param_bytes_def Let_def)
qed

lemma session_new_panics:
  assumes "varints_documented tpl"
  shows "session_new tpl g sd params = Panic \<longleftrightarrow> sd = Client \<and> (\<exists>e. tp_read tpl Client
      (param_bytes tpl 4 65536 @ param_bytes tpl 6 65536 @ param_bytes tpl 8 1) = Inl e)"
  by (auto simp: session_new_def synthetic_cached_peer_params_def encode_transport_param_eq [OF assms] Let_def
      TP_INITIAL_MAX_DATA_def TP_INITIAL_MAX_STREAM_DATA_BIDI_REMOTE_def TP_INITIAL_MAX_STREAMS_BIDI_def
      result_ok_def split: sum.splits)

lemma verify_retry_no_panic: "verify_retry_tag aead cid hdr payload \<noteq> Panic"
  by (auto simp: verify_retry_tag_def usize_sub_def sub_slice_def)

text \<open>
  C35: Panics of a session. With a documented HKDF crate, exporter and variable-length integer, deriving
  Initial keys, early keys, both directions of the handshake and the check of a Retry never panic in any state;
  \<open>new\<close> panics exactly for a client whose synthetic parameters the library cannot parse back;
  \<open>next_1rtt_keys\<close> panics exactly when one of the two exports of the next generation fails, the case its
  \<open>expect\<close> excludes; and \<open>create_commit\<close> and \<open>apply_commit\<close> exactly when the group's do. The methods
  left out (\<open>read_handshake\<close>, \<open>transport_parameters\<close>, \<open>is_handshaking\<close> and the constant ones) have no call that
  could panic.
\<close>

theorem session_panics:
  assumes "hkdf_documented lib" and "exports_documented ops (group s)" and "varints_documented tpl"
  shows "(session_new tpl g sd params = Panic \<longleftrightarrow> sd = Client \<and> (\<exists>e. tp_read tpl Client
        (param_bytes tpl 4 65536 @ param_bytes tpl 6 65536 @ param_bytes tpl 8 1) = Inl e))
    \<and> initial_keys lib s cid x \<noteq> Panic \<and> early_crypto lib ops s \<noteq> Panic
    \<and> write_handshake lib ops tpl s buf \<noteq> Panic \<and> is_valid_retry aead s cid hdr payload \<noteq> Panic
    \<and> (next_1rtt_keys lib ops s = Panic \<longleftrightarrow> (\<exists>label \<in> {''quic-mls c2s 0-rtt'', ''quic-mls s2c 0-rtt''}. \<exists>e.
        export_secret ops (group s) (ascii label) (u64_to_be_bytes (key_update_generation s + 1)) 32 = Ret (Inl e)))
    \<and> (session_create_commit ops s = Panic \<longleftrightarrow> create_commit ops (group s) = Panic)
    \<and> (session_apply_commit ops s commit = Panic \<longleftrightarrow> apply_commit ops (group s) commit = Panic)"
proof -
  have derive: "derive_mls_keys lib ops (group s) ''0-rtt'' (side s) ctx \<noteq> Panic
      \<and> ((\<exists>e. derive_mls_keys lib ops (group s) ''0-rtt'' (side s) ctx = Ret (Inl e)) \<longleftrightarrow>
         (\<exists>label \<in> {''quic-mls c2s 0-rtt'', ''quic-mls s2c 0-rtt''}. \<exists>e.
            export_secret ops (group s) (ascii label) ctx 32 = Ret (Inl e)))" for ctx
    by (rule derive_mls_keys_cases [OF assms(1,2)]) auto
  let ?ctx = "u64_to_be_bytes (key_update_generation s + 1)"
  have "next_1rtt_keys lib ops s = Panic \<longleftrightarrow>
      (\<exists>e. derive_mls_keys lib ops (group s) ''0-rtt'' (side s) ?ctx = Ret (Inl e))"
    using derive [of ?ctx] by (auto simp: next_1rtt_keys_eq split: option.split sum.split)
  also have "\<dots> \<longleftrightarrow> (\<exists>label \<in> {''quic-mls c2s 0-rtt'', ''quic-mls s2c 0-rtt''}. \<exists>e.
      export_secret ops (group s) (ascii label) ?ctx 32 = Ret (Inl e))"
    using derive [of ?ctx] by (rule conjunct2)
  finally have "next_1rtt_keys lib ops s = Panic \<longleftrightarrow> \<dots>" .
  moreover obtain r where r: "derive_mls_keys lib ops (group s) ''0-rtt'' (side s) [] = Ret r"
    using derive [of "[]"] by blast
  have "write_handshake lib ops tpl s buf \<noteq> Panic"
    by (cases "state s") (simp_all add: write_simps r)
  moreover have "early_crypto lib ops s \<noteq> Panic"
    unfolding early_crypto_def r by (simp add: Let_def case_prod_unfold split: option.split)
  moreover have "initial_keys lib s cid x \<noteq> Panic"
    unfolding initial_keys_def using derive_keys_no_panic [OF assms(1,2), of cid x] by fastforce
  moreover have "is_valid_retry aead s cid hdr payload \<noteq> Panic"
    unfolding is_valid_retry_def by (rule verify_retry_no_panic)
  moreover have "session_create_commit ops s = Panic \<longleftrightarrow> create_commit ops (group s) = Panic"
    "session_apply_commit ops s commit = Panic \<longleftrightarrow> apply_commit ops (group s) commit = Panic"
    by (auto simp: session_create_commit_def session_apply_commit_def split: bind_splits)
  moreover note session_new_panics [OF assms(3), of g sd params]
  ultimately show ?thesis by (intro conjI)
qed

subsection \<open>Witnesses\<close>

text \<open>
  Transport parameters are byte strings here, and the empty one does not parse; a variable-length
  integer is always written in eight bytes.
\<close>

definition sample_tp :: "(u64, bytes, string) tp_lib" where
  "sample_tp =
     \<lparr>varint_from_u64 = (\<lambda>v. if v < 0x4000000000000000 then Some v else None),
      varint_encode = u64_to_be_bytes,
      tp_read = (\<lambda>sd bs. if bs = [] then Inl ''malformed'' else Inr bs),
      tp_write = (\<lambda>tp. tp)\<rparr>"

lemma sample_tp_simps [simp]:
  "tp_read sample_tp sd bs = (if bs = [] then Inl ''malformed'' else Inr bs)" "tp_write sample_tp tp = tp"
  by (simp_all add: sample_tp_def)

definition sample_session :: "Side \<Rightarrow> nat \<Rightarrow> (nat, bytes) MlsSession" where
  "sample_session sd g =
     \<lparr>group = g, side = sd, state = Initial, local_params = [5], peer_params = None, cached_peer_params = None,
      key_update_generation = 0, pinned_zero_rtt_upgrade_keys = None, pinned_zero_rtt_keys = None\<rparr>"

lemma sample_session_simps [simp]:
  "group (sample_session sd g) = g" "side (sample_session sd g) = sd" "state (sample_session sd g) = Initial"
  "peer_params (sample_session sd g) = None" "key_update_generation (sample_session sd g) = 0"
  by (simp_all add: sample_session_def)

lemma sample_server_new: "session_new sample_tp g Server [5] = Ret (sample_session Server g)"
  by (simp add: session_new_def sample_session_def)

text \<open>A completed handshake with the keys it hands out, whatever is exported.\<close>

definition sample_flight :: "nat session_input list" where
  "sample_flight = [ReadHandshake [5], SharedGroup 9, WriteHandshake [], WriteHandshake []]"

lemma sample_handshake:
  assumes "derive_mls_keys sample_hkdf sample_ops g ''0-rtt'' sd [] = Ret (Inr k)"
  obtains t where "session_run sample_hkdf sample_ops sample_tp
      (WriteHandshake [] # sample_flight) (sample_session sd g)
    = Ret ([k, k], t)" and "state t = Done" and "peer_params t = Some [5]"
  using assms by (simp add: write_simps read_handshake_def sample_flight_def)

lemma handshake_moves_forward_witness:
  "transport_parameters (snd (read_handshake sample_tp (sample_session Client 3) [7])\<lparr>group := 4\<rparr>) = (Inr (Some [7]) :: string + _)"
proof -
  let ?s = "snd (read_handshake sample_tp (sample_session Client 3) [7])"
  have "session_event sample_hkdf sample_ops sample_tp (SharedGroup 4) ?s = Ret (None, ?s\<lparr>group := 4\<rparr>)" by simp
  then have "session_step sample_hkdf sample_ops sample_tp ?s (?s\<lparr>group := 4\<rparr>)" by (rule session_stepI)
  with handshake_moves_forward [OF r_into_rtranclp, of sample_hkdf sample_ops sample_tp ?s "?s\<lparr>group := 4\<rparr>" "[7]"]
  show ?thesis by (simp add: read_handshake_def)
qed

lemma handshake_keys_pinned_witness:
  "\<exists>k t. session_run sample_hkdf sample_ops sample_tp
      (WriteHandshake [] # sample_flight) (sample_session Client 3)
    = Ret ([k, k], t) \<and> length [k, k] \<le> 2"
proof -
  obtain k where k: "derive_mls_keys sample_hkdf sample_ops 3 ''0-rtt'' Client [] = Ret (Inr k)" by (rule sample_derive)
  then obtain t where t: "session_run sample_hkdf sample_ops sample_tp
      (WriteHandshake [] # sample_flight) (sample_session Client 3)
    = Ret ([k, k], t)" by (rule sample_handshake)
  have "state (sample_session Client 3) = Initial"
    "derive_mls_keys sample_hkdf sample_ops (group (sample_session Client 3)) ''0-rtt'' (side (sample_session Client 3)) [] = Ret (Inr k)"
    using k by simp_all
  from handshake_keys_pinned [OF this t] have "length [k, k] \<le> 2" by (rule conjunct1 [OF conjunct2])
  with t show ?thesis by blast
qed

lemma handshake_agreement_witness:
  "\<exists>k c s. derive_mls_keys sample_hkdf sample_ops 3 ''0-rtt'' Client [] = Ret (Inr k)
    \<and> session_run sample_hkdf sample_ops sample_tp
      (WriteHandshake [] # sample_flight) (sample_session Client 3) = Ret ([k, k], c)
    \<and> session_run sample_hkdf sample_ops sample_tp
      (WriteHandshake [] # sample_flight) (sample_session Server 3)
        = Ret ([swap_keys k, swap_keys k], s)"
proof -
  obtain k where k: "derive_mls_keys sample_hkdf sample_ops 3 ''0-rtt'' Client [] = Ret (Inr k)" by (rule sample_derive)
  obtain k' where k': "derive_mls_keys sample_hkdf sample_ops 3 ''0-rtt'' Server [] = Ret (Inr k')" by (rule sample_derive)
  obtain c where c: "session_run sample_hkdf sample_ops sample_tp
      (WriteHandshake [] # sample_flight) (sample_session Client 3)
    = Ret ([k, k], c)" "state c = Done" using k by (rule sample_handshake)
  obtain s where s: "session_run sample_hkdf sample_ops sample_tp
      (WriteHandshake [] # sample_flight) (sample_session Server 3)
    = Ret ([k', k'], s)" "state s = Done" using k' by (rule sample_handshake)
  have "[k', k'] = [swap_keys k, swap_keys k]"
    using handshake_agreement [OF _ _ _ _ _ _ c s, of k] k by simp
  with k c(1) s(1) show ?thesis by metis
qed

lemma handshake_completes_witness:
  "\<exists>t. session_run sample_hkdf sample_ops sample_tp
      (WriteHandshake [] # map WriteHandshake [[], [1], []]) (sample_session Server 3) = Ret ([], t) \<and> is_handshaking t"
proof -
  obtain k where "derive_mls_keys sample_hkdf sample_ops 3 ''0-rtt'' Server [] = Ret (Inr k)" by (rule sample_derive)
  then have "derive_mls_keys sample_hkdf sample_ops (group (sample_session Server 3)) ''0-rtt''
      (side (sample_session Server 3)) [] = Ret (Inr k)" by simp
  from handshake_completes [OF _ _ this, of sample_tp "[5]" "[5]" "[]" "[]" "[]" "[[], [1], []]", THEN conjunct2]
  show ?thesis by (simp only: sample_session_simps sample_tp_simps) simp
qed

lemma handshake_and_data_keys_coincide_witness:
  "\<exists>k t. session_run sample_hkdf sample_ops sample_tp
      (WriteHandshake [] # sample_flight) (sample_session Client 3) = Ret ([k, k], t)
    \<and> early_crypto sample_hkdf sample_ops (sample_session Client 3) = Ret (Some (kp_local (header k), kp_local (packet k)))"
proof -
  obtain k where k: "derive_mls_keys sample_hkdf sample_ops 3 ''0-rtt'' Client [] = Ret (Inr k)" by (rule sample_derive)
  then obtain t where t: "session_run sample_hkdf sample_ops sample_tp
      (WriteHandshake [] # sample_flight) (sample_session Client 3)
    = Ret ([k, k], t)" "state t = Done" by (rule sample_handshake)
  have "early_crypto sample_hkdf sample_ops (sample_session Client 3) = Ret (Some (kp_local (header k), kp_local (packet k)))"
    using handshake_and_data_keys_coincide [OF _ _ t, of k] k by simp
  with t(1) show ?thesis by blast
qed

lemma early_crypto_agrees_witness:
  "early_crypto sample_hkdf sample_ops (sample_session Server 3) = early_crypto sample_hkdf sample_ops (sample_session Client 3)"
  using early_crypto_agrees [of "sample_session Client 3" "sample_session Server 3" sample_ops sample_ops sample_hkdf] by simp

lemma key_updates_in_step_witness:
  "\<exists>keys s. next_1rtt_keys sample_hkdf sample_ops (sample_session Server 3) = Ret (Some (swap_pair (packet keys)), s)
    \<and> derive_mls_keys sample_hkdf sample_ops 3 ''0-rtt'' Client (u64_to_be_bytes 1) = Ret (Inr keys)"
proof -
  obtain ck where "derive_mls_keys sample_hkdf sample_ops 3 ''0-rtt'' Client (u64_to_be_bytes 1) = Ret (Inr ck)" by (rule sample_derive)
  then obtain kp c where n: "next_1rtt_keys sample_hkdf sample_ops (sample_session Client 3) = Ret (kp, c)"
    by (simp add: next_1rtt_keys_eq)
  show ?thesis
    using key_updates_in_step [of "sample_session Client 3" "sample_session Server 3" sample_ops sample_ops sample_hkdf sample_tp 0,
        OF _ _ _ _ _ _ _ n] by simp blast
qed

lemma sample_varints: "varints_documented sample_tp"
  by (simp add: varints_documented_def sample_tp_def not_less [symmetric])

lemma session_panics_witness:
  "write_handshake sample_hkdf sample_ops sample_tp (sample_session Client 3) [] \<noteq> Panic
    \<and> session_new sample_tp (3 :: nat) Client [5] \<noteq> Panic
    \<and> next_1rtt_keys sample_hkdf sample_ops (sample_session Client 3) \<noteq> Panic"
proof -
  have "param_bytes sample_tp 4 65536 \<noteq> []"
    by (simp add: param_bytes_def varint_bytes_def sample_tp_def flip: length_0_conv)
  with session_panics [OF sample_hkdf_documented _ sample_varints, of sample_ops "sample_session Client 3" "3 :: nat" Client "[5]"
      "[]" Client "[]" sample_aead "[]" "[]" "[]"]
  show ?thesis by (simp add: sample_exports)
qed

end
