(* ===== verification/Config.thy ===== *)
theory Config
  imports Session
begin

text \<open>
  The crypto configurations handed to quinn (\<open>quic-mls/src/config.rs\<close>). Each keeps the group in a
  \<open>Mutex<Option<..>>\<close> and gives it to the one session it can start. \<open>start_session\<close> takes
  \<open>Arc<Self>\<close>, so the configuration outlives a panic: the operations return it next to the result,
  and an \<open>expect\<close> that fails while the guard is held leaves the mutex poisoned.
\<close>

record 'g MlsClientConfig =
  client_group :: "'g option mutex"

record 'g MlsServerConfig =
  server_group :: "'g option mutex"

definition client_config_new :: "'g \<Rightarrow> 'g MlsClientConfig" where
  "client_config_new g = \<lparr>client_group = mutex_new (Some g)\<rparr>"

definition server_config_new :: "'g \<Rightarrow> 'g MlsServerConfig" where
  "server_config_new g = \<lparr>server_group = mutex_new (Some g)\<rparr>"

text \<open>\<open>self.group.lock().unwrap().take().expect(..)\<close>, with the mutex it leaves.\<close>

definition take_group :: "'g option mutex \<Rightarrow> 'g panics \<times> 'g option mutex" where
  "take_group m =
     (case mutex_lock m of
        None \<Rightarrow> (Panic, m)
      | Some opt \<Rightarrow>
          let m = m\<lparr>guarded := None\<rparr>
          in case opt of
               None \<Rightarrow> (Panic, m\<lparr>poisoned := True\<rparr>)
             | Some g \<Rightarrow> (Ret g, m))"

definition client_start_session ::
    "('v, 'tp, 'te) tp_lib \<Rightarrow> 'g MlsClientConfig \<Rightarrow> 'tp
      \<Rightarrow> ('ce + ('g, 'tp) MlsSession) panics \<times> 'g MlsClientConfig" where
  "client_start_session tpl self params =
     (case take_group (client_group self) of
        (None, m) \<Rightarrow> (Panic, self\<lparr>client_group := m\<rparr>)
      | (Some g, m) \<Rightarrow> (map_option Inr (session_new tpl g Client params), self\<lparr>client_group := m\<rparr>))"

definition server_initial_keys :: "'h hkdf_lib \<Rightarrow> 'g MlsServerConfig \<Rightarrow> bytes \<Rightarrow> ('ve + Keys) panics" where
  "server_initial_keys lib self dst_cid = map_option Inr (derive_initial_keys lib dst_cid Server)"

definition server_retry_tag :: "aead_lib \<Rightarrow> 'g MlsServerConfig \<Rightarrow> bytes \<Rightarrow> bytes \<Rightarrow> bytes panics" where
  "server_retry_tag aead self orig_dst_cid pkt = compute_retry_tag aead orig_dst_cid pkt"

definition server_start_session ::
    "('v, 'tp, 'te) tp_lib \<Rightarrow> 'g MlsServerConfig \<Rightarrow> 'tp \<Rightarrow> ('g, 'tp) MlsSession panics \<times> 'g MlsServerConfig" where
  "server_start_session tpl self params =
     (case take_group (server_group self) of
        (None, m) \<Rightarrow> (Panic, self\<lparr>server_group := m\<rparr>)
      | (Some g, m) \<Rightarrow> (session_new tpl g Server params, self\<lparr>server_group := m\<rparr>))"

subsection \<open>One session per configuration\<close>

text \<open>Several attempts to start a session, with the result of each.\<close>

fun start_all :: "('c \<Rightarrow> 'p \<Rightarrow> 's panics \<times> 'c) \<Rightarrow> 'c \<Rightarrow> 'p list \<Rightarrow> 's panics list \<times> 'c" where
  "start_all start c [] = ([], c)"
| "start_all start c (p # ps) =
     (let (r, c) = start c p; (rs, c) = start_all start c ps in (r # rs, c))"

locale single_use_config =
  fixes start :: "'c \<Rightarrow> 'p \<Rightarrow> 's panics \<times> 'c"
    and slot :: "'c \<Rightarrow> 'g option mutex"
    and make :: "'g \<Rightarrow> 'p \<Rightarrow> 's panics"
  assumes start_full: "slot c = mutex_new (Some g) \<Longrightarrow>
      fst (start c p) = make g p \<and> slot (snd (start c p)) = mutex_new None"
    and start_empty: "guarded (slot c) = None \<Longrightarrow>
      fst (start c p) = Panic \<and> slot (snd (start c p)) = \<lparr>poisoned = True, guarded = None\<rparr>"
begin

lemma start_all_empty:
  "guarded (slot c) = None \<Longrightarrow> fst (start_all start c ps) = replicate (length ps) Panic"
proof (induction ps arbitrary: c)
  case (Cons p ps)
  have "guarded (slot (snd (start c p))) = None" using start_empty [OF Cons.prems, of p] by simp
  from Cons.IH [OF this] start_empty [OF Cons.prems, of p] show ?case
    by (simp add: case_prod_unfold Let_def)
qed simp

lemma single_use:
  assumes "slot c = mutex_new (Some g)"
  shows "fst (start_all start c (p # ps)) = make g p # replicate (length ps) Panic"
proof -
  have "guarded (slot (snd (start c p))) = None"
    using start_full [OF assms, of p] by (simp add: mutex_new_def)
  with start_all_empty [OF this, of ps] start_full [OF assms, of p] show ?thesis
    by (simp add: case_prod_unfold Let_def)
qed

text \<open>A second attempt poisons the mutex.\<close>

lemma second_poisons:
  assumes "slot c = mutex_new (Some g)"
  shows "poisoned (slot (snd (start_all start c [p, q])))"
proof -
  have "guarded (slot (snd (start c p))) = None"
    using start_full [OF assms, of p] by (simp add: mutex_new_def)
  from start_empty [OF this, of q] show ?thesis by (simp add: case_prod_unfold Let_def)
qed

end

lemma take_group_simps [simp]:
  "take_group (mutex_new (Some g)) = (Ret g, mutex_new None)"
  "guarded m = None \<Longrightarrow> take_group m = (Panic, \<lparr>poisoned = True, guarded = None\<rparr>)"
  by (cases m; auto simp: take_group_def mutex_lock_def mutex_new_def split: option.split)+

interpretation client_use: single_use_config "client_start_session tpl" client_group
  "\<lambda>g params. map_option Inr (session_new tpl g Client params)" for tpl
  by unfold_locales (simp_all add: client_start_session_def)

interpretation server_use: single_use_config "server_start_session tpl" server_group
  "\<lambda>g params. session_new tpl g Server params" for tpl
  by unfold_locales (simp_all add: server_start_session_def)

text \<open>
  C37: Configurations are single-use. Of any series of \<open>start_session\<close> calls on a new client or server
  configuration, the first gives the session of its side over the group the configuration was
  built with, and every later one panics; the second call leaves the mutex poisoned.
\<close>

theorem configs_single_use:
  "fst (start_all (client_start_session tpl) (client_config_new g) (p # ps))
     = map_option Inr (session_new tpl g Client p) # replicate (length ps) Panic
   \<and> fst (start_all (server_start_session tpl) (server_config_new g) (p # ps))
     = session_new tpl g Server p # replicate (length ps) Panic
   \<and> poisoned (client_group (snd (start_all (client_start_session tpl) (client_config_new g) [p, q])))
   \<and> poisoned (server_group (snd (start_all (server_start_session tpl) (server_config_new g) [p, q])))"
  by (intro conjI client_use.single_use server_use.single_use client_use.second_poisons
      server_use.second_poisons) (simp_all add: client_config_new_def server_config_new_def)

lemma session_new_Client:
  "session_new tpl g Client params = map_option (\<lambda>cached.
     \<lparr>group = g, side = Client, state = Initial, local_params = params, peer_params = None,
      cached_peer_params = Some cached, key_update_generation = 0,
      pinned_zero_rtt_upgrade_keys = None, pinned_zero_rtt_keys = None\<rparr>) (synthetic_cached_peer_params tpl Client)"
  by (cases "synthetic_cached_peer_params tpl Client") (simp_all add: session_new_def)

text \<open>
  What a new session starts with. The session of a fresh configuration is in state \<open>Initial\<close> with
  no peer parameters and no pinned keys, holds the group of the configuration, and has synthetic
  parameters cached exactly on the client, so that a client can send early data before any reply
  and a server reports no parameters until it has read some.
\<close>

lemma fresh_session:
  fixes tpl :: "('v, 'tp, 'te) tp_lib"
  assumes "fst (server_start_session tpl (server_config_new g) p) = Ret s"
    and "fst (client_start_session tpl (client_config_new g) p) = Ret (Inr c)"
  shows "state s = Initial \<and> side s = Server \<and> group s = g \<and> local_params s = p
      \<and> transport_parameters s = (Inr None :: 'te + _) \<and> key_update_generation s = 0
    \<and> state c = Initial \<and> side c = Client \<and> group c = g \<and> local_params c = p \<and> peer_params c = None
      \<and> synthetic_cached_peer_params tpl Client = cached_peer_params c
      \<and> transport_parameters c = (Inr (cached_peer_params c) :: 'te + _) \<and> cached_peer_params c \<noteq> None
      \<and> key_update_generation c = 0"
  using assms
  by (auto simp: server_start_session_def client_start_session_def server_config_new_def client_config_new_def
      session_new_Client session_new_def [where sd = Server] transport_parameters_def)

text \<open>
  The two configurations work together. The server's Initial keys are those of a client session
  for the same connection id with local and remote exchanged, and a Retry tag the server computes is
  valid for a client session, however the packet is split into header and payload.
\<close>

lemma configs_agree:
  assumes "aead_documented aead" and "length cid + length (hdr @ body) + 16 < aead_max"
  shows "(server_initial_keys lib cfg dst_cid :: ('ve + Keys) panics)
      = map_option (\<lambda>ks. Inr (swap_keys ks)) (initial_keys lib s dst_cid Client)
    \<and> (\<exists>tag. server_retry_tag aead cfg cid (hdr @ body) = Ret tag \<and> is_valid_retry aead s cid hdr (body @ tag) = Ret True)"
proof
  have "derive_initial_keys lib dst_cid Server = map_option swap_keys (derive_initial_keys lib dst_cid Client)"
    by (rule derive_initial_keys_server)
  then show "(server_initial_keys lib cfg dst_cid :: ('ve + Keys) panics)
      = map_option (\<lambda>ks. Inr (swap_keys ks)) (initial_keys lib s dst_cid Client)"
    by (simp add: server_initial_keys_def initial_keys_def option.map_comp o_def)
  obtain tag where tag: "compute_retry_tag aead cid (hdr @ body) = Ret tag" "length tag = 16"
    "gcm_decrypt aead RETRY_INTEGRITY_KEY RETRY_INTEGRITY_NONCE (word_of_nat (length cid) # cid @ hdr @ body) [] tag = Inr []"
    by (rule compute_retry_tag_Some [OF assms(1), of cid "hdr @ body"]) (use assms(2) in auto)
  then show "\<exists>tag. server_retry_tag aead cfg cid (hdr @ body) = Ret tag
      \<and> is_valid_retry aead s cid hdr (body @ tag) = Ret True"
    by (auto simp: server_retry_tag_def is_valid_retry_def verify_retry_tag_eq)
qed

subsection \<open>Witnesses\<close>

lemma sample_client_new: "\<exists>c. session_new sample_tp g Client [5] = Ret c"
  by (simp add: session_new_def synthetic_cached_peer_params_def encode_transport_param_def sample_tp_def
      TP_INITIAL_MAX_DATA_def TP_INITIAL_MAX_STREAM_DATA_BIDI_REMOTE_def TP_INITIAL_MAX_STREAMS_BIDI_def)

lemma fresh_session_witness:
  "\<exists>c. fst (client_start_session sample_tp (client_config_new (3 :: nat)) [5]) = Ret (Inr c :: unit + _)
    \<and> cached_peer_params c \<noteq> None"
proof -
  obtain c where "session_new sample_tp (3 :: nat) Client [5] = Ret c"
    by (rule exE [OF sample_client_new [of "3 :: nat"]])
  then have c: "fst (client_start_session sample_tp (client_config_new (3 :: nat)) [5]) = Ret (Inr c :: unit + _)"
    by (simp add: client_start_session_def client_config_new_def)
  have "fst (server_start_session sample_tp (server_config_new (3 :: nat)) [5]) = Ret (sample_session Server 3)"
    by (simp add: server_start_session_def server_config_new_def sample_server_new)
  from fresh_session [OF this c] have "cached_peer_params c \<noteq> None" by (elim conjE)
  with c show ?thesis by blast
qed

lemma configs_agree_witness:
  "\<exists>tag. server_retry_tag sample_aead (server_config_new (3 :: nat)) [1, 2] ([0xf0] @ [7]) = Ret tag
    \<and> is_valid_retry sample_aead (sample_session Client 3) [1, 2] [0xf0] ([7] @ tag) = Ret True"
  using configs_agree [OF sample_aead_documented, of "[1, 2]" "[0xf0]" "[7]" sample_hkdf
      "server_config_new (3 :: nat)" "[]" "sample_session Client 3", THEN conjunct2]
  by (simp add: aead_max_def)

end
