(* ===== verification/Control.thy ===== *)
theory Control
  imports Group
begin

text \<open>
  Control messages (\<open>quic-mls/src/control.rs\<close>): their framing on a QUIC stream, the loop that trims
  the commit log by the reports it receives, and the loop that sends a report per epoch change.

  The streams of \<open>quinn\<close> with the reading and writing extensions of \<open>tokio\<close> are parameters; their
  documented behaviour is stated relative to the bytes a receive stream still holds (\<open>content\<close>) and
  those a send stream has taken (\<open>written\<close>). Reading from an exhausted stream is an error, as it is
  after a finished or reset stream. Waiting is not modelled: an await returns when it can.
\<close>

datatype ControlMessage = Report u64 | Hello

definition encode_message :: "ControlMessage \<Rightarrow> bytes" where
  "encode_message msg =
     (case msg of
        Report epoch \<Rightarrow> [0x02] @ u64_to_be_bytes epoch
      | Hello \<Rightarrow> [0x03])"

text \<open>An I/O error of the stream, or the one the code makes (\<open>ErrorKind::InvalidData\<close>).\<close>

datatype 'e io_error = StreamError 'e | InvalidData

record ('r, 'e) recv_lib =
  read_u8 :: "'r \<Rightarrow> ('e + u8) \<times> 'r"
  read_u64 :: "'r \<Rightarrow> ('e + u64) \<times> 'r"

record ('w, 'e) send_lib =
  write_all :: "'w \<Rightarrow> bytes \<Rightarrow> ('e + unit) \<times> 'w"
  flush :: "'w \<Rightarrow> ('e + unit) \<times> 'w"

definition read_message :: "('r, 'e) recv_lib \<Rightarrow> 'r \<Rightarrow> ('e io_error + ControlMessage) \<times> 'r" where
  "read_message lib recv =
     (case read_u8 lib recv of
        (Inl e, recv) \<Rightarrow> (Inl (StreamError e), recv)
      | (Inr msg_type, recv) \<Rightarrow>
          if msg_type = 0x02 then
            (case read_u64 lib recv of
               (Inl e, recv) \<Rightarrow> (Inl (StreamError e), recv)
             | (Inr epoch, recv) \<Rightarrow> (Inr (Report epoch), recv))
          else if msg_type = 0x03 then (Inr Hello, recv)
          else (Inl InvalidData, recv))"

definition write_message :: "('w, 'e) send_lib \<Rightarrow> 'w \<Rightarrow> ControlMessage \<Rightarrow> ('e + nat) \<times> 'w" where
  "write_message lib send msg =
     (let bytes = encode_message msg;
          n = length bytes
      in case write_all lib send bytes of
           (Inl e, send) \<Rightarrow> (Inl e, send)
         | (Inr _, send) \<Rightarrow>
             (case flush lib send of
                (Inl e, send) \<Rightarrow> (Inl e, send)
              | (Inr _, send) \<Rightarrow> (Inr n, send)))"

text \<open>
  The receiving loop over the shared log. The result is \<open>None\<close> if the loop does not end, and
  otherwise a panic or the mutex with the log it leaves.
\<close>

partial_function (option) run_report_receiver ::
    "('r, 'e) recv_lib \<Rightarrow> 'g CommitLog mutex \<Rightarrow> 'r \<Rightarrow> 'g CommitLog mutex panics option" where
  "run_report_receiver lib log recv =
     (case read_message lib recv of
        (Inl _, _) \<Rightarrow> Some (Ret log)
      | (Inr (Report k), recv) \<Rightarrow>
          (case mutex_lock log of
             None \<Rightarrow> Some Panic
           | Some l \<Rightarrow> run_report_receiver lib (log\<lparr>guarded := trim l k\<rparr>) recv)
      | (Inr Hello, recv) \<Rightarrow> run_report_receiver lib log recv)"

text \<open>
  The sending loop over what the loop observes: per iteration the value of the watch channel and of
  the flag; after the last observation \<open>changed\<close> fails because the sender is gone. The result says
  whether the loop ended by a failed write.
\<close>

fun run_report_sender ::
    "('w, 'e) send_lib \<Rightarrow> 'w \<Rightarrow> (u64 \<times> bool) list \<Rightarrow> bool \<times> 'w" where
  "run_report_sender lib send [] = (False, send)"
| "run_report_sender lib send ((epoch, should_report) # observations) =
     (if should_report then
        (case write_message lib send (Report epoch) of
           (Inl _, send) \<Rightarrow> (True, send)
         | (Inr _, send) \<Rightarrow> run_report_sender lib send observations)
      else run_report_sender lib send observations)"

subsection \<open>Documented streams\<close>

definition recv_documented :: "('r, 'e) recv_lib \<Rightarrow> ('r \<Rightarrow> bytes) \<Rightarrow> bool" where
  "recv_documented lib content \<longleftrightarrow>
     (\<forall>r. case content r of
        [] \<Rightarrow> \<exists>e r'. read_u8 lib r = (Inl e, r')
      | b # bs \<Rightarrow> \<exists>r'. read_u8 lib r = (Inr b, r') \<and> content r' = bs) \<and>
     (\<forall>r. if length (content r) < 8 then \<exists>e r'. read_u64 lib r = (Inl e, r')
          else \<exists>r'. read_u64 lib r = (Inr (u64_from_be_bytes (take 8 (content r))), r') \<and> content r' = drop 8 (content r))"

definition send_documented :: "('w, 'e) send_lib \<Rightarrow> ('w \<Rightarrow> bytes) \<Rightarrow> bool" where
  "send_documented lib written \<longleftrightarrow>
     (\<forall>w bs r w'. write_all lib w bs = (r, w') \<longrightarrow>
        (if r = Inr () then written w' = written w @ bs else \<exists>p. prefix p bs \<and> written w' = written w @ p)) \<and>
     (\<forall>w r w'. flush lib w = (r, w') \<longrightarrow> written w' = written w)"

lemma recv_documentedD:
  assumes "recv_documented lib content"
  shows "content r = [] \<Longrightarrow> \<exists>e r'. read_u8 lib r = (Inl e, r')"
    and "content r = b # bs \<Longrightarrow> \<exists>r'. read_u8 lib r = (Inr b, r') \<and> content r' = bs"
    and "length (content r) < 8 \<Longrightarrow> \<exists>e r'. read_u64 lib r = (Inl e, r')"
    and "8 \<le> length (content r) \<Longrightarrow> \<exists>r'. read_u64 lib r = (Inr (u64_from_be_bytes (take 8 (content r))), r')
      \<and> content r' = drop 8 (content r)"
  using assms unfolding recv_documented_def by (auto split: list.splits if_splits)

subsection \<open>The framing\<close>

text \<open>What a reader makes of bytes: one message and the rest, or nothing.\<close>

definition parse_message :: "bytes \<Rightarrow> (ControlMessage \<times> bytes) option" where
  "parse_message bs =
     (case bs of
        [] \<Rightarrow> None
      | t # rest \<Rightarrow>
          if t = 0x02 then
            (if length rest < 8 then None else Some (Report (u64_from_be_bytes (take 8 rest)), drop 8 rest))
          else if t = 0x03 then Some (Hello, rest)
          else None)"

interpretation message: byte_codec encode_message parse_message "\<lambda>_. True"
proof
  fix x :: ControlMessage and rest :: bytes
  show "parse_message (encode_message x @ rest) = Some (x, rest)"
    by (cases x) (simp_all add: parse_message_def encode_message_def)
next
  fix bs rest :: bytes and x :: ControlMessage
  assume "parse_message bs = Some (x, rest)"
  then show "bs = encode_message x @ rest \<and> True"
    using u64_be_canonical [of "take 8 (tl bs)"]
    by (auto simp: parse_message_def encode_message_def split: list.splits if_splits)
qed

lemma read_message_parse:
  assumes "recv_documented lib content"
  shows "case parse_message (content r) of
      None \<Rightarrow> \<exists>e r'. read_message lib r = (Inl e, r')
    | Some (msg, rest) \<Rightarrow> \<exists>r'. read_message lib r = (Inr msg, r') \<and> content r' = rest"
proof (cases "content r")
  case Nil
  with recv_documentedD(1) [OF assms Nil] show ?thesis by (auto simp: parse_message_def read_message_def)
next
  case (Cons t rest)
  then obtain r' where r': "read_u8 lib r = (Inr t, r')" "content r' = rest"
    using recv_documentedD(2) [OF assms Cons] by blast
  show ?thesis
  proof (cases "t = 2 \<and> length rest < 8")
    case True
    with r' recv_documentedD(3) [OF assms, of r'] Cons show ?thesis
      by (auto simp: parse_message_def read_message_def)
  next
    case False
    with r' recv_documentedD(4) [OF assms, of r'] Cons show ?thesis
      by (auto simp: parse_message_def read_message_def)
  qed
qed

fun write_messages :: "('w, 'e) send_lib \<Rightarrow> 'w \<Rightarrow> ControlMessage list \<Rightarrow> ('e + nat) list \<times> 'w" where
  "write_messages lib send [] = ([], send)"
| "write_messages lib send (msg # msgs) =
     (let (r, send) = write_message lib send msg; (rs, send) = write_messages lib send msgs in (r # rs, send))"

fun read_messages :: "('r, 'e) recv_lib \<Rightarrow> 'r \<Rightarrow> nat \<Rightarrow> ('e io_error + ControlMessage) list \<times> 'r" where
  "read_messages lib recv 0 = ([], recv)"
| "read_messages lib recv (Suc n) =
     (let (r, recv) = read_message lib recv; (rs, recv) = read_messages lib recv n in (r # rs, recv))"

lemma write_message_Inr:
  assumes "send_documented lib written" and "write_message lib w msg = (Inr n, w')"
  shows "written w' = written w @ encode_message msg \<and> n = length (encode_message msg)"
proof -
  from assms(2) obtain u v where "write_all lib w (encode_message msg) = (Inr (), u)" "flush lib u = (Inr v, w')"
    "n = length (encode_message msg)"
    by (auto simp: write_message_def Let_def split: prod.splits sum.splits)
  with assms(1) show ?thesis unfolding send_documented_def by fastforce
qed

lemma read_message_encode:
  assumes "recv_documented lib content" and "content r = encode_message msg @ rest"
  obtains r' where "read_message lib r = (Inr msg, r')" and "content r' = rest"
  using read_message_parse [OF assms(1), of r] assms(2) message.dec_enc [of msg rest] by auto

lemma write_messages_written:
  "send_documented lib written \<Longrightarrow> write_messages lib w msgs = (rs, w') \<Longrightarrow> \<forall>r \<in> set rs. \<exists>n. r = Inr n \<Longrightarrow>
     written w' = written w @ concat (map encode_message msgs)
     \<and> rs = map (\<lambda>msg. Inr (length (encode_message msg))) msgs"
proof (induction msgs arbitrary: w rs)
  case (Cons msg msgs)
  from Cons.prems(2,3) obtain n w1 rs1 where w1: "write_message lib w msg = (Inr n, w1)"
    "write_messages lib w1 msgs = (rs1, w')" "rs = Inr n # rs1"
    by (auto simp: Let_def split: prod.splits)
  with Cons.prems(3) Cons.IH [OF Cons.prems(1) w1(2)] write_message_Inr [OF Cons.prems(1) w1(1)]
  show ?case by simp
qed auto

lemma read_messages_content:
  "recv_documented lib content \<Longrightarrow> content r = concat (map encode_message msgs) @ rest \<Longrightarrow>
     \<exists>r'. read_messages lib r (length msgs) = (map Inr msgs, r') \<and> content r' = rest"
proof (induction msgs arbitrary: r)
  case (Cons msg msgs)
  then obtain r1 where r1: "read_message lib r = (Inr msg, r1)" "content r1 = concat (map encode_message msgs) @ rest"
    using read_message_encode [OF Cons.prems(1), of r msg "concat (map encode_message msgs) @ rest"] by auto
  from Cons.IH [OF Cons.prems(1) r1(2)] r1(1) show ?case by auto
qed simp

text \<open>
  Control messages round trip. On documented streams, writes that all succeed put exactly the
  encodings of the messages on the stream and return their lengths, and a reader whose stream holds
  those bytes gets the same messages in the same order and leaves what follows them.
\<close>

lemma control_messages_roundtrip:
  assumes "send_documented slib written" and "recv_documented rlib content"
    and "write_messages slib w msgs = (rs, w')" and "\<forall>r \<in> set rs. \<exists>n. r = Inr n"
    and "written w = []" and "content r = written w' @ rest"
  shows "rs = map (\<lambda>msg. Inr (case msg of Report _ \<Rightarrow> 9 | Hello \<Rightarrow> 1)) msgs
    \<and> (\<exists>r'. read_messages rlib r (length msgs) = (map Inr msgs, r') \<and> content r' = rest)"
proof -
  have "length (encode_message msg) = (case msg of Report _ \<Rightarrow> 9 | Hello \<Rightarrow> 1)" for msg
    by (cases msg) (simp_all add: encode_message_def)
  with write_messages_written [OF assms(1,3,4)] assms(5,6) read_messages_content [OF assms(2), of r msgs rest]
  show ?thesis by simp
qed

text \<open>
  What a reader accepts. On a documented stream \<open>read_message\<close> succeeds exactly on the encodings
  of messages: if it returns a message, the stream held the encoding of that message followed by what
  it still holds, and if it fails, the stream starts with no message at all.
\<close>

lemma read_message_exact:
  assumes "recv_documented lib content"
  shows "case read_message lib r of
      (Inr msg, r') \<Rightarrow> content r = encode_message msg @ content r'
    | (Inl e, r') \<Rightarrow> \<forall>msg rest. content r \<noteq> encode_message msg @ rest"
proof (cases "parse_message (content r)")
  case None
  have "content r \<noteq> encode_message msg @ rest" for msg rest
    using None message.dec_enc [of msg rest] by auto
  with read_message_parse [OF assms, of r] None show ?thesis by auto
next
  case (Some mr)
  with read_message_parse [OF assms, of r] message.enc_dec [of "content r" "fst mr" "snd mr"] show ?thesis
    by (cases mr) auto
qed

subsection \<open>Trimming by reports\<close>

definition handle_message :: "ControlMessage \<Rightarrow> 'g CommitLog \<Rightarrow> 'g CommitLog" where
  "handle_message msg l = (case msg of Report k \<Rightarrow> trim l k | Hello \<Rightarrow> l)"

definition reported_epochs :: "ControlMessage list \<Rightarrow> u64 list" where
  "reported_epochs msgs = concat (map (\<lambda>msg. case msg of Report k \<Rightarrow> [k] | Hello \<Rightarrow> []) msgs)"

lemma trim_reports:
  "current_epoch (fold handle_message msgs l) = current_epoch l
   \<and> inner (fold handle_message msgs l) = inner l
   \<and> checkpoint (fold handle_message msgs l)
       = fold (\<lambda>k c. max c (min k (current_epoch l))) (reported_epochs msgs) (checkpoint l)"
proof (induction msgs arbitrary: l)
  case (Cons msg msgs)
  show ?case
    using Cons.IH [of "handle_message msg l"]
    by (cases msg) (simp_all add: handle_message_def reported_epochs_def trim_checkpoint)
qed (simp add: reported_epochs_def)

lemma run_receiver_messages:
  "recv_documented lib content \<Longrightarrow> content r = concat (map encode_message msgs) @ rest \<Longrightarrow>
   parse_message rest = None \<Longrightarrow> \<not> poisoned m \<Longrightarrow>
     run_report_receiver lib m r = Some (Ret (m\<lparr>guarded := fold handle_message msgs (guarded m)\<rparr>))"
proof (induction msgs arbitrary: r m)
  case Nil
  then obtain e r' where "read_message lib r = (Inl e, r')"
    using read_message_parse [OF Nil.prems(1), of r] by auto
  then show ?case by (simp add: run_report_receiver.simps)
next
  case (Cons msg msgs)
  then obtain r1 where r1: "read_message lib r = (Inr msg, r1)" "content r1 = concat (map encode_message msgs) @ rest"
    using read_message_encode [OF Cons.prems(1), of r msg "concat (map encode_message msgs) @ rest"] by auto
  let ?m = "m\<lparr>guarded := handle_message msg (guarded m)\<rparr>"
  have "run_report_receiver lib m r = run_report_receiver lib ?m r1"
    using r1(1) Cons.prems(4) run_report_receiver.simps [of lib m r]
    by (cases msg) (simp_all add: handle_message_def mutex_lock_def)
  also have "\<dots> = Some (Ret (?m\<lparr>guarded := fold handle_message msgs (guarded ?m)\<rparr>))"
    using Cons.IH [OF Cons.prems(1) r1(2) Cons.prems(3), of ?m] Cons.prems(4) by simp
  finally show ?case by simp
qed

text \<open>Every byte string is messages followed by bytes that start with no message.\<close>

lemma parse_all:
  "\<exists>msgs rest. bs = concat (map encode_message msgs) @ rest \<and> parse_message rest = None"
proof (induction bs rule: length_induct)
  case (1 bs)
  show ?case
  proof (cases "parse_message bs")
    case None
    then show ?thesis by (intro exI [of _ "[]"] exI [of _ bs]) simp
  next
    case (Some mr)
    then have bs: "bs = encode_message (fst mr) @ snd mr" using message.enc_dec [of bs "fst mr" "snd mr"] by simp
    have "encode_message (fst mr) \<noteq> []" by (cases "fst mr") (simp_all add: encode_message_def)
    with bs have "length (snd mr) < length bs" by simp
    with 1 obtain msgs rest where "snd mr = concat (map encode_message msgs) @ rest" "parse_message rest = None" by blast
    with bs show ?thesis by (intro exI [of _ "fst mr # msgs"] exI [of _ rest]) simp
  qed
qed

text \<open>
  C38: The report receiver ends and trims. On any stream with finitely many bytes, whatever they are,
  the loop over an unpoisoned log ends without a panic: it has handled the messages the stream starts
  with up to the first malformed or incomplete one, the checkpoint is the largest of the old one and
  the reported epochs, each capped at the current epoch, and the group and the current epoch are
  untouched.
\<close>

theorem report_receiver_trims:
  assumes "recv_documented lib content" and "\<not> poisoned m"
  shows "\<exists>msgs rest m'. content r = concat (map encode_message msgs) @ rest \<and> parse_message rest = None
    \<and> run_report_receiver lib m r = Some (Ret m') \<and> \<not> poisoned m'
    \<and> checkpoint (guarded m') = fold (\<lambda>k c. max c (min k (current_epoch (guarded m)))) (reported_epochs msgs)
        (checkpoint (guarded m))
    \<and> current_epoch (guarded m') = current_epoch (guarded m) \<and> inner (guarded m') = inner (guarded m)"
proof -
  obtain msgs rest where c: "content r = concat (map encode_message msgs) @ rest" "parse_message rest = None"
    using parse_all [of "content r"] by blast
  with run_receiver_messages [OF assms(1) c assms(2)] trim_reports [of msgs "guarded m"] assms(2)
  show ?thesis by (intro exI [of _ msgs] exI [of _ rest]) simp
qed

lemma write_message_cases:
  assumes "send_documented lib written" and "write_message lib w msg = (r, w')"
  shows "case r of Inr n \<Rightarrow> written w' = written w @ encode_message msg
    | Inl e \<Rightarrow> \<exists>p. prefix p (encode_message msg) \<and> written w' = written w @ p"
proof (cases r)
  case (Inr n)
  with write_message_Inr [OF assms(1)] assms(2) show ?thesis by simp
next
  case (Inl e)
  obtain u v where u: "write_all lib w (encode_message msg) = (u, v)" by (cases "write_all lib w (encode_message msg)")
  with assms(1) have v: "if u = Inr () then written v = written w @ encode_message msg
      else \<exists>p. prefix p (encode_message msg) \<and> written v = written w @ p"
    unfolding send_documented_def by blast
  show ?thesis
  proof (cases u)
    case (Inl e')
    with assms(2) u have "v = w'" by (simp add: write_message_def Let_def)
    with v \<open>r = Inl e\<close> Inl show ?thesis by simp
  next
    case (Inr x)
    with assms(2) u obtain fr where "flush lib v = (fr, w')"
      by (auto simp: write_message_def Let_def split: prod.splits sum.splits)
    with assms(1) have "written w' = written v" unfolding send_documented_def by blast
    with v \<open>r = Inl e\<close> Inr show ?thesis by auto
  qed
qed

text \<open>The reports the sending loop makes of its observations.\<close>

definition observed_reports :: "(u64 \<times> bool) list \<Rightarrow> ControlMessage list" where
  "observed_reports observations = map (Report \<circ> fst) (filter snd observations)"

lemma run_sender_written:
  "send_documented lib written \<Longrightarrow> run_report_sender lib w obs = (failed, w') \<Longrightarrow>
     \<exists>p. prefix p (concat (map encode_message (observed_reports obs))) \<and> written w' = written w @ p
       \<and> (\<not> failed \<longrightarrow> p = concat (map encode_message (observed_reports obs)))"
proof (induction obs arbitrary: w)
  case (Cons ob obs)
  obtain epoch should where ob: "ob = (epoch, should)" by (cases ob)
  show ?case
  proof (cases should)
    case False
    with Cons ob show ?thesis by (simp add: observed_reports_def)
  next
    case True
    obtain r w1 where r: "write_message lib w (Report epoch) = (r, w1)" by (cases "write_message lib w (Report epoch)")
    note wr = write_message_cases [OF Cons.prems(1) r]
    show ?thesis
    proof (cases r)
      case (Inl e)
      with wr obtain p where "prefix p (encode_message (Report epoch))" "written w1 = written w @ p" by auto
      with Inl True r ob Cons.prems(2) show ?thesis
        by (intro exI [of _ p]) (auto simp: observed_reports_def intro: prefix_prefix)
    next
      case (Inr n)
      with True r ob Cons.prems(2) have "run_report_sender lib w1 obs = (failed, w')" by simp
      from Cons.IH [OF Cons.prems(1) this] obtain q where
        "prefix q (concat (map encode_message (observed_reports obs)))" "written w' = written w1 @ q"
        "\<not> failed \<longrightarrow> q = concat (map encode_message (observed_reports obs))" by blast
      with wr Inr True ob show ?thesis
        by (intro exI [of _ "encode_message (Report epoch) @ q"]) (simp add: observed_reports_def)
    qed
  qed
qed (simp add: observed_reports_def)

lemma reported_epochs_observed: "reported_epochs (take n (observed_reports obs)) = take n (map fst (filter snd obs))"
proof -
  have "reported_epochs (map Report ks) = ks" for ks
    by (induction ks) (simp_all add: reported_epochs_def)
  moreover have "take n (observed_reports obs) = map Report (take n (map fst (filter snd obs)))"
    by (simp add: observed_reports_def take_map)
  ultimately show ?thesis by simp
qed

text \<open>
  C30: Reports end to end. Let a report sender run over any observations of epoch and flag, and let a
  receiver's stream hold any prefix of what it wrote. Then the receiver ends without a panic and its
  checkpoint is the fold of the first reports in the order they were observed with the flag set; if
  the sender did not fail and everything arrived, it is the fold of all of them. A report is never
  misread, whereever the stream is cut.
\<close>

theorem reports_end_to_end:
  assumes "send_documented slib written" and "recv_documented rlib content"
    and "run_report_sender slib w obs = (failed, w')" and "written w = []"
    and "prefix (content r) (written w')" and "\<not> poisoned m"
  shows "\<exists>n m'. run_report_receiver rlib m r = Some (Ret m')
    \<and> checkpoint (guarded m') = fold (\<lambda>k c. max c (min k (current_epoch (guarded m))))
        (take n (map fst (filter snd obs))) (checkpoint (guarded m))
    \<and> (\<not> failed \<and> content r = written w' \<longrightarrow> take n (map fst (filter snd obs)) = map fst (filter snd obs))"
proof -
  let ?msgs = "observed_reports obs"
  obtain p where p: "prefix p (concat (map encode_message ?msgs))" "written w' = p"
    "\<not> failed \<longrightarrow> p = concat (map encode_message ?msgs)"
    using run_sender_written [OF assms(1,3)] assms(4) by auto
  have "prefix (content r) (concat (map encode_message ?msgs))"
    using assms(5) p(1,2) prefix_order.trans by auto
  moreover have "parse_message [] = None" by (simp add: parse_message_def)
  ultimately obtain n rest where n: "content r = concat (map encode_message (take n ?msgs)) @ rest"
    "parse_message rest = None" "content r = concat (map encode_message ?msgs) \<longrightarrow> n = length ?msgs"
    using message.prefix_values [of ?msgs "content r"] by auto
  have "take n (map fst (filter snd obs)) = map fst (filter snd obs)" if "\<not> failed" "content r = written w'"
    using n(3) p(2,3) that by (simp add: observed_reports_def)
  with run_receiver_messages [OF assms(2) n(1,2) assms(6)] trim_reports [of "take n ?msgs" "guarded m"]
  show ?thesis by (intro exI [of _ n]) (simp add: reported_epochs_observed)
qed

subsection \<open>Witnesses\<close>

text \<open>Streams that are the bytes themselves; nothing fails but reading past the end.\<close>

definition sample_recv :: "(bytes, unit) recv_lib" where
  "sample_recv =
     \<lparr>read_u8 = (\<lambda>bs. case bs of [] \<Rightarrow> (Inl (), bs) | b # bs \<Rightarrow> (Inr b, bs)),
      read_u64 = (\<lambda>bs. if length bs < 8 then (Inl (), []) else (Inr (u64_from_be_bytes (take 8 bs)), drop 8 bs))\<rparr>"

definition sample_send :: "(bytes, unit) send_lib" where
  "sample_send = \<lparr>write_all = (\<lambda>w bs. (Inr (), w @ bs)), flush = (\<lambda>w. (Inr (), w))\<rparr>"

lemma sample_recv_documented: "recv_documented sample_recv id"
  by (auto simp: recv_documented_def sample_recv_def split: list.split)

lemma sample_send_documented: "send_documented sample_send id"
  by (auto simp: send_documented_def sample_send_def)

lemma control_messages_roundtrip_witness:
  "\<exists>r'. read_messages sample_recv ([2] @ u64_to_be_bytes 7 @ [3]) 2 = ([Inr (Report 7), Inr Hello], r') \<and> r' = []"
proof -
  have "write_messages sample_send [] [Report 7, Hello] = ([Inr 9, Inr 1], [2] @ u64_to_be_bytes 7 @ [3])"
    by (simp add: sample_send_def write_message_def encode_message_def)
  from control_messages_roundtrip [OF sample_send_documented sample_recv_documented this,
      of "[2] @ u64_to_be_bytes 7 @ [3]" "[]"]
  show ?thesis by (simp add: numeral_2_eq_2)
qed

lemma read_message_exact_witness:
  "case read_message sample_recv [3, 9] of
     (Inr msg, r') \<Rightarrow> [3, 9] = encode_message msg @ r' | (Inl e, r') \<Rightarrow> False"
  using read_message_exact [OF sample_recv_documented, of "[3, 9]"]
  by (simp add: read_message_def sample_recv_def)

lemma report_receiver_trims_witness:
  "\<exists>m'. run_report_receiver sample_recv (mutex_new (sample_log 0 [] 5 2)) [3, 2, 0] = Some (Ret m')
    \<and> inner (guarded m') = 0"
  using report_receiver_trims [OF sample_recv_documented, of "mutex_new (sample_log 0 [] 5 2)" "[3, 2, 0]"]
  by (auto simp: mutex_new_def sample_log_def)

lemma reports_end_to_end_witness:
  "\<exists>m'. run_report_receiver sample_recv (mutex_new (sample_log 0 [] 5 2)) ([2] @ u64_to_be_bytes 4) = Some (Ret m')
    \<and> checkpoint (guarded m') = 4"
proof -
  have "run_report_sender sample_send [] [(9, False), (4, True)] = (False, [2] @ u64_to_be_bytes 4)"
    by (simp add: sample_send_def write_message_def encode_message_def)
  from reports_end_to_end [OF sample_send_documented sample_recv_documented this,
      of "[2] @ u64_to_be_bytes 4" "mutex_new (sample_log 0 [] 5 2)"]
  show ?thesis by (auto simp: mutex_new_def sample_log_def)
qed

end
