(* ===== verification/Sync.thy ===== *)
theory Sync
  imports Preamble Group
begin

text \<open>
  The synchronisation of the two ends. Bob's side is the sink closure of \<open>run_bob\<close>
  (\<open>testbed-runner/src/main.rs\<close>); the protocol is Alice's commit log, Bob's sink, the preamble
  datagrams and the epoch reports between them as a step relation, over a network that loses,
  repeats and reorders: a datagram or report, once sent, may be delivered at any later time, any
  number of times, or never. Any part of a preamble may be sent, since \<open>send_preamble\<close> stops at the
  first error of the socket, and a commit that the library refuses is a step too. The commits Alice made and
  the reports her log was trimmed by, in order, and Bob's first group are kept as ghost state to say what
  each of them has.
\<close>

record 'b Bob =
  bob_group :: "'b mutex"
  local_epoch :: "u64 mutex"
  epoch_tx :: u64

definition bob_new :: "'b \<Rightarrow> 'b Bob" where
  "bob_new g = \<lparr>bob_group = mutex_new g, local_epoch = mutex_new 0, epoch_tx = 0\<rparr>"

text \<open>The sink; what it only logs is left out, so the arms of its \<open>match\<close> coincide.\<close>

definition commit_sink :: "('b, 'e) ExportSecret \<Rightarrow> 'b Bob \<Rightarrow> window \<Rightarrow> 'b Bob panics" where
  "commit_sink ops bob window = do {
     group \<leftarrow> mutex_lock (bob_group bob);
     epoch \<leftarrow> mutex_lock (local_epoch bob);
     let before = epoch;
     (_, group, epoch) \<leftarrow> apply_commit_window ops group window epoch;
     let bob = bob\<lparr>bob_group := (bob_group bob)\<lparr>guarded := group\<rparr>,
                   local_epoch := (local_epoch bob)\<lparr>guarded := epoch\<rparr>\<rparr>;
     let (new_epoch, changed) = (epoch, epoch \<noteq> before);
     Ret (if changed then bob\<lparr>epoch_tx := new_epoch\<rparr> else bob)
   }"

definition bob_socket :: "('b, 'e) ExportSecret \<Rightarrow> (unit, 'b Bob panics) PreambleSocket" where
  "bob_socket ops = preamble_socket_new () (Some (\<lambda>s window. s \<bind> (\<lambda>bob. commit_sink ops bob window)))"

text \<open>Bob's socket receives a datagram that starts with the preamble marker.\<close>

definition bob_receive :: "('b, 'e) ExportSecret \<Rightarrow> bytes \<Rightarrow> 'b Bob \<Rightarrow> 'b Bob panics" where
  "bob_receive ops datagram bob =
     handle_preamble_datagram (bob_socket ops) (tl datagram) (Ret bob) \<bind> (\<lambda>s. s)"

record ('g, 'b) system =
  alice :: "'g CommitLog"
  bob :: "'b Bob"
  net :: "bytes set"
  reports :: "u64 set"
  history :: "bytes list"
  taken :: "u64 list"
  bob_start :: 'b

definition sync_init :: "('g, 'b) system \<Rightarrow> bool" where
  "sync_init s \<longleftrightarrow> commit_log_init (alice s) \<and> bob s = bob_new (bob_start s)
     \<and> net s = {} \<and> reports s = {} \<and> history s = [] \<and> taken s = []"

inductive sync_step ::
    "('g, 'e) ExportSecret \<Rightarrow> ('b, 'f) ExportSecret \<Rightarrow> nat \<Rightarrow> ('g, 'b) system \<Rightarrow> ('g, 'b) system \<Rightarrow> bool"
  for aops bops budget where
  sync_commit: "current_epoch (alice s) \<noteq> - 1 \<Longrightarrow>
     create_commit (commit_log_ops aops) (alice s) = Ret (Inr b, l) \<Longrightarrow>
     sync_step aops bops budget s (s\<lparr>alice := l, history := history s @ [b]\<rparr>)"
| sync_commit_fail: "create_commit (commit_log_ops aops) (alice s) = Ret (Inl e, l) \<Longrightarrow>
     sync_step aops bops budget s (s\<lparr>alice := l\<rparr>)"
| sync_send: "ds \<subseteq> set (preamble_datagrams (window_bytes (alice s)) budget) \<Longrightarrow>
     sync_step aops bops budget s (s\<lparr>net := net s \<union> ds\<rparr>)"
| sync_deliver: "d \<in> net s \<Longrightarrow> bob_receive bops d (bob s) = Ret b \<Longrightarrow>
     sync_step aops bops budget s (s\<lparr>bob := b\<rparr>)"
| sync_report: "sync_step aops bops budget s (s\<lparr>reports := insert (epoch_tx (bob s)) (reports s)\<rparr>)"
| sync_trim: "k \<in> reports s \<Longrightarrow> sync_step aops bops budget s (s\<lparr>alice := trim (alice s) k, taken := taken s @ [k]\<rparr>)"

subsection \<open>Replaying against a history\<close>

text \<open>A commit that the library rejects leaves the group as it was.\<close>

definition apply_atomic :: "('b, 'e) ExportSecret \<Rightarrow> bool" where
  "apply_atomic ops \<longleftrightarrow> (\<forall>g b e g'. apply_commit ops g b = Ret (Inl e, g') \<longrightarrow> g' = g)"

lemma apply_atomicD: "apply_atomic ops \<Longrightarrow> apply_commit ops g b = Ret (Inl e, g') \<Longrightarrow> g = g'"
  unfolding apply_atomic_def by metis

lemma apply_commits_applied:
  "apply_atomic ops \<Longrightarrow> apply_commits ops g bs = Ret (r, g', n) \<Longrightarrow>
     apply_commits ops g (take n bs) = Ret (Inr (), g', n)"
  by (induction bs arbitrary: g n)
    (auto dest: apply_atomicD split: bind_splits sum.splits)

lemma apply_commits_append:
  "apply_commits ops g xs = Ret (Inr (), g', n) \<Longrightarrow>
     apply_commits ops g (xs @ ys) = map_option (\<lambda>(r, g'', k). (r, g'', n + k)) (apply_commits ops g' ys)"
proof (induction xs arbitrary: g n)
  case Nil
  then show ?case by (cases "apply_commits ops g ys") auto
next
  case (Cons b xs)
  then obtain g1 m where "apply_commit ops g b = Ret (Inr (), g1)" "apply_commits ops g1 xs = Ret (Inr (), g', m)" "n = Suc m"
    by (auto split: bind_splits sum.splits)
  with Cons.IH show ?case by (cases "apply_commits ops g' ys") auto
qed

lemma apply_commit_window_append:
  "apply_commit_window ops g (w @ w') le =
     (case apply_commit_window ops g w le of
        Some (Inr _, g', le') \<Rightarrow> apply_commit_window ops g' w' le'
      | r \<Rightarrow> r)"
  by (induction ops g w le rule: apply_commit_window.induct)
    (auto split: bind_splits sum.splits option.splits)

text \<open>A window that is a piece of the history.\<close>

definition piece :: "bytes list \<Rightarrow> window \<Rightarrow> bool" where
  "piece h w \<longleftrightarrow> (\<exists>a b. a \<le> b \<and> map fst w = epochs a b \<and> unat b \<le> length h
     \<and> map snd w = take (unat b - unat a) (drop (unat a) h))"

definition covers :: "bytes list \<Rightarrow> u64 \<Rightarrow> u64 \<Rightarrow> window \<Rightarrow> bool" where
  "covers h c k w \<longleftrightarrow> c \<le> k \<and> map fst w = epochs c k \<and> unat k \<le> length h
     \<and> map snd w = take (unat k - unat c) (drop (unat c) h)"

lemma covers_Nil: "covers h c k [] \<Longrightarrow> k = c"
  unfolding covers_def by (auto dest: arg_cong [of _ _ length] simp: word_le_nat_alt word_unat_eq_iff)

lemma covers_piece: "covers h c k w \<Longrightarrow> piece h w"
  unfolding covers_def piece_def by blast

lemma piece_covers: "piece h w \<Longrightarrow> \<exists>c k. covers h c k w"
  unfolding covers_def piece_def by blast

lemma covers_extend: "covers h c k w \<Longrightarrow> covers (h @ h') c k w"
  unfolding covers_def by (elim conjE) (simp add: word_le_nat_alt)

lemma covers_append:
  assumes "covers h c k (xs @ ys)"
  obtains m where "covers h c m xs" "covers h m k ys"
proof -
  from assms have ck: "c \<le> k" and keys: "map fst xs @ map fst ys = epochs c k" and top: "unat k \<le> length h"
    and vals: "map snd xs @ map snd ys = take (unat k - unat c) (drop (unat c) h)"
    unfolding covers_def by simp_all
  define m :: u64 where "m = word_of_nat (unat c + length xs)"
  from arg_cong [OF keys, of length] have len: "length xs + length ys = unat k - unat c" by simp
  then have bound: "unat c + length xs \<le> unat k" using ck by (simp add: word_le_nat_alt)
  moreover have "unat k < 2 ^ 64" using unat_lt2p [of k] by simp
  ultimately have um: "unat m = unat c + length xs" unfolding m_def by (intro unat_u64) simp
  then have m: "c \<le> m" "m \<le> k" using bound by (simp_all add: word_le_nat_alt)
  have "map fst xs = take (length xs) (epochs c k)" by (simp flip: keys)
  also have "\<dots> = epochs c m" using len by (simp add: take_epochs m_def)
  finally have "covers h c m xs"
    using m bound top um len arg_cong [OF vals, of "take (length xs)"] by (simp add: covers_def min_def)
  moreover have "map fst ys = drop (length xs) (epochs c k)" by (simp flip: keys)
  then have "map fst ys = epochs m k" using drop_epochs [OF m] um by simp
  then have "covers h m k ys"
    using m top um arg_cong [OF vals, of "drop (length xs)"] by (simp add: covers_def drop_take add.commute)
  ultimately show ?thesis by (rule that)
qed

lemma piece_extend: "piece h w \<Longrightarrow> piece (h @ h') w"
  unfolding piece_def by (elim exE conjE) (auto intro!: exI simp: word_le_nat_alt)

text \<open>What Bob has: the first \<open>local_epoch\<close> commits of the history, applied to his first group.\<close>

definition bob_ok :: "('b, 'e) ExportSecret \<Rightarrow> 'b \<Rightarrow> bytes list \<Rightarrow> 'b Bob \<Rightarrow> bool" where
  "bob_ok ops g0 h bb \<longleftrightarrow> \<not> poisoned (bob_group bb) \<and> \<not> poisoned (local_epoch bb)
     \<and> guarded (local_epoch bb) = epoch_tx bb \<and> unat (epoch_tx bb) \<le> length h
     \<and> apply_commits ops g0 (take (unat (epoch_tx bb)) h) = Ret (Inr (), guarded (bob_group bb), unat (epoch_tx bb))"

lemma bob_ok_le: "bob_ok ops g0 h bb \<Longrightarrow> unat (epoch_tx bb) \<le> length h"
  unfolding bob_ok_def by blast

lemma bob_ok_extend: "bob_ok ops g0 h bb \<Longrightarrow> bob_ok ops g0 (h @ h') bb"
  unfolding bob_ok_def by (elim conjE) simp

lemma replay_piece:
  assumes "apply_atomic ops" and "piece h w" and "length h < 2 ^ 64" and "unat le \<le> length h"
    and "apply_commits ops g0 (take (unat le) h) = Ret (Inr (), g, unat le)"
    and "apply_commit_window ops g w le = Ret (r, g', le')"
  shows "le \<le> le' \<and> unat le' \<le> length h \<and> apply_commits ops g0 (take (unat le') h) = Ret (Inr (), g', unat le')"
proof -
  from assms(2) obtain a b where ab: "a \<le> b" "map fst w = epochs a b" "unat b \<le> length h"
    and sw: "map snd w = take (unat b - unat a) (drop (unat a) h)"
    unfolding piece_def by blast
  have mono: "le \<le> le'" using assms(6) by (rule apply_commit_window_mono)
  consider "w = []" | "w \<noteq> []" "le < a" | "a \<le> le" by fastforce
  then show ?thesis
  proof cases
    case 1
    with assms(4-6) show ?thesis by simp
  next
    case 2
    then have "apply_commit_window ops g w le = Ret (Inl ResyncNeeded, g, le)"
      by (intro apply_commit_window_gap [OF ab(2)])
    with assms(4-6) show ?thesis by simp
  next
    case 3
    let ?d = "unat le - unat a"
    have "map snd (drop ?d w) = take (unat b - unat a - ?d) (drop (unat a + ?d) h)"
      by (simp add: drop_map [symmetric] sw drop_take add.commute)
    moreover have "unat a + ?d = unat le" using 3 by (simp add: word_le_nat_alt)
    ultimately obtain m where sd: "map snd (drop ?d w) = take m (drop (unat le) h)" by metis
    have "map_option (replayed le) (apply_commits ops g (take m (drop (unat le) h))) = Ret (r, g', le')"
      by (simp only: assms(6) sd [symmetric] apply_commit_window_range [OF ab(2) 3, symmetric])
    then obtain r0 n where n: "apply_commits ops g (take m (drop (unat le) h)) = Ret (r0, g', n)" "le' = le + word_of_nat n"
      by (auto simp: replayed_def)
    have nm: "n \<le> length (take m (drop (unat le) h))" using apply_commits_count [OF n(1)] by simp
    then have "n \<le> length h - unat le" by simp
    with assms(4) have len: "unat le + n \<le> length h" by linarith
    then have le': "unat le' = unat le + n" using assms(3) n(2) by (simp add: unat_word_ariths unat_of_nat)
    have "n \<le> m" using nm by simp
    then have "take n (take m (drop (unat le) h)) = take n (drop (unat le) h)" by (simp add: min_absorb1)
    with apply_commits_applied [OF assms(1) n(1)]
    have "apply_commits ops g (take n (drop (unat le) h)) = Ret (Inr (), g', n)" by simp
    with apply_commits_append [OF assms(5), of "take n (drop (unat le) h)"]
    have "apply_commits ops g0 (take (unat le + n) h) = Ret (Inr (), g', unat le + n)"
      by (simp add: take_add)
    with mono le' len show ?thesis by simp
  qed
qed

lemma commit_sink_eq:
  assumes "\<not> poisoned (bob_group bb)" and "\<not> poisoned (local_epoch bb)"
    and "guarded (local_epoch bb) = epoch_tx bb"
  shows "commit_sink ops bb w = map_option (\<lambda>(r, g, le).
      bb\<lparr>bob_group := (bob_group bb)\<lparr>guarded := g\<rparr>, local_epoch := (local_epoch bb)\<lparr>guarded := le\<rparr>, epoch_tx := le\<rparr>)
    (apply_commit_window ops (guarded (bob_group bb)) w (epoch_tx bb))"
proof (cases "apply_commit_window ops (guarded (bob_group bb)) w (epoch_tx bb)")
  case (Some x)
  then show ?thesis
    using assms by (cases x) (auto simp: commit_sink_def mutex_lock_def Let_def intro!: Bob.equality)
qed (use assms in \<open>simp add: commit_sink_def mutex_lock_def\<close>)

lemma bob_receive_window:
  "decode_transcript (tl d) = Ret (Inr w) \<Longrightarrow> bob_receive ops d bb = commit_sink ops bb w"
  by (simp add: bob_receive_def handle_preamble_datagram_def bob_socket_def preamble_socket_new_def)

lemma sink_keeps_bob_ok:
  assumes "apply_atomic ops" and "piece h w" and "length h < 2 ^ 64" and "bob_ok ops g0 h bb"
    and "commit_sink ops bb w = Ret bb'"
  shows "bob_ok ops g0 h bb' \<and> epoch_tx bb \<le> epoch_tx bb'"
proof -
  from assms(4) have ok: "\<not> poisoned (bob_group bb)" "\<not> poisoned (local_epoch bb)"
    "guarded (local_epoch bb) = epoch_tx bb" "unat (epoch_tx bb) \<le> length h"
    "apply_commits ops g0 (take (unat (epoch_tx bb)) h) = Ret (Inr (), guarded (bob_group bb), unat (epoch_tx bb))"
    unfolding bob_ok_def by blast+
  from trans [OF commit_sink_eq [OF ok(1-3), of ops w, symmetric] assms(5)] obtain r g le where
    a: "apply_commit_window ops (guarded (bob_group bb)) w (epoch_tx bb) = Ret (r, g, le)" and
    b: "bb' = bb\<lparr>bob_group := (bob_group bb)\<lparr>guarded := g\<rparr>, local_epoch := (local_epoch bb)\<lparr>guarded := le\<rparr>, epoch_tx := le\<rparr>"
    by auto
  from replay_piece [OF assms(1,2,3) ok(4,5) a] ok b show ?thesis by (simp add: bob_ok_def)
qed

text \<open>
  If the library accepts the whole history, then replaying a window that begins no later than the
  receiver's epoch takes him at least to its end.
\<close>

lemma apply_commits_prefix:
  "apply_commits ops g (xs @ ys) = Ret (Inr (), g', n) \<Longrightarrow> \<exists>g1. apply_commits ops g xs = Ret (Inr (), g1, length xs)"
  by (induction xs arbitrary: g n) (fastforce split: bind_splits sum.splits)+

lemma sink_catches_up:
  assumes "length h < 2 ^ 64" and "bob_ok ops g0 h bb" and "apply_commits ops g0 h = Ret (Inr (), gh, length h)"
    and "covers h a b w"
  shows "\<exists>bb'. commit_sink ops bb w = Ret bb' \<and> (a \<le> epoch_tx bb \<longrightarrow> b \<le> epoch_tx bb')"
proof -
  let ?le = "epoch_tx bb" and ?g = "guarded (bob_group bb)"
  from assms(2) have ok: "\<not> poisoned (bob_group bb)" "\<not> poisoned (local_epoch bb)"
    "guarded (local_epoch bb) = ?le" "unat ?le \<le> length h"
    "apply_commits ops g0 (take (unat ?le) h) = Ret (Inr (), ?g, unat ?le)"
    unfolding bob_ok_def by blast+
  from assms(4) have ab: "a \<le> b" "map fst w = epochs a b" "unat b \<le> length h"
    "map snd w = take (unat b - unat a) (drop (unat a) h)" unfolding covers_def by blast+
  consider "w = []" | "w \<noteq> []" "?le < a" | "a \<le> ?le" by fastforce
  then have "\<exists>r g le'. apply_commit_window ops ?g w ?le = Ret (r, g, le') \<and> (a \<le> ?le \<longrightarrow> b \<le> le')"
  proof cases
    case 1
    with covers_Nil assms(4) have "b = a" by blast
    with 1 show ?thesis by simp
  next
    case 2
    then have "apply_commit_window ops ?g w ?le = Ret (Inl ResyncNeeded, ?g, ?le)"
      by (intro apply_commit_window_gap [OF ab(2)])
    moreover from 2 have "\<not> a \<le> ?le" by (simp add: not_le)
    ultimately show ?thesis by blast
  next
    case 3
    let ?m = "unat b - unat ?le"
    have "map snd (drop (unat ?le - unat a) w) = take ?m (drop (unat ?le) h)"
      using 3 ab(1) by (simp add: drop_map [symmetric] ab(4) drop_take word_le_nat_alt add.commute)
    with apply_commit_window_range [OF ab(2) 3, of ops ?g]
    have w: "apply_commit_window ops ?g w ?le = map_option (replayed ?le) (apply_commits ops ?g (take ?m (drop (unat ?le) h)))"
      by simp
    from apply_commits_append [OF ok(5), of "drop (unat ?le) h", symmetric] assms(3)
    obtain k where "apply_commits ops ?g (drop (unat ?le) h) = Ret (Inr (), gh, k)"
      by auto
    then have "apply_commits ops ?g (take ?m (drop (unat ?le) h) @ drop ?m (drop (unat ?le) h)) = Ret (Inr (), gh, k)"
      by (simp only: append_take_drop_id)
    from apply_commits_prefix [OF this] obtain g1 where
      "apply_commits ops ?g (take ?m (drop (unat ?le) h)) = Ret (Inr (), g1, min ?m (length h - unat ?le))"
      by (auto simp: min.commute)
    with w have r: "apply_commit_window ops ?g w ?le = Ret (Inr (), g1, ?le + word_of_nat ?m)"
      using ab(3) by (simp add: replayed_def min_absorb1 diff_le_mono)
    have "b \<le> ?le + word_of_nat ?m"
      using ok(4) ab(3) assms(1) by (simp add: word_le_nat_alt unat_word_ariths unat_of_nat)
    with r show ?thesis by blast
  qed
  then show ?thesis by (auto simp: commit_sink_eq [OF ok(1-3)])
qed

subsection \<open>The invariant\<close>

definition sync_inv :: "('b, 'f) ExportSecret \<Rightarrow> ('g, 'b) system \<Rightarrow> bool" where
  "sync_inv bops s \<longleftrightarrow> commit_log_inv (alice s)
     \<and> length (history s) = unat (current_epoch (alice s))
     \<and> map snd (window_bytes (alice s)) = drop (unat (checkpoint (alice s))) (history s)
     \<and> bob_ok bops (bob_start s) (history s) (bob s)
     \<and> (\<forall>d \<in> net s. \<exists>w. decode_transcript (tl d) = Ret (Inr w) \<and> piece (history s) w)
     \<and> (\<forall>k \<in> reports s. k \<le> epoch_tx (bob s))
     \<and> checkpoint (alice s) \<le> epoch_tx (bob s)"

lemma sync_invD:
  assumes "sync_inv bops s"
  shows "commit_log_inv (alice s)" "length (history s) = unat (current_epoch (alice s))"
    "map snd (window_bytes (alice s)) = drop (unat (checkpoint (alice s))) (history s)"
    "bob_ok bops (bob_start s) (history s) (bob s)"
    "d \<in> net s \<Longrightarrow> \<exists>w. decode_transcript (tl d) = Ret (Inr w) \<and> piece (history s) w"
    "k \<in> reports s \<Longrightarrow> k \<le> epoch_tx (bob s)" "checkpoint (alice s) \<le> epoch_tx (bob s)"
  using assms unfolding sync_inv_def by blast+

lemma sync_init_inv:
  assumes "sync_init s"
  shows "sync_inv bops s"
proof -
  from assms obtain g where "alice s = commit_log_new g" "bob s = bob_new (bob_start s)"
    "net s = {}" "reports s = {}" "history s = []"
    unfolding sync_init_def commit_log_init_def by blast
  then show ?thesis
    unfolding sync_inv_def
    by (simp add: commit_log_new_inv bob_ok_def bob_new_def mutex_new_def window_bytes_def btree_iter_def)
      (simp add: commit_log_new_def btree_new_def)
qed

lemma history_bound: "sync_inv bops s \<Longrightarrow> length (history s) < 2 ^ 64"
  using sync_invD(2) [of bops s] unat_lt2p [of "current_epoch (alice s)"] by simp

text \<open>Every bucket of the log's window is a piece of the history.\<close>

lemma concat_bucket_split:
  assumes "b \<in> set bs"
  obtains xs ys where "concat bs = xs @ b @ ys"
proof -
  from assms obtain us vs where "bs = us @ b # vs" by (meson split_list)
  then show ?thesis using that [of "concat us" "concat vs"] by simp
qed

lemma piece_sublist:
  assumes "piece h (xs @ b @ ys)"
  shows "piece h b"
proof -
  from assms obtain a e where "covers h a e (xs @ b @ ys)" using piece_covers by blast
  then obtain c where "covers h c e (b @ ys)" by (rule covers_append)
  then obtain f where "covers h c f b" by (rule covers_append)
  then show ?thesis by (rule covers_piece)
qed

lemma window_piece:
  assumes "sync_inv bops s"
  shows "piece (history s) (window_bytes (alice s))"
  unfolding piece_def
proof (intro exI conjI)
  note inv = sync_invD(1) [OF assms]
  show "checkpoint (alice s) \<le> current_epoch (alice s)" by (rule log_source.chk_le [OF inv])
  show "map fst (window_bytes (alice s)) = epochs (checkpoint (alice s)) (current_epoch (alice s))"
    by (rule log_source.win_epochs [OF inv])
  show "unat (current_epoch (alice s)) \<le> length (history s)"
    by (simp add: sync_invD(2) [OF assms])
  show "map snd (window_bytes (alice s)) = take (unat (current_epoch (alice s)) - unat (checkpoint (alice s)))
      (drop (unat (checkpoint (alice s))) (history s))"
    using sync_invD(2,3) [OF assms] by simp
qed

lemma sent_pieces:
  assumes "sync_inv bops s" and "d \<in> set (preamble_datagrams (window_bytes (alice s)) budget)"
  shows "\<exists>w. decode_transcript (tl d) = Ret (Inr w) \<and> piece (history s) w"
proof -
  let ?bs = "bucket_window (window_bytes (alice s)) budget (MAX_DATAGRAM_PAYLOAD - 1)"
  from assms(2) obtain b where b: "b \<in> set ?bs" "d = PREAMBLE_MARKER # encode_transcript b usize_MAX"
    by (auto simp: preamble_datagrams_def)
  from packer.pack_prefix obtain rest where rest: "window_bytes (alice s) = concat ?bs @ rest"
    by (metis prefix_def)
  obtain xs ys where "concat ?bs = xs @ b @ ys" using b(1) by (rule concat_bucket_split)
  with rest window_piece [OF assms(1)] have "piece (history s) (xs @ b @ ys @ rest)" by simp
  then have "piece (history s) b" by (rule piece_sublist)
  with b preamble_bucket_ok(3) [OF b(1)] show ?thesis by simp
qed

lemma sync_step_inv:
  assumes "sync_step aops bops budget s t" and "apply_atomic bops" and inv: "sync_inv bops s"
  shows "sync_inv bops t"
  using assms(1)
proof cases
  case (sync_commit b l)
  then have l: "commit_log_inv l" "window_bytes l = window_bytes (alice s) @ [(current_epoch (alice s) + 1, b)]"
    "current_epoch l = current_epoch (alice s) + 1" "checkpoint l = checkpoint (alice s)"
    using create_commit_Inr [OF sync_invD(1) [OF inv] sync_commit(2), of aops b l]
    by (simp_all add: commit_log_ops_simps)
  have le: "unat (checkpoint (alice s)) \<le> length (history s)"
    using log_source.chk_le [OF sync_invD(1) [OF inv]] sync_invD(2) [OF inv] by (simp add: word_le_nat_alt)
  have "bob_ok bops (bob_start s) (history s @ [b]) (bob s)"
    using sync_invD(4) [OF inv] by (rule bob_ok_extend)
  moreover have "\<exists>w. decode_transcript (tl d) = Ret (Inr w) \<and> piece (history s @ [b]) w" if "d \<in> net s" for d
    using sync_invD(5) [OF inv that] piece_extend by blast
  ultimately show ?thesis
    using sync_commit l inv le unat_succ' [OF sync_commit(2)] unfolding sync_inv_def by simp
next
  case (sync_commit_fail e l)
  then obtain g where "l = alice s\<lparr>inner := g\<rparr>"
    by (auto simp: commit_log_ops_simps dest!: create_commit_Inl)
  with sync_commit_fail inv show ?thesis unfolding sync_inv_def by simp
next
  case (sync_send ds)
  with inv sent_pieces [OF inv] show ?thesis unfolding sync_inv_def by auto
next
  case (sync_deliver d b)
  from sync_invD(5) [OF inv sync_deliver(2)] obtain w where w: "decode_transcript (tl d) = Ret (Inr w)"
    "piece (history s) w" by blast
  from sync_deliver(3) bob_receive_window [OF w(1), of bops "bob s"] have "commit_sink bops (bob s) w = Ret b" by simp
  from sink_keeps_bob_ok [OF assms(2) w(2) history_bound [OF inv] sync_invD(4) [OF inv] this]
  have "bob_ok bops (bob_start s) (history s) b" "epoch_tx (bob s) \<le> epoch_tx b" by blast+
  with sync_deliver inv show ?thesis unfolding sync_inv_def by (auto intro: order_trans)
next
  case sync_report
  with inv show ?thesis unfolding sync_inv_def by auto
next
  case (sync_trim k)
  have k: "k \<le> epoch_tx (bob s)" using sync_invD(6) [OF inv sync_trim(2)] .
  have c: "checkpoint (alice s) \<le> checkpoint (trim (alice s) k)" by (simp add: trim_checkpoint)
  have cc: "checkpoint (trim (alice s) k) \<le> current_epoch (alice s)"
    using log_source.chk_le [OF sync_invD(1) [OF inv]] by (simp add: trim_checkpoint)
  have w: "window_bytes (trim (alice s) k) =
      drop (unat (checkpoint (trim (alice s) k)) - unat (checkpoint (alice s))) (window_bytes (alice s))"
    by (simp only: window_bytes_trim filter_window_drop [OF log_source.win_epochs [OF sync_invD(1) [OF inv]] c cc])
  have "map snd (window_bytes (trim (alice s) k)) = drop (unat (checkpoint (trim (alice s) k))) (history s)"
    using c by (simp add: w sync_invD(3) [OF inv] word_le_nat_alt flip: drop_map)
  moreover have "checkpoint (trim (alice s) k) \<le> epoch_tx (bob s)"
    using k sync_invD(7) [OF inv] by (simp add: trim_checkpoint min.coboundedI1)
  ultimately show ?thesis
    using sync_trim inv trim_inv [OF sync_invD(1) [OF inv]] unfolding sync_inv_def by simp
qed

interpretation sync: machine_invariant sync_init "sync_step aops bops budget"
  "\<lambda>s. apply_atomic bops \<longrightarrow> sync_inv bops s" for aops bops budget
  by unfold_locales (auto intro: sync_init_inv sync_step_inv)

lemma reach_sync_inv:
  "reach sync_init (sync_step aops bops budget) s \<Longrightarrow> apply_atomic bops \<Longrightarrow> sync_inv bops s"
  using sync.reach_inv by blast

text \<open>The checkpoint comes from the reports: it is below whatever is above all of them.\<close>

interpretation trimmed: machine_invariant sync_init "sync_step aops bops budget"
  "\<lambda>s. \<forall>e. (\<forall>k \<in> reports s. k \<le> e) \<longrightarrow> checkpoint (alice s) \<le> e" for aops bops budget
proof
  fix s :: "('a, 'b) system"
  assume "sync_init s"
  then obtain g where "alice s = commit_log_new g" unfolding sync_init_def commit_log_init_def by blast
  then have "checkpoint (alice s) = 0" by (simp add: commit_log_new_def)
  then show "\<forall>e. (\<forall>k \<in> reports s. k \<le> e) \<longrightarrow> checkpoint (alice s) \<le> e" by simp
next
  fix s t :: "('a, 'b) system"
  assume inv: "\<forall>e. (\<forall>k \<in> reports s. k \<le> e) \<longrightarrow> checkpoint (alice s) \<le> e" and "sync_step aops bops budget s t"
  from this(2) show "\<forall>e. (\<forall>k \<in> reports t. k \<le> e) \<longrightarrow> checkpoint (alice t) \<le> e"
  proof cases
    case (sync_commit b l)
    then have "checkpoint l = checkpoint (alice s)"
      by (auto simp: commit_log_ops_simps commit_log_create_commit_def Let_def split: bind_splits sum.splits)
    with inv sync_commit show ?thesis by simp
  next
    case (sync_commit_fail e l)
    then have "checkpoint l = checkpoint (alice s)" by (auto simp: commit_log_ops_simps dest: create_commit_Inl)
    with inv sync_commit_fail show ?thesis by simp
  next
    case (sync_trim k)
    with inv show ?thesis by (auto simp: trim_checkpoint intro: min.coboundedI1)
  qed (use inv in auto)
qed

text \<open>
  The checkpoint is the greatest report the log was trimmed by: the clamping to the current epoch and the
  comparison with the old checkpoint never lose one, since no report is above the current epoch.
\<close>

definition taken_ok :: "('g, 'b) system \<Rightarrow> bool" where
  "taken_ok s \<longleftrightarrow> checkpoint (alice s) = fold max (taken s) 0 \<and> set (taken s) \<subseteq> reports s"

lemma taken_step:
  assumes "sync_step aops bops budget s t" and inv: "sync_inv bops s" and ok: "taken_ok s"
  shows "taken_ok t"
  using assms(1)
proof cases
  case (sync_commit b l)
  then have "checkpoint l = checkpoint (alice s)"
    by (auto simp: commit_log_ops_simps commit_log_create_commit_def Let_def split: bind_splits sum.splits)
  with ok sync_commit show ?thesis by (simp add: taken_ok_def)
next
  case (sync_commit_fail e l)
  then have "checkpoint l = checkpoint (alice s)" by (auto simp: commit_log_ops_simps dest: create_commit_Inl)
  with ok sync_commit_fail show ?thesis by (simp add: taken_ok_def)
next
  case (sync_trim k)
  have "k \<le> epoch_tx (bob s)" using sync_invD(6) [OF inv sync_trim(2)] .
  also have "\<dots> \<le> current_epoch (alice s)"
    using sync_invD(2) [OF inv] bob_ok_le [OF sync_invD(4) [OF inv]] by (simp only: word_le_nat_alt)
  finally have "min k (current_epoch (alice s)) = k" by (rule min_absorb1)
  with ok sync_trim show ?thesis by (auto simp: taken_ok_def trim_checkpoint max.commute)
qed (use ok in \<open>auto simp: taken_ok_def\<close>)

interpretation taking: machine_invariant sync_init "sync_step aops bops budget"
  "\<lambda>s. apply_atomic bops \<longrightarrow> sync_inv bops s \<and> taken_ok s" for aops bops budget
proof
  fix s :: "('a, 'b) system"
  assume init: "sync_init s"
  then obtain g where "alice s = commit_log_new g" unfolding sync_init_def commit_log_init_def by blast
  with init have "taken_ok s" by (simp add: taken_ok_def sync_init_def commit_log_new_def)
  with init show "apply_atomic bops \<longrightarrow> sync_inv bops s \<and> taken_ok s" by (simp add: sync_init_inv)
qed (blast intro: sync_step_inv taken_step)

lemma reach_taken:
  "reach sync_init (sync_step aops bops budget) s \<Longrightarrow> apply_atomic bops \<Longrightarrow> taken_ok s"
  using taking.reach_inv by blast

lemma fold_max_upper: "x \<in> set xs \<Longrightarrow> x \<le> fold max xs (a :: 'a :: linorder)"
  by (induction xs rule: rev_induct) (auto intro: max.coboundedI2)

lemma fold_max_least: "\<forall>x \<in> set xs. x \<le> b \<Longrightarrow> a \<le> b \<Longrightarrow> fold max xs a \<le> (b :: 'a :: linorder)"
  by (induction xs arbitrary: a) auto

text \<open>A report of the current epoch empties the log, and only an epoch Bob has reached is reported.\<close>

lemma taken_empties:
  assumes "sync_inv bops s" and "taken_ok s" and "current_epoch (alice s) \<in> set (taken s)"
  shows "window_bytes (alice s) = [] \<and> epoch_tx (bob s) = current_epoch (alice s)"
proof -
  note inv = sync_invD [OF assms(1)]
  from assms(2,3) fold_max_upper [OF assms(3), of 0] log_source.chk_le [OF inv(1)]
  have "checkpoint (alice s) = current_epoch (alice s)" by (simp add: taken_ok_def)
  moreover from this log_source.win_epochs [OF inv(1)] have "window_bytes (alice s) = []" by simp
  moreover have "epoch_tx (bob s) \<le> current_epoch (alice s)"
    using inv(2) bob_ok_le [OF inv(4)] by (simp only: word_le_nat_alt)
  ultimately show ?thesis using inv(7) by simp
qed

subsection \<open>Recovery\<close>

text \<open>Delivering datagrams one after another.\<close>

fun receive_all :: "('b, 'e) ExportSecret \<Rightarrow> bytes list \<Rightarrow> 'b Bob \<Rightarrow> 'b Bob panics" where
  "receive_all ops [] bb = Ret bb"
| "receive_all ops (d # ds) bb = bob_receive ops d bb \<bind> receive_all ops ds"

lemma receive_buckets:
  "apply_commit_window ops (guarded (bob_group bb)) (concat bs) (epoch_tx bb) = Ret (Inr (), g, le) \<Longrightarrow>
   \<not> poisoned (bob_group bb) \<Longrightarrow> \<not> poisoned (local_epoch bb) \<Longrightarrow> guarded (local_epoch bb) = epoch_tx bb \<Longrightarrow>
   \<forall>b \<in> set bs. decode_transcript (tl (f b)) = Ret (Inr b) \<Longrightarrow>
     \<exists>bb'. receive_all ops (map f bs) bb = Ret bb' \<and> epoch_tx bb' = le \<and> guarded (bob_group bb') = g
       \<and> guarded (local_epoch bb') = le"
proof (induction bs arbitrary: bb)
  case (Cons b bs)
  from Cons.prems(1) obtain g1 le1 where w: "apply_commit_window ops (guarded (bob_group bb)) b (epoch_tx bb) = Ret (Inr (), g1, le1)"
    and rest: "apply_commit_window ops g1 (concat bs) le1 = Ret (Inr (), g, le)"
    by (auto simp: apply_commit_window_append split: option.splits sum.splits)
  let ?bb = "bb\<lparr>bob_group := (bob_group bb)\<lparr>guarded := g1\<rparr>, local_epoch := (local_epoch bb)\<lparr>guarded := le1\<rparr>, epoch_tx := le1\<rparr>"
  have "bob_receive ops (f b) bb = Ret ?bb"
    using Cons.prems(5) bob_receive_window [of "f b" b ops bb] commit_sink_eq [OF Cons.prems(2-4), of ops b] w by simp
  moreover have "\<exists>bb'. receive_all ops (map f bs) ?bb = Ret bb' \<and> epoch_tx bb' = le \<and> guarded (bob_group bb') = g
       \<and> guarded (local_epoch bb') = le"
    by (rule Cons.IH) (use rest Cons.prems in auto)
  ultimately show ?case by simp
qed auto

lemma receive_all_steps:
  "receive_all bops ds (bob s) = Ret bb \<Longrightarrow> set ds \<subseteq> net s \<Longrightarrow>
     (sync_step aops bops budget)\<^sup>*\<^sup>* s (s\<lparr>bob := bb\<rparr>)"
proof (induction ds arbitrary: s)
  case Nil
  then have "s\<lparr>bob := bb\<rparr> = s" by (intro system.equality) simp_all
  then show ?case by simp
next
  case (Cons d ds)
  then obtain b where b: "bob_receive bops d (bob s) = Ret b" "receive_all bops ds b = Ret bb"
    by (auto split: bind_splits)
  have "sync_step aops bops budget s (s\<lparr>bob := b\<rparr>)" by (rule sync_deliver [OF _ b(1)]) (use Cons.prems(2) in simp)
  moreover have "(sync_step aops bops budget)\<^sup>*\<^sup>* (s\<lparr>bob := b\<rparr>) (s\<lparr>bob := b\<rparr>\<lparr>bob := bb\<rparr>)"
    using Cons.IH [of "s\<lparr>bob := b\<rparr>"] Cons.prems(2) b(2) by simp
  ultimately show ?case by simp
qed

text \<open>What the log still offers beyond an epoch that was not trimmed.\<close>

lemma window_after:
  assumes inv: "sync_inv bops s" and c: "checkpoint (alice s) \<le> e" "e \<le> current_epoch (alice s)"
  shows "map snd (filter (\<lambda>x. e < fst x) (window_bytes (alice s))) = drop (unat e) (history s)"
  using sync_invD(3) [OF inv] c(1)
  by (simp add: filter_window_drop [OF log_source.win_epochs [OF sync_invD(1) [OF inv]] c] word_le_nat_alt flip: drop_map)

lemma sync_state_safe:
  assumes inv: "sync_inv bops s"
  shows "checkpoint (alice s) \<le> epoch_tx (bob s) \<and> epoch_tx (bob s) \<le> current_epoch (alice s)
    \<and> guarded (local_epoch (bob s)) = epoch_tx (bob s)
    \<and> apply_commits bops (bob_start s) (take (unat (epoch_tx (bob s))) (history s))
        = Ret (Inr (), guarded (bob_group (bob s)), unat (epoch_tx (bob s)))
    \<and> map snd (filter (\<lambda>e. epoch_tx (bob s) < fst e) (window_bytes (alice s)))
        = drop (unat (epoch_tx (bob s))) (history s)"
proof -
  have le: "epoch_tx (bob s) \<le> current_epoch (alice s)"
    using sync_invD(2) [OF inv] bob_ok_le [OF sync_invD(4) [OF inv]] by (simp only: word_le_nat_alt)
  with window_after [OF inv sync_invD(7) [OF inv] le] sync_invD(4,7) [OF inv] show ?thesis by (simp add: bob_ok_def)
qed

text \<open>
  C1: Synchronisation is safe. Whatever datagrams and reports are lost, repeated or reordered, in
  every reachable state Alice's checkpoint is at most Bob's epoch, Bob's epoch at most Alice's, Bob's
  group is his first group with exactly the first commits of Alice's history applied, as many as his
  epoch says, the epoch he reports is that epoch, and Alice still holds every commit he lacks, so that
  no resync is ever needed. The only assumption is that a commit the library rejects leaves the
  group as it was.
\<close>

theorem sync_safety:
  assumes "reach sync_init (sync_step aops bops budget) s" and "apply_atomic bops"
  shows "checkpoint (alice s) \<le> epoch_tx (bob s) \<and> epoch_tx (bob s) \<le> current_epoch (alice s)
    \<and> guarded (local_epoch (bob s)) = epoch_tx (bob s)
    \<and> apply_commits bops (bob_start s) (take (unat (epoch_tx (bob s))) (history s))
        = Ret (Inr (), guarded (bob_group (bob s)), unat (epoch_tx (bob s)))
    \<and> map snd (filter (\<lambda>e. epoch_tx (bob s) < fst e) (window_bytes (alice s)))
        = drop (unat (epoch_tx (bob s))) (history s)"
  by (rule sync_state_safe [OF reach_sync_inv [OF assms]])

text \<open>
  C2: Recovery after any outage. From every reachable state in which Bob's group accepts Alice's
  history and every pending commit fits a datagram and the budget, one preamble delivered in order
  brings Bob to Alice's epoch with her whole history applied, and one report after it empties the
  log: the protocol can always get to a fully synchronised state, whatever was lost before.
\<close>

theorem sync_recovery:
  assumes "reach sync_init (sync_step aops bops budget) s" and "apply_atomic bops"
    and "apply_commits bops (bob_start s) (history s) = Ret (Inr (), g, length (history s))"
    and "\<forall>e \<in> set (window_bytes (alice s)). length (snd e) \<le> 1179"
    and "sum_list (map entry_wire_len (window_bytes (alice s))) \<le> budget"
  shows "\<exists>t. (sync_step aops bops budget)\<^sup>*\<^sup>* s t
    \<and> epoch_tx (bob t) = current_epoch (alice s) \<and> guarded (bob_group (bob t)) = g
    \<and> current_epoch (alice t) = current_epoch (alice s) \<and> window_bytes (alice t) = []"
proof -
  note inv = reach_sync_inv [OF assms(1,2)]
  note ok = sync_invD(4) [OF inv, unfolded bob_ok_def]
  let ?w = "window_bytes (alice s)" and ?bs = "bucket_window (window_bytes (alice s)) budget (MAX_DATAGRAM_PAYLOAD - 1)"
  have len: "length (history s) = unat (current_epoch (alice s))" by (rule sync_invD(2) [OF inv])
  have le: "epoch_tx (bob s) \<le> current_epoch (alice s)" 
    using len bob_ok_le [OF sync_invD(4) [OF inv]] by (simp only: word_le_nat_alt)
  have all: "concat ?bs = ?w" by (rule bucket_window_all) (use assms(4,5) in auto)
  let ?n = "unat (epoch_tx (bob s))"
  have "apply_commits bops (bob_start s) (take ?n (history s)) = Ret (Inr (), guarded (bob_group (bob s)), ?n)"
    using ok by blast
  from apply_commits_append [OF this, of "drop ?n (history s)", symmetric] assms(3)
  obtain k where gk: "apply_commits bops (guarded (bob_group (bob s))) (drop ?n (history s)) = Ret (Inr (), g, k)"
    by (auto simp: append_take_drop_id)
  have "map snd (drop (?n - unat (checkpoint (alice s))) ?w) = drop ?n (history s)"
    using sync_invD(3,7) [OF inv] by (simp add: word_le_nat_alt flip: drop_map)
  with gk have "apply_commits bops (guarded (bob_group (bob s)))
      (map snd (drop (?n - unat (checkpoint (alice s))) ?w)) = Ret (Inr (), g, k)" by simp
  from log_source.catches_up [OF sync_invD(1) [OF inv] sync_invD(7) [OF inv] le this]
  have "apply_commit_window bops (guarded (bob_group (bob s))) (concat ?bs) (epoch_tx (bob s))
      = Ret (Inr (), g, current_epoch (alice s))" by (simp only: all)
  from receive_buckets [OF this, of "\<lambda>b. PREAMBLE_MARKER # encode_transcript b usize_MAX"] ok preamble_bucket_ok(3)
  obtain bb where bb: "receive_all bops (preamble_datagrams ?w budget) (bob s) = Ret bb"
    "epoch_tx bb = current_epoch (alice s)" "guarded (bob_group bb) = g"
    unfolding preamble_datagrams_def by auto
  let ?s1 = "s\<lparr>net := net s \<union> set (preamble_datagrams ?w budget)\<rparr>"
  let ?s2 = "?s1\<lparr>bob := bb\<rparr>"
  let ?s3 = "?s2\<lparr>reports := insert (epoch_tx (bob ?s2)) (reports ?s2)\<rparr>"
  let ?t = "?s3\<lparr>alice := trim (alice ?s3) (current_epoch (alice s)), taken := taken ?s3 @ [current_epoch (alice s)]\<rparr>"
  have "sync_step aops bops budget s ?s1" by (rule sync_send [OF order_refl])
  moreover have "(sync_step aops bops budget)\<^sup>*\<^sup>* ?s1 ?s2" by (rule receive_all_steps) (use bb(1) in auto)
  moreover have "sync_step aops bops budget ?s2 ?s3" by (rule sync_report)
  moreover have "sync_step aops bops budget ?s3 ?t" by (rule sync_trim) (use bb(2) in simp)
  ultimately have "(sync_step aops bops budget)\<^sup>*\<^sup>* s ?t"
    by (meson converse_rtranclp_into_rtranclp rtranclp.rtrancl_into_rtrancl)
  moreover have "checkpoint (trim (alice s) (current_epoch (alice s))) = current_epoch (alice s)"
    using log_source.chk_le [OF sync_invD(1) [OF inv]] by (simp add: trim_checkpoint max_def)
  then have "window_bytes (alice ?t) = []"
    using epochs_keyD [OF log_source.win_epochs [OF sync_invD(1) [OF inv]]]
    by (auto simp: window_bytes_trim filter_empty_conv not_less)
  ultimately show ?thesis using bb by (intro exI [of _ ?t]) simp
qed

subsection \<open>Witnesses\<close>

lemma sample_atomic: "apply_atomic sample_ops"
  by (simp add: apply_atomic_def)

definition sample_system :: "nat CommitLog \<Rightarrow> bytes list \<Rightarrow> (nat, nat) system" where
  "sample_system l h = \<lparr>alice = l, bob = bob_new 0, net = {}, reports = {}, history = h, taken = [], bob_start = 0\<rparr>"

lemma sample_system_reached:
  "reach sync_init (sync_step sample_ops sample_ops 1000) (sample_system (sample_log 1 [(1, [1])] 1 0) [[1]])"
proof -
  have "sync_init (sample_system (sample_log 0 [] 0 0) [])"
    by (simp add: sync_init_def sample_system_def commit_log_init_def commit_log_new_def sample_log_def btree_new_def)
  moreover have "sync_step sample_ops sample_ops 1000 (sample_system (sample_log 0 [] 0 0) [])
      (sample_system (sample_log 0 [] 0 0) []\<lparr>alice := sample_log 1 [(1, [1])] 1 0, history := history (sample_system (sample_log 0 [] 0 0) []) @ [[1]]\<rparr>)"
    by (rule sync_commit) (simp_all add: sample_system_def sample_log_create, simp add: sample_log_def)
  ultimately have "reach sync_init (sync_step sample_ops sample_ops 1000)
      (sample_system (sample_log 0 [] 0 0) []\<lparr>alice := sample_log 1 [(1, [1])] 1 0, history := history (sample_system (sample_log 0 [] 0 0) []) @ [[1]]\<rparr>)"
    by (rule reach_step [OF reach_init])
  then show ?thesis by (simp add: sample_system_def)
qed

lemma sync_safety_witness:
  "map snd (filter (\<lambda>e. 0 < fst e) (window_bytes (sample_log 1 [(1, [1])] 1 0))) = [[1]]"
  using sync_safety [OF sample_system_reached sample_atomic]
  by (simp add: sample_system_def bob_new_def mutex_new_def)

lemma sync_recovery_witness:
  "\<exists>t. (sync_step sample_ops sample_ops 1000)\<^sup>*\<^sup>* (sample_system (sample_log 1 [(1, [1])] 1 0) [[1]]) t
    \<and> epoch_tx (bob t) = 1 \<and> guarded (bob_group (bob t)) = 1 \<and> window_bytes (alice t) = []"
proof -
  let ?s = "sample_system (sample_log 1 [(1, [1])] 1 0) [[1]]"
  have w: "window_bytes (alice ?s) = [(1, [1])]"
    by (simp add: sample_system_def sample_log_simps)
  have h1: "apply_commits sample_ops (bob_start ?s) (history ?s) = Ret (Inr (), 1, length (history ?s))"
    by (simp add: sample_system_def)
  have h2: "\<forall>e \<in> set (window_bytes (alice ?s)). length (snd e) \<le> 1179"
    by (simp only: w) simp
  have h3: "sum_list (map entry_wire_len (window_bytes (alice ?s))) \<le> 1000"
    by (simp only: w) (simp add: entry_wire_len_def)
  have h4: "current_epoch (alice ?s) = 1" by (simp add: sample_system_def sample_log_def)
  from sync_recovery [OF sample_system_reached sample_atomic h1 h2 h3] obtain t where
    "(sync_step sample_ops sample_ops 1000)\<^sup>*\<^sup>* ?s t" "epoch_tx (bob t) = current_epoch (alice ?s)"
    "guarded (bob_group (bob t)) = 1" "window_bytes (alice t) = []" by (elim exE conjE)
  then show ?thesis unfolding h4 by blast
qed

end
