(* ===== verification/Args.thy ===== *)
theory Args
  imports Prelude
begin

text \<open>
  The command line of the testbed runner (\<open>parse_args\<close> in \<open>testbed-runner/src/main.rs\<close>). Arguments
  are taken in pairs of a flag and its value; a flag without a value, an unknown flag and a value
  that does not parse are panics. The parser of socket addresses is a parameter; unsigned integers
  are parsed as \<open>FromStr\<close> of \<open>u64\<close> and \<open>usize\<close> does (an optional plus sign, at least one digit,
  no overflow). A \<open>Duration\<close> is its number of nanoseconds. The loop is compared with a reference
  that reads every option off the last pair that sets it.
\<close>

datatype Role = Alice | Bob

type_synonym duration = nat

definition from_secs :: "nat \<Rightarrow> duration" where
  "from_secs n = n * 1000000000"

definition DEFAULT_TRANSCRIPT_MAX_BYTES :: nat where
  "DEFAULT_TRANSCRIPT_MAX_BYTES = 2 ^ 64 - 1"

fun parse_digits :: "nat \<Rightarrow> nat \<Rightarrow> string \<Rightarrow> nat option" where
  "parse_digits limit acc [] = Some acc"
| "parse_digits limit acc (c # cs) =
     (let d = (of_char c :: nat)
      in if 48 \<le> d \<and> d \<le> 57 \<and> acc * 10 + (d - 48) < limit
         then parse_digits limit (acc * 10 + (d - 48)) cs else None)"

text \<open>\<open>str::parse\<close> at an unsigned type with values below \<open>limit\<close>.\<close>

definition parse_uint :: "nat \<Rightarrow> string \<Rightarrow> nat option" where
  "parse_uint limit s =
     (let s = (if s \<noteq> [] \<and> hd s = CHR ''+'' then tl s else s)
      in if s = [] then None else parse_digits limit 0 s)"

definition parse_secs :: "string \<Rightarrow> duration panics" where
  "parse_secs v = do { n \<leftarrow> parse_uint (2 ^ 64) v; Ret (from_secs n) }"

definition parse_role :: "string \<Rightarrow> Role panics" where
  "parse_role v = (if v = ''alice'' then Ret Alice else if v = ''bob'' then Ret Bob else Panic)"

record 'a Args =
  role :: Role
  bind_addr :: 'a
  peer_addr :: "'a option"
  bootstrap_dir :: string
  commit_interval :: duration
  duration :: duration
  out_path :: string
  blackout_on :: duration
  blackout_off :: duration
  report_timeout :: duration
  transcript_max_bytes :: nat

text \<open>The mutable locals of the function.\<close>

record 'a arg_vars =
  v_role :: "Role option"
  v_bind_addr :: "'a option"
  v_peer_addr :: "'a option"
  v_bootstrap_dir :: string
  v_commit_interval :: duration
  v_duration :: duration
  v_out_path :: string
  v_blackout_on :: duration
  v_blackout_off :: duration
  v_report_timeout :: duration
  v_transcript_max_bytes :: nat

definition arg_defaults :: "'a arg_vars" where
  "arg_defaults =
     \<lparr>v_role = None, v_bind_addr = None, v_peer_addr = None,
      v_bootstrap_dir = ''/tmp/testbed-bootstrap'', v_commit_interval = from_secs 30,
      v_duration = from_secs 120, v_out_path = ''testbed-runner.csv'', v_blackout_on = from_secs 0,
      v_blackout_off = from_secs 0, v_report_timeout = from_secs 10,
      v_transcript_max_bytes = DEFAULT_TRANSCRIPT_MAX_BYTES\<rparr>"

text \<open>The \<open>match\<close> on the flag, with the value that follows it.\<close>

definition set_flag :: "(string \<Rightarrow> 'a option) \<Rightarrow> string \<Rightarrow> string \<Rightarrow> 'a arg_vars \<Rightarrow> 'a arg_vars panics" where
  "set_flag parse_addr flag v st =
     (if flag = ''--role'' then do { r \<leftarrow> parse_role v; Ret (st\<lparr>v_role := Some r\<rparr>) }
      else if flag = ''--bind'' then do { a \<leftarrow> parse_addr v; Ret (st\<lparr>v_bind_addr := Some a\<rparr>) }
      else if flag = ''--peer'' then do { a \<leftarrow> parse_addr v; Ret (st\<lparr>v_peer_addr := Some a\<rparr>) }
      else if flag = ''--bootstrap-dir'' then Ret (st\<lparr>v_bootstrap_dir := v\<rparr>)
      else if flag = ''--commit-interval-secs'' then do { d \<leftarrow> parse_secs v; Ret (st\<lparr>v_commit_interval := d\<rparr>) }
      else if flag = ''--duration-secs'' then do { d \<leftarrow> parse_secs v; Ret (st\<lparr>v_duration := d\<rparr>) }
      else if flag = ''--out'' then Ret (st\<lparr>v_out_path := v\<rparr>)
      else if flag = ''--blackout-on-secs'' then do { d \<leftarrow> parse_secs v; Ret (st\<lparr>v_blackout_on := d\<rparr>) }
      else if flag = ''--blackout-off-secs'' then do { d \<leftarrow> parse_secs v; Ret (st\<lparr>v_blackout_off := d\<rparr>) }
      else if flag = ''--report-timeout-secs'' then do { d \<leftarrow> parse_secs v; Ret (st\<lparr>v_report_timeout := d\<rparr>) }
      else if flag = ''--transcript-max-bytes'' then do {
        n \<leftarrow> parse_uint (2 ^ 64) v; Ret (st\<lparr>v_transcript_max_bytes := n\<rparr>) }
      else Panic)"

text \<open>The loop; a last flag without a value panics whether it is known or not.\<close>

fun parse_flags :: "(string \<Rightarrow> 'a option) \<Rightarrow> string list \<Rightarrow> 'a arg_vars \<Rightarrow> 'a arg_vars panics" where
  "parse_flags parse_addr [] st = Ret st"
| "parse_flags parse_addr [flag] st = Panic"
| "parse_flags parse_addr (flag # v # args) st = do {
     st \<leftarrow> set_flag parse_addr flag v st;
     parse_flags parse_addr args st
   }"

definition parse_args :: "(string \<Rightarrow> 'a option) \<Rightarrow> string list \<Rightarrow> 'a Args panics" where
  "parse_args parse_addr args = do {
     st \<leftarrow> parse_flags parse_addr args arg_defaults;
     r \<leftarrow> v_role st;
     b \<leftarrow> v_bind_addr st;
     Ret \<lparr>role = r, bind_addr = b, peer_addr = v_peer_addr st, bootstrap_dir = v_bootstrap_dir st,
          commit_interval = v_commit_interval st, duration = v_duration st, out_path = v_out_path st,
          blackout_on = v_blackout_on st, blackout_off = v_blackout_off st,
          report_timeout = v_report_timeout st, transcript_max_bytes = v_transcript_max_bytes st\<rparr>
   }"

subsection \<open>A reference\<close>

text \<open>The pairs of an argument list, and the value of the last pair that sets a flag.\<close>

fun arg_pairs :: "string list \<Rightarrow> (string \<times> string) list" where
  "arg_pairs (flag # v # args) = (flag, v) # arg_pairs args"
| "arg_pairs args = []"

definition last_value :: "string \<Rightarrow> string list \<Rightarrow> string option" where
  "last_value flag args = map_of (rev (arg_pairs args)) flag"

text \<open>Which values each flag takes.\<close>

definition valid_pair :: "(string \<Rightarrow> 'a option) \<Rightarrow> string \<times> string \<Rightarrow> bool" where
  "valid_pair parse_addr p \<longleftrightarrow>
     (case p of (flag, v) \<Rightarrow>
        flag = ''--role'' \<and> v \<in> {''alice'', ''bob''}
      \<or> flag \<in> {''--bind'', ''--peer''} \<and> parse_addr v \<noteq> None
      \<or> flag \<in> {''--bootstrap-dir'', ''--out''}
      \<or> flag \<in> {''--commit-interval-secs'', ''--duration-secs'', ''--blackout-on-secs'', ''--blackout-off-secs'',
                ''--report-timeout-secs'', ''--transcript-max-bytes''} \<and> parse_uint (2 ^ 64) v \<noteq> None)"

definition value_or :: "string \<Rightarrow> (string \<Rightarrow> 'b) \<Rightarrow> 'b \<Rightarrow> string list \<Rightarrow> 'b" where
  "value_or flag conv dflt args = (case last_value flag args of None \<Rightarrow> dflt | Some v \<Rightarrow> conv v)"

definition the_secs :: "string \<Rightarrow> duration" where
  "the_secs v = from_secs (the (parse_uint (2 ^ 64) v))"

lemma set_flag_valid: "set_flag pa flag v st = Panic \<longleftrightarrow> \<not> valid_pair pa (flag, v)"
  by (auto simp: set_flag_def valid_pair_def parse_role_def parse_secs_def split: bind_splits)

lemma if_eq_elim: "(if b then x else y) = z \<Longrightarrow> (b \<Longrightarrow> x = z \<Longrightarrow> P) \<Longrightarrow> (\<not> b \<Longrightarrow> y = z \<Longrightarrow> P) \<Longrightarrow> P"
  by (cases b) simp_all

lemma set_flag_cases:
  assumes "set_flag pa flag v st = Ret st'"
  obtains (role) r where "flag = ''--role''" "parse_role v = Some r" "st' = st\<lparr>v_role := Some r\<rparr>"
    | (bind) a where "flag = ''--bind''" "pa v = Some a" "st' = st\<lparr>v_bind_addr := Some a\<rparr>"
    | (peer) a where "flag = ''--peer''" "pa v = Some a" "st' = st\<lparr>v_peer_addr := Some a\<rparr>"
    | (dir) "flag = ''--bootstrap-dir''" "st' = st\<lparr>v_bootstrap_dir := v\<rparr>"
    | (interval) "flag = ''--commit-interval-secs''" "st' = st\<lparr>v_commit_interval := the_secs v\<rparr>"
    | (duration) "flag = ''--duration-secs''" "st' = st\<lparr>v_duration := the_secs v\<rparr>"
    | (out) "flag = ''--out''" "st' = st\<lparr>v_out_path := v\<rparr>"
    | (on) "flag = ''--blackout-on-secs''" "st' = st\<lparr>v_blackout_on := the_secs v\<rparr>"
    | (off) "flag = ''--blackout-off-secs''" "st' = st\<lparr>v_blackout_off := the_secs v\<rparr>"
    | (timeout) "flag = ''--report-timeout-secs''" "st' = st\<lparr>v_report_timeout := the_secs v\<rparr>"
    | (max) "flag = ''--transcript-max-bytes''"
        "st' = st\<lparr>v_transcript_max_bytes := the (parse_uint (2 ^ 64) v)\<rparr>"
  using assms unfolding set_flag_def parse_secs_def
  by (elim if_eq_elim; simp only: bind_eq_Some_conv option.inject option.distinct;
      (elim exE conjE)?; simp only: option.sel the_secs_def; blast intro: that)

lemma set_flag_field:
  assumes "set_flag pa flag v st = Ret st'"
  shows "v_role st' = (if flag = ''--role'' then parse_role v else v_role st)"
    and "v_bind_addr st' = (if flag = ''--bind'' then pa v else v_bind_addr st)"
    and "v_peer_addr st' = (if flag = ''--peer'' then pa v else v_peer_addr st)"
    and "v_bootstrap_dir st' = (if flag = ''--bootstrap-dir'' then v else v_bootstrap_dir st)"
    and "v_commit_interval st' = (if flag = ''--commit-interval-secs'' then the_secs v else v_commit_interval st)"
    and "v_duration st' = (if flag = ''--duration-secs'' then the_secs v else v_duration st)"
    and "v_out_path st' = (if flag = ''--out'' then v else v_out_path st)"
    and "v_blackout_on st' = (if flag = ''--blackout-on-secs'' then the_secs v else v_blackout_on st)"
    and "v_blackout_off st' = (if flag = ''--blackout-off-secs'' then the_secs v else v_blackout_off st)"
    and "v_report_timeout st' = (if flag = ''--report-timeout-secs'' then the_secs v else v_report_timeout st)"
    and "v_transcript_max_bytes st' = (if flag = ''--transcript-max-bytes'' then the (parse_uint (2 ^ 64) v) else v_transcript_max_bytes st)"
  using assms by (cases rule: set_flag_cases; simp)+

lemma parse_flags_valid:
  "parse_flags pa args st \<noteq> Panic \<longleftrightarrow> even (length args) \<and> (\<forall>p \<in> set (arg_pairs args). valid_pair pa p)"
proof (induction pa args st rule: parse_flags.induct)
  case (3 pa flag v args st)
  then show ?case using set_flag_valid [of pa flag v st] by (cases "set_flag pa flag v st") auto
qed simp_all

lemma parse_flags_field:
  assumes "\<And>flag v st st'. set_flag pa flag v st = Ret st' \<Longrightarrow> get st' = (if flag = f then conv v else get st)"
    and "parse_flags pa args st = Ret st'"
  shows "get st' = value_or f conv (get st) args"
  using assms(2)
proof (induction args arbitrary: st rule: arg_pairs.induct)
  case (1 flag v args)
  then obtain st1 where st1: "set_flag pa flag v st = Ret st1" "parse_flags pa args st1 = Ret st'"
    by (auto split: bind_splits)
  from 1 (1) [OF st1(2)] assms(1) [OF st1(1)] show ?case
    by (auto simp: value_or_def last_value_def map_add_def split: option.split)
qed (auto simp: value_or_def last_value_def)

lemma parse_flags_fields:
  assumes "parse_flags pa args st = Ret st'"
  shows "v_role st' = value_or ''--role'' parse_role (v_role st) args"
    and "v_bind_addr st' = value_or ''--bind'' pa (v_bind_addr st) args"
    and "v_peer_addr st' = value_or ''--peer'' pa (v_peer_addr st) args"
    and "v_bootstrap_dir st' = value_or ''--bootstrap-dir'' id (v_bootstrap_dir st) args"
    and "v_commit_interval st' = value_or ''--commit-interval-secs'' the_secs (v_commit_interval st) args"
    and "v_duration st' = value_or ''--duration-secs'' the_secs (v_duration st) args"
    and "v_out_path st' = value_or ''--out'' id (v_out_path st) args"
    and "v_blackout_on st' = value_or ''--blackout-on-secs'' the_secs (v_blackout_on st) args"
    and "v_blackout_off st' = value_or ''--blackout-off-secs'' the_secs (v_blackout_off st) args"
    and "v_report_timeout st' = value_or ''--report-timeout-secs'' the_secs (v_report_timeout st) args"
    and "v_transcript_max_bytes st' = value_or ''--transcript-max-bytes'' (\<lambda>v. the (parse_uint (2 ^ 64) v)) (v_transcript_max_bytes st) args"
  by (rule parse_flags_field [OF _ assms], simp add: set_flag_field)+

lemma last_value_valid:
  "last_value flag args = Some v \<Longrightarrow> \<forall>p \<in> set (arg_pairs args). valid_pair pa p \<Longrightarrow> valid_pair pa (flag, v)"
  unfolding last_value_def by (drule map_of_SomeD) auto

lemma valid_role: "valid_pair pa (''--role'', v) \<longleftrightarrow> parse_role v \<noteq> None"
  by (simp add: valid_pair_def parse_role_def)

lemma valid_bind: "valid_pair pa (''--bind'', v) \<longleftrightarrow> pa v \<noteq> None"
  by (simp add: valid_pair_def)

lemma from_secs_0: "from_secs 0 = 0"
  by (simp add: from_secs_def)

text \<open>
  C14: Arguments. The command line is accepted exactly if it is a sequence of known flags each followed
  by a value that parses, with \<open>--role\<close> and \<open>--bind\<close> among them; then every option has the value
  given last, or its default if it is not given. Everything else is a panic.
\<close>

theorem parse_args_last_wins:
  "parse_args pa args =
    (if even (length args) \<and> (\<forall>p \<in> set (arg_pairs args). valid_pair pa p)
        \<and> last_value ''--role'' args \<noteq> None \<and> last_value ''--bind'' args \<noteq> None
     then Ret \<lparr>role = the (parse_role (the (last_value ''--role'' args))),
       bind_addr = the (pa (the (last_value ''--bind'' args))),
       peer_addr = value_or ''--peer'' pa None args,
       bootstrap_dir = value_or ''--bootstrap-dir'' id ''/tmp/testbed-bootstrap'' args,
       commit_interval = value_or ''--commit-interval-secs'' the_secs (from_secs 30) args,
       duration = value_or ''--duration-secs'' the_secs (from_secs 120) args,
       out_path = value_or ''--out'' id ''testbed-runner.csv'' args,
       blackout_on = value_or ''--blackout-on-secs'' the_secs 0 args,
       blackout_off = value_or ''--blackout-off-secs'' the_secs 0 args,
       report_timeout = value_or ''--report-timeout-secs'' the_secs (from_secs 10) args,
       transcript_max_bytes = value_or ''--transcript-max-bytes'' (\<lambda>v. the (parse_uint (2 ^ 64) v)) (2 ^ 64 - 1) args\<rparr>
     else Panic)"
proof (cases "parse_flags pa args arg_defaults")
  case None
  with parse_flags_valid [of pa args arg_defaults] show ?thesis by (auto simp: parse_args_def)
next
  case (Some st)
  then have valid: "even (length args)" "\<forall>p \<in> set (arg_pairs args). valid_pair pa p"
    using parse_flags_valid [of pa args arg_defaults] by auto
  note fields = parse_flags_fields [OF Some]
  have "v_role st = None \<longleftrightarrow> last_value ''--role'' args = None"
    and "v_bind_addr st = None \<longleftrightarrow> last_value ''--bind'' args = None"
    using last_value_valid [OF _ valid(2), of "''--role''"] last_value_valid [OF _ valid(2), of "''--bind''"]
    by (simp_all add: fields(1,2) valid_role valid_bind value_or_def arg_defaults_def split: option.splits)
  moreover have "v_role st \<noteq> None \<Longrightarrow> the (parse_role (the (last_value ''--role'' args))) = the (v_role st)"
    and "v_bind_addr st \<noteq> None \<Longrightarrow> the (pa (the (last_value ''--bind'' args))) = the (v_bind_addr st)"
    using fields(1,2) by (auto simp: value_or_def arg_defaults_def split: option.splits)
  moreover have "parse_args pa args = do { r \<leftarrow> v_role st; b \<leftarrow> v_bind_addr st;
      Ret \<lparr>role = r, bind_addr = b, peer_addr = v_peer_addr st, bootstrap_dir = v_bootstrap_dir st,
          commit_interval = v_commit_interval st, duration = v_duration st, out_path = v_out_path st,
          blackout_on = v_blackout_on st, blackout_off = v_blackout_off st,
          report_timeout = v_report_timeout st, transcript_max_bytes = v_transcript_max_bytes st\<rparr> }"
    by (simp only: parse_args_def Some bind.bind_lunit)
  ultimately show ?thesis
    by (cases "v_role st"; cases "v_bind_addr st")
      (simp_all only: fields(3-) arg_defaults_def arg_vars.simps bind.simps if_True if_False simp_thms
        from_secs_0 DEFAULT_TRANSCRIPT_MAX_BYTES_def option.distinct option.sel
        not_False_eq_True True_implies_equals eqTrueI [OF valid(1)] eqTrueI [OF valid(2)])
qed

text \<open>The last \<open>--role\<close> counts, and what is not given has its default.\<close>

definition sample_line :: "string list" where
  "sample_line = [''--role'', ''alice'', ''--bind'', ''10.0.0.1:5000'', ''--role'', ''bob'', ''--duration-secs'', ''7'']"

lemma parse_args_last_wins_witness:
  "case parse_args Some sample_line of
     None \<Rightarrow> False
   | Some a \<Rightarrow> role a = Bob \<and> bind_addr a = ''10.0.0.1:5000'' \<and> peer_addr a = None \<and> duration a = from_secs 7
       \<and> out_path a = ''testbed-runner.csv''"
proof -
  have pairs: "arg_pairs sample_line
      = [(''--role'', ''alice''), (''--bind'', ''10.0.0.1:5000''), (''--role'', ''bob''), (''--duration-secs'', ''7'')]"
    by (simp add: sample_line_def)
  have seven: "parse_uint (2 ^ 64) ''7'' = Some 7" by (simp add: parse_uint_def)
  have "even (length sample_line)" by (simp add: sample_line_def)
  moreover have "\<forall>p \<in> set (arg_pairs sample_line). valid_pair Some p"
    by (simp add: pairs valid_pair_def seven [simplified])
  moreover have "last_value ''--role'' sample_line = Some ''bob''" "last_value ''--bind'' sample_line = Some ''10.0.0.1:5000''"
    "last_value ''--peer'' sample_line = None" "last_value ''--duration-secs'' sample_line = Some ''7''"
    "last_value ''--out'' sample_line = None"
    by (simp_all add: last_value_def pairs)
  ultimately show ?thesis
    using parse_args_last_wins [of Some sample_line]
    by (simp add: value_or_def parse_role_def the_secs_def seven [simplified])
qed

end
