(* ===== verification/Runtime.thy ===== *)
theory Runtime
  imports Args
begin

text \<open>
  The asynchronous code of the testbed runner (\<open>testbed-runner/src/main.rs\<close>) as programs over an
  explicit state. A program returns a value or stops: with the error that a \<open>?\<close> hands up, with a
  panic and its message, or because the number of loop iterations it was given is used up and it is
  still \<open>Running\<close>. A stopped program keeps the state it reached, so that what holds at every stop
  holds throughout an execution, ending or not. Statements are joined with \<open>and_then\<close>.

  The theory has the rules for reasoning about such programs, a contract of what every statement
  preserves, the telemetry rows, and the two small waiting loops. The clock, the file system and the
  network are parameters over a state \<open>'w\<close> of the outside world.
\<close>

datatype 'e stop = Failed 'e | Panicked string | Running

type_synonym ('s, 'e, 'x) program = "'s \<Rightarrow> ('e stop + 'x) \<times> 's"

definition pure :: "'x \<Rightarrow> ('s, 'e, 'x) program" where
  "pure x s = (Inr x, s)"

definition halt :: "'e stop \<Rightarrow> ('s, 'e, 'x) program" where
  "halt e s = (Inl e, s)"

definition and_then :: "('s, 'e, 'x) program \<Rightarrow> ('x \<Rightarrow> ('s, 'e, 'y) program) \<Rightarrow> ('s, 'e, 'y) program" where
  "and_then m k s = (case m s of (Inl e, s) \<Rightarrow> (Inl e, s) | (Inr x, s) \<Rightarrow> k x s)"

definition get_state :: "('s \<Rightarrow> 'x) \<Rightarrow> ('s, 'e, 'x) program" where
  "get_state f s = (Inr (f s), s)"

definition set_state :: "('s \<Rightarrow> 's) \<Rightarrow> ('s, 'e, unit) program" where
  "set_state f s = (Inr (), f s)"

text \<open>\<open>expect(message)\<close> of an option or a result, and the operator \<open>?\<close> of a result.\<close>

definition expect :: "string \<Rightarrow> 'x option \<Rightarrow> ('s, 'e, 'x) program" where
  "expect message r = (case r of None \<Rightarrow> halt (Panicked message) | Some x \<Rightarrow> pure x)"

definition question :: "'e + 'x \<Rightarrow> ('s, 'e, 'x) program" where
  "question r = (case r of Inl e \<Rightarrow> halt (Failed e) | Inr x \<Rightarrow> pure x)"

text \<open>A loop of at most so many iterations. The body says whether it continues or breaks with a value.\<close>

datatype 'x control = Continue | Break 'x

fun repeat :: "nat \<Rightarrow> ('s, 'e, 'x control) program \<Rightarrow> ('s, 'e, 'x) program" where
  "repeat 0 body = halt Running"
| "repeat (Suc n) body = and_then body (\<lambda>c. case c of Continue \<Rightarrow> repeat n body | Break x \<Rightarrow> pure x)"

text \<open>\<open>for i in first..=last\<close>, by the number of iterations left.\<close>

fun for_count :: "(nat \<Rightarrow> ('s, 'e, unit) program) \<Rightarrow> nat \<Rightarrow> nat \<Rightarrow> ('s, 'e, unit) program" where
  "for_count body i 0 = pure ()"
| "for_count body i (Suc n) = and_then (body i) (\<lambda>_. for_count body (Suc i) n)"

definition for_range :: "(nat \<Rightarrow> ('s, 'e, unit) program) \<Rightarrow> nat \<Rightarrow> nat \<Rightarrow> ('s, 'e, unit) program" where
  "for_range body a b = for_count body a (Suc b - a)"

text \<open>A call into the outside world, for a program whose state has the world as a part.\<close>

definition call :: "('w \<Rightarrow> 'x \<times> 'w) \<Rightarrow> ('w, 'e, 'x) program" where
  "call f w = (case f w of (x, w) \<Rightarrow> (Inr x, w))"

definition zoom :: "('s \<Rightarrow> 'w) \<Rightarrow> ('w \<Rightarrow> 's \<Rightarrow> 's) \<Rightarrow> ('w, 'e, 'x) program \<Rightarrow> ('s, 'e, 'x) program" where
  "zoom get put m s = (case m (get s) of (r, w) \<Rightarrow> (r, put w s))"

subsection \<open>Reasoning about programs\<close>

text \<open>
  From a state with \<open>P\<close>, the program ends in \<open>Q\<close> of its value and the state, or stops in \<open>R\<close> of
  the reason and the state.
\<close>

definition triple ::
    "('s \<Rightarrow> bool) \<Rightarrow> ('s, 'e, 'x) program \<Rightarrow> ('x \<Rightarrow> 's \<Rightarrow> bool) \<Rightarrow> ('e stop \<Rightarrow> 's \<Rightarrow> bool) \<Rightarrow> bool" where
  "triple P m Q R \<longleftrightarrow> (\<forall>s. P s \<longrightarrow> (case m s of (Inr x, t) \<Rightarrow> Q x t | (Inl e, t) \<Rightarrow> R e t))"

named_theorems triples \<open>rules for the statements of a program\<close>

lemma tripleD: "triple P m Q R \<Longrightarrow> P s \<Longrightarrow> m s = (Inr x, t) \<Longrightarrow> Q x t"
  and tripleE: "triple P m Q R \<Longrightarrow> P s \<Longrightarrow> m s = (Inl e, t) \<Longrightarrow> R e t"
  unfolding triple_def by fastforce+

lemma triple_pure [triples]: "(\<And>s. P s \<Longrightarrow> Q x s) \<Longrightarrow> triple P (pure x) Q R"
  by (simp add: triple_def pure_def)

lemma triple_halt [triples]: "(\<And>s. P s \<Longrightarrow> R e s) \<Longrightarrow> triple P (halt e) Q R"
  by (simp add: triple_def halt_def)

lemma triple_get_state [triples]: "(\<And>s. P s \<Longrightarrow> Q (f s) s) \<Longrightarrow> triple P (get_state f) Q R"
  by (simp add: triple_def get_state_def)

lemma triple_set_state [triples]: "(\<And>s. P s \<Longrightarrow> Q () (f s)) \<Longrightarrow> triple P (set_state f) Q R"
  by (simp add: triple_def set_state_def)

lemma triple_question:
  "(\<And>x s. P s \<Longrightarrow> r = Inr x \<Longrightarrow> Q x s) \<Longrightarrow> (\<And>e s. P s \<Longrightarrow> r = Inl e \<Longrightarrow> R (Failed e) s)
     \<Longrightarrow> triple P (question r) Q R"
  by (auto simp: triple_def question_def pure_def halt_def split: sum.split)

lemma triple_and_then:
  "triple P m Q' R \<Longrightarrow> (\<And>x. triple (Q' x) (k x) Q R) \<Longrightarrow> triple P (and_then m k) Q R"
  unfolding triple_def and_then_def by (fastforce split: prod.splits sum.splits)

lemma triple_conseq:
  "triple P' m Q' R' \<Longrightarrow> (\<And>s. P s \<Longrightarrow> P' s) \<Longrightarrow> (\<And>x s. Q' x s \<Longrightarrow> Q x s) \<Longrightarrow> (\<And>e s. R' e s \<Longrightarrow> R e s)
     \<Longrightarrow> triple P m Q R"
  unfolding triple_def by (fastforce split: prod.splits sum.splits)

lemma triple_repeat:
  assumes "triple I body (\<lambda>c s. case c of Continue \<Rightarrow> I s | Break x \<Rightarrow> Q x s) R"
    and "\<And>s. I s \<Longrightarrow> R Running s"
  shows "triple I (repeat n body) Q R"
proof (induction n)
  case 0
  then show ?case using assms(2) by (simp add: triple_halt)
next
  case (Suc n)
  show ?case
    unfolding repeat.simps
  proof (rule triple_and_then [OF assms(1)])
    show "triple (\<lambda>s. case c of Continue \<Rightarrow> I s | Break x \<Rightarrow> Q x s)
        (case c of Continue \<Rightarrow> repeat n body | Break x \<Rightarrow> pure x) Q R" for c
      using Suc.IH by (cases c) (simp_all add: triple_pure)
  qed
qed

lemma triple_if: "(c \<Longrightarrow> triple P m Q R) \<Longrightarrow> (\<not> c \<Longrightarrow> triple P m' Q R) \<Longrightarrow> triple P (if c then m else m') Q R"
  by simp

lemma triple_both:
  "triple P m Q R \<Longrightarrow> triple P' m Q' R' \<Longrightarrow>
     triple (\<lambda>s. P s \<and> P' s) m (\<lambda>x s. Q x s \<and> Q' x s) (\<lambda>e s. R e s \<and> R' e s)"
  unfolding triple_def by (auto split: prod.splits sum.splits)

lemma triple_any: "triple P m (\<lambda>_ _. True) (\<lambda>_ _. True)"
  by (simp add: triple_def split: prod.split sum.split)

lemma triple_case:
  "(\<And>e. q = Inl e \<Longrightarrow> triple P (f e) Q R) \<Longrightarrow> (\<And>x. q = Inr x \<Longrightarrow> triple P (g x) Q R)
     \<Longrightarrow> triple P (case q of Inl e \<Rightarrow> f e | Inr x \<Rightarrow> g x) Q R"
  "(\<And>a b. p = (a, b) \<Longrightarrow> triple P (k a b) Q R) \<Longrightarrow> triple P (case p of (a, b) \<Rightarrow> k a b) Q R"
  by (simp_all split: sum.split prod.split)

lemma triple_given: "(c \<Longrightarrow> triple P m Q R) \<Longrightarrow> triple (\<lambda>s. P s \<and> c) m Q R"
  by (cases c) (simp_all add: triple_def)

lemma triple_ex: "(\<And>n. triple (P n) m Q R) \<Longrightarrow> triple (\<lambda>s. \<exists>n. P n s) m Q R"
  unfolding triple_def by (intro allI impI, elim exE) simp

lemma and_then_Inr: "and_then m k s = (Inr y, t) \<longleftrightarrow> (\<exists>x u. m s = (Inr x, u) \<and> k x u = (Inr y, t))"
  by (auto simp: and_then_def split: prod.splits sum.splits)

lemma triple_for_count:
  "(\<And>j. i \<le> j \<Longrightarrow> j < i + n \<Longrightarrow> triple (I j) (body j) (\<lambda>_. I (Suc j)) R) \<Longrightarrow>
     triple (I i) (for_count body i n) (\<lambda>_. I (i + n)) R"
proof (induction n arbitrary: i)
  case (Suc n)
  have "triple (I (Suc i)) (for_count body (Suc i) n) (\<lambda>_. I (Suc i + n)) R"
    by (rule Suc.IH) (rule Suc.prems; simp)
  from triple_and_then [OF Suc.prems [of i] this] show ?case by simp
qed (simp add: triple_pure)

lemma triple_for_range:
  assumes "a \<le> Suc b" and "\<And>j. a \<le> j \<Longrightarrow> j \<le> b \<Longrightarrow> triple (I j) (body j) (\<lambda>_. I (Suc j)) R"
  shows "triple (I a) (for_range body a b) (\<lambda>_. I (Suc b)) R"
  using triple_for_count [of a "Suc b - a" I body R] assms by (simp add: for_range_def)

text \<open>What a program preserves, whether it ends or stops.\<close>

definition keeps :: "('s \<Rightarrow> bool) \<Rightarrow> ('s, 'e, 'x) program \<Rightarrow> bool" where
  "keeps I m \<longleftrightarrow> (\<forall>s. I s \<longrightarrow> I (snd (m s)))"

named_theorems keeping \<open>what the statements of a program preserve\<close>

lemma keepsD: "keeps I m \<Longrightarrow> I s \<Longrightarrow> m s = (r, t) \<Longrightarrow> I t"
  unfolding keeps_def by fastforce

lemma keeps_triple: "keeps I m \<longleftrightarrow> triple I m (\<lambda>_. I) (\<lambda>_. I)"
proof
  show "keeps I m \<Longrightarrow> triple I m (\<lambda>_. I) (\<lambda>_. I)"
    unfolding keeps_def triple_def by (fastforce split: prod.splits sum.splits)
next
  assume t: "triple I m (\<lambda>_. I) (\<lambda>_. I)"
  have "I (snd (m s))" if "I s" for s
    using t that by (cases "m s"; cases "fst (m s)") (auto simp: triple_def split: prod.splits)
  then show "keeps I m" unfolding keeps_def by blast
qed

lemma keeps_basic [keeping]:
  "keeps I (pure x)" "keeps I (halt e)" "keeps I (get_state g)" "keeps I (expect msg opt)" "keeps I (question r)"
  by (auto simp: keeps_def pure_def halt_def get_state_def expect_def question_def split: option.split sum.split)

lemma keeps_set_state: "(\<And>s. I s \<Longrightarrow> I (f s)) \<Longrightarrow> keeps I (set_state f)"
  by (simp add: keeps_def set_state_def)

lemma keeps_and_then [keeping]: "keeps I m \<Longrightarrow> (\<And>x. keeps I (k x)) \<Longrightarrow> keeps I (and_then m k)"
  unfolding keeps_def and_then_def by (auto split: prod.splits sum.splits)

lemma keeps_if [keeping]: "(c \<Longrightarrow> keeps I m) \<Longrightarrow> (\<not> c \<Longrightarrow> keeps I m') \<Longrightarrow> keeps I (if c then m else m')"
  by simp

lemma keeps_case [keeping]:
  "(r = None \<Longrightarrow> keeps I m) \<Longrightarrow> (\<And>x. r = Some x \<Longrightarrow> keeps I (f x)) \<Longrightarrow> keeps I (case r of None \<Rightarrow> m | Some x \<Rightarrow> f x)"
  "(\<And>e. q = Inl e \<Longrightarrow> keeps I (g e)) \<Longrightarrow> (\<And>x. q = Inr x \<Longrightarrow> keeps I (h x))
    \<Longrightarrow> keeps I (case q of Inl e \<Rightarrow> g e | Inr x \<Rightarrow> h x)"
  "(\<And>a b. p = (a, b) \<Longrightarrow> keeps I (k a b)) \<Longrightarrow> keeps I (case p of (a, b) \<Rightarrow> k a b)"
  by (simp_all split: option.split sum.split prod.split)

lemma keeps_repeat [keeping]: "keeps I body \<Longrightarrow> keeps I (repeat n body)"
  by (induction n) (auto intro!: keeping split: control.split)

text \<open>Preserving \<open>I\<close>, with the weaker \<open>S\<close> where it stops.\<close>

definition upholds :: "('s \<Rightarrow> bool) \<Rightarrow> ('s \<Rightarrow> bool) \<Rightarrow> ('s, 'e, 'x) program \<Rightarrow> bool" where
  "upholds I S m \<longleftrightarrow> triple I m (\<lambda>_. I) (\<lambda>_. S)"

lemma upholds_keeps: "(\<And>s. I s \<Longrightarrow> S s) \<Longrightarrow> keeps I m \<Longrightarrow> upholds I S m"
  unfolding upholds_def keeps_triple by (erule triple_conseq) auto

lemma keeps_upholds: "keeps I m \<longleftrightarrow> upholds I I m"
  unfolding upholds_def keeps_triple ..

lemma upholds_and_then: "upholds I S m \<Longrightarrow> (\<And>x. upholds I S (k x)) \<Longrightarrow> upholds I S (and_then m k)"
  unfolding upholds_def by (rule triple_and_then)

lemma upholds_if: "(c \<Longrightarrow> upholds I S m) \<Longrightarrow> (\<not> c \<Longrightarrow> upholds I S m') \<Longrightarrow> upholds I S (if c then m else m')"
  by simp

lemma upholds_repeat: "(\<And>s. I s \<Longrightarrow> S s) \<Longrightarrow> upholds I S body \<Longrightarrow> upholds I S (repeat n body)"
  unfolding upholds_def by (rule triple_repeat) (auto elim: triple_conseq split: control.split)

lemma upholdsD: "upholds I S m \<Longrightarrow> I s \<Longrightarrow> m s = (Inr x, t) \<Longrightarrow> I t"
  and upholdsE: "upholds I S m \<Longrightarrow> I s \<Longrightarrow> m s = (Inl e, t) \<Longrightarrow> S t"
  unfolding upholds_def by (rule tripleD; assumption) (rule tripleE; assumption)

text \<open>A loop whose every iteration decreases a measure ends within that many iterations.\<close>

lemma triple_repeat_measure:
  assumes "\<And>k. triple (\<lambda>s. I s \<and> \<mu> s = k) body
      (\<lambda>c s. case c of Continue \<Rightarrow> I s \<and> \<mu> s < k | Break x \<Rightarrow> Q x s) R"
  shows "triple (\<lambda>s. I s \<and> \<mu> s < n) (repeat n body) Q R"
proof (induction n)
  case 0
  then show ?case by (simp add: triple_def)
next
  case (Suc n)
  have "triple (\<lambda>s. I s \<and> \<mu> s < Suc n) body
      (\<lambda>c s. case c of Continue \<Rightarrow> I s \<and> \<mu> s < n | Break x \<Rightarrow> Q x s) R"
    using assms unfolding triple_def
    by (force split: control.splits prod.splits sum.splits)
  moreover have "triple (\<lambda>s. case c of Continue \<Rightarrow> I s \<and> \<mu> s < n | Break x \<Rightarrow> Q x s)
      (case c of Continue \<Rightarrow> repeat n body | Break x \<Rightarrow> pure x) Q R" for c
    using Suc.IH by (cases c) (simp_all add: triple_pure)
  ultimately show ?case unfolding repeat.simps by (rule triple_and_then)
qed

subsection \<open>Calls that may fail\<close>

text \<open>A call with \<open>?\<close> turns the error into one of the crate.\<close>

definition tried :: "('e \<Rightarrow> 'f) \<Rightarrow> ('w \<Rightarrow> ('e + 'x) \<times> 'w) \<Rightarrow> ('w, 'f, 'x) program" where
  "tried f g = and_then (call g) (\<lambda>r. question (map_sum f (\<lambda>x. x) r))"

lemma tried_Inr: "tried f g w = (Inr x, w') \<longleftrightarrow> g w = (Inr x, w')"
  by (cases "g w"; cases "fst (g w)") (auto simp: tried_def and_then_def question_def pure_def halt_def call_def)

lemma question_Inr: "question r w = (Inr x, w') \<longleftrightarrow> r = Inr x \<and> w' = w"
  by (cases r) (auto simp: question_def pure_def halt_def)

lemma and_then_panics:
  "and_then m k s = (Inl (Panicked msg), t) \<longleftrightarrow> m s = (Inl (Panicked msg), t) \<or> (\<exists>x u. m s = (Inr x, u) \<and> k x u = (Inl (Panicked msg), t))"
  by (auto simp: and_then_def split: prod.splits sum.splits)

lemma question_panics [simp]: "question r s \<noteq> (Inl (Panicked msg), t)"
  by (cases r) (simp_all add: question_def pure_def halt_def)

lemma tried_panics [simp]: "tried f g s \<noteq> (Inl (Panicked msg), t)"
  by (cases "g s") (simp add: tried_def and_then_panics call_def)

lemma pure_panics [simp]: "pure x s \<noteq> (Inl (Panicked msg), t)"
  by (simp add: pure_def)

subsection \<open>Waiting for the peer\<close>

text \<open>
  The ready file. Bob writes the number of his cycle in decimal (\<open>format!\<close>); Alice reads the file,
  trims white space, parses it, and goes on when the number is larger than the last she saw or the
  timeout has passed. A clock reading is in nanoseconds from some origin.
\<close>

record 'w os =
  now :: "'w \<Rightarrow> duration \<times> 'w"
  sleep :: "duration \<Rightarrow> 'w \<Rightarrow> unit \<times> 'w"
  read_ready :: "'w \<Rightarrow> string option \<times> 'w"

definition is_whitespace :: "char \<Rightarrow> bool" where
  "is_whitespace c = ((of_char c :: nat) \<in> {9, 10, 11, 12, 13, 32, 133, 160})"

definition str_trim :: "string \<Rightarrow> string" where
  "str_trim s = rev (dropWhile is_whitespace (rev (dropWhile is_whitespace s)))"

fun decimal :: "nat \<Rightarrow> string" where
  "decimal n = (if n < 10 then [char_of (48 + n)] else decimal (n div 10) @ [char_of (48 + n mod 10)])"

declare decimal.simps [simp del]

definition ready_cycle :: "u64 \<Rightarrow> string option \<Rightarrow> u64 option" where
  "ready_cycle after content =
     (case content of
        None \<Rightarrow> None
      | Some s \<Rightarrow>
          (case parse_uint (2 ^ 64) (str_trim s) of
             None \<Rightarrow> None
           | Some c \<Rightarrow> if after < word_of_nat c then Some (word_of_nat c) else None))"

definition wait_for_ready ::
    "nat \<Rightarrow> ('w, 'z) os_scheme \<Rightarrow> u64 \<Rightarrow> duration \<Rightarrow> duration \<Rightarrow> ('w, 'e, u64) program" where
  "wait_for_ready fuel os after poll timeout =
     and_then (call (now os)) (\<lambda>start.
     repeat fuel (
       and_then (call (read_ready os)) (\<lambda>content.
       case ready_cycle after content of
         Some c \<Rightarrow> pure (Break c)
       | None \<Rightarrow>
           and_then (call (now os)) (\<lambda>t.
           if t - start \<ge> timeout then pure (Break after)
           else and_then (call (sleep os poll)) (\<lambda>_. pure Continue)))))"

lemma parse_digits_append:
  "parse_digits limit a (xs @ ys) = parse_digits limit a xs \<bind> (\<lambda>b. parse_digits limit b ys)"
  by (induction limit a xs rule: parse_digits.induct) (auto simp: Let_def)

lemma of_char_digit [simp]: "d < 10 \<Longrightarrow> (of_char (char_of (48 + d) :: char) :: nat) = 48 + d"
  by simp

lemma parse_digits_decimal: "n < limit \<Longrightarrow> parse_digits limit 0 (decimal n) = Some n"
proof (induction n rule: decimal.induct)
  case (1 n)
  show ?case
  proof (cases "n < 10")
    case True
    with 1 (2) show ?thesis by (simp add: decimal.simps [of n] Let_def)
  next
    case False
    with 1 (2) have "parse_digits limit 0 (decimal (n div 10)) = Some (n div 10)"
      by (intro 1 (1)) simp_all
    with False 1 (2) show ?thesis
      by (simp add: decimal.simps [of n] Let_def parse_digits_append)
  qed
qed

definition is_digit :: "char \<Rightarrow> bool" where
  "is_digit c \<longleftrightarrow> 48 \<le> (of_char c :: nat) \<and> (of_char c :: nat) \<le> 57"

lemma decimal_digits: "decimal n \<noteq> [] \<and> (\<forall>c \<in> set (decimal n). is_digit c)"
proof (induction n rule: decimal.induct)
  case (1 n)
  have d: "n mod 10 < 10" by simp
  show ?case
  proof (cases "n < 10")
    case True
    then show ?thesis by (simp add: decimal.simps [of n] is_digit_def)
  next
    case False
    with 1 d show ?thesis by (simp add: decimal.simps [of n] is_digit_def)
  qed
qed

lemma digit_not_space: "is_digit c \<Longrightarrow> \<not> is_whitespace c \<and> c \<noteq> CHR ''+''"
  by (auto simp: is_digit_def is_whitespace_def)

lemma str_trim_id: "\<forall>c \<in> set s. \<not> is_whitespace c \<Longrightarrow> str_trim s = s"
proof -
  assume "\<forall>c \<in> set s. \<not> is_whitespace c"
  then have "dropWhile is_whitespace s = s" "dropWhile is_whitespace (rev s) = rev s"
    by (auto simp: dropWhile_eq_self_iff hd_rev)
  then show ?thesis by (simp add: str_trim_def)
qed

lemma ready_cycle_decimal:
  "ready_cycle after (Some (decimal (unat c))) = (if after < c then Some c else None)"
proof -
  have "str_trim (decimal (unat c)) = decimal (unat c)"
    using decimal_digits [of "unat c"] digit_not_space by (intro str_trim_id) blast
  moreover have "parse_uint (2 ^ 64) (decimal (unat c)) = Some (unat c)"
    using decimal_digits [of "unat c"] digit_not_space [of "hd (decimal (unat c))"]
      parse_digits_decimal [of "unat c" "2 ^ 64"] unat_lt2p [of c]
    by (simp add: parse_uint_def)
  ultimately show ?thesis by (simp add: ready_cycle_def)
qed

lemma ready_cycle_less: "ready_cycle after content = Some c \<Longrightarrow> after < c"
  by (auto simp: ready_cycle_def split: option.splits if_splits)

text \<open>
  What \<open>Instant\<close> and \<open>tokio\<close> document of time: a reading is not earlier than the one before (it may be the
  same), a sleep takes at least as long as it was asked for, and nothing turns the clock back.
\<close>

definition advances :: "('w \<Rightarrow> 'm :: order) \<Rightarrow> ('w \<Rightarrow> 'x \<times> 'w) \<Rightarrow> bool" where
  "advances time f \<longleftrightarrow> (\<forall>w x w'. f w = (x, w') \<longrightarrow> time w \<le> time w')"

definition clock_documented :: "('w, 'z) os_scheme \<Rightarrow> ('w \<Rightarrow> duration) \<Rightarrow> bool" where
  "clock_documented os time \<longleftrightarrow> (\<forall>w t w'. now os w = (t, w') \<longrightarrow> time w \<le> t \<and> time w' = t)
     \<and> (\<forall>d w u w'. sleep os d w = (u, w') \<longrightarrow> time w + d \<le> time w') \<and> advances time (read_ready os)"

lemma clock_documentedD:
  assumes "clock_documented os time"
  shows "now os w = (t, w') \<Longrightarrow> time w \<le> t \<and> time w' = t" "sleep os d w = (u, w') \<Longrightarrow> time w + d \<le> time w'"
    "read_ready os w = (c, w') \<Longrightarrow> time w \<le> time w'"
  using assms unfolding clock_documented_def advances_def by blast+

lemma call_triple: "(\<And>s x t. P s \<Longrightarrow> f s = (x, t) \<Longrightarrow> Q x t) \<Longrightarrow> triple P (call f) Q R"
  by (simp add: triple_def call_def split: prod.split)

text \<open>
  The waiting ends, with a later cycle or, when at least the timeout has passed, with the last one.
\<close>

lemma wait_for_ready_ends:
  assumes "clock_documented os time" and "0 < poll"
  shows "triple (\<lambda>w. timeout < fuel \<and> t0 \<le> time w) (wait_for_ready fuel os after poll timeout)
    (\<lambda>c w. t0 \<le> time w \<and> (after < c \<or> c = after \<and> t0 + timeout \<le> time w)) (\<lambda>e w. False)"
  unfolding wait_for_ready_def
proof (rule triple_and_then)
  show "triple (\<lambda>w. timeout < fuel \<and> t0 \<le> time w) (call (now os))
      (\<lambda>start w. timeout < fuel \<and> t0 \<le> start \<and> time w = start) (\<lambda>e w. False)"
    by (rule call_triple) (auto dest: clock_documentedD(1) [OF assms(1)])
next
  fix start
  let ?body = "and_then (call (read_ready os)) (\<lambda>content.
       case ready_cycle after content of
         Some c \<Rightarrow> pure (Break c)
       | None \<Rightarrow> and_then (call (now os)) (\<lambda>t. if t - start \<ge> timeout then pure (Break after)
           else and_then (call (sleep os poll)) (\<lambda>_. pure Continue)))"
  let ?I = "\<lambda>w. t0 \<le> start \<and> start \<le> time w \<and> timeout < fuel"
  let ?Q = "\<lambda>c w. t0 \<le> time w \<and> (after < c \<or> c = after \<and> t0 + timeout \<le> time w)"
  have "triple (\<lambda>w. ?I w \<and> start + timeout - time w = k) ?body
      (\<lambda>c w. case c of Continue \<Rightarrow> ?I w \<and> start + timeout - time w < k | Break c \<Rightarrow> ?Q c w) (\<lambda>e w. False)" for k
  proof (rule triple_and_then [OF call_triple])
    fix w content w'
    assume "?I w \<and> start + timeout - time w = k" and "read_ready os w = (content, w')"
    then show "?I w' \<and> start + timeout - time w' \<le> k" using clock_documentedD(3) [OF assms(1), of w content w'] by auto
  next
    fix content
    show "triple (\<lambda>w. ?I w \<and> start + timeout - time w \<le> k) (case ready_cycle after content of Some c \<Rightarrow> pure (Break c)
       | None \<Rightarrow> and_then (call (now os)) (\<lambda>t. if t - start \<ge> timeout then pure (Break after)
           else and_then (call (sleep os poll)) (\<lambda>_. pure Continue)))
      (\<lambda>c w. case c of Continue \<Rightarrow> ?I w \<and> start + timeout - time w < k | Break c \<Rightarrow> ?Q c w) (\<lambda>e w. False)"
    proof (cases "ready_cycle after content")
      case (Some c)
      with ready_cycle_less [OF Some] show ?thesis by (auto intro: triple_pure)
    next
      case None
      have "triple (\<lambda>w. (?I w \<and> start + timeout - time w \<le> k) \<and> time w = t) (if t - start \<ge> timeout then pure (Break after)
           else and_then (call (sleep os poll)) (\<lambda>_. pure Continue))
        (\<lambda>c w. case c of Continue \<Rightarrow> ?I w \<and> start + timeout - time w < k | Break c \<Rightarrow> ?Q c w) (\<lambda>e w. False)" for t
        using assms(2) by (auto simp: triple_def and_then_def call_def pure_def split: prod.splits
            dest!: clock_documentedD(2) [OF assms(1)])
      moreover have "triple (\<lambda>w. ?I w \<and> start + timeout - time w \<le> k) (call (now os))
          (\<lambda>t w. (?I w \<and> start + timeout - time w \<le> k) \<and> time w = t) (\<lambda>e w. False)"
        by (rule call_triple) (auto dest!: clock_documentedD(1) [OF assms(1)])
      ultimately have "triple (\<lambda>w. ?I w \<and> start + timeout - time w \<le> k) (and_then (call (now os)) (\<lambda>t.
           if t - start \<ge> timeout then pure (Break after) else and_then (call (sleep os poll)) (\<lambda>_. pure Continue)))
        (\<lambda>c w. case c of Continue \<Rightarrow> ?I w \<and> start + timeout - time w < k | Break c \<Rightarrow> ?Q c w) (\<lambda>e w. False)"
        by (rule triple_and_then [rotated])
      then show ?thesis by (simp only: None option.case)
    qed
  qed
  then show "triple (\<lambda>w. timeout < fuel \<and> t0 \<le> start \<and> time w = start) (repeat fuel ?body) ?Q (\<lambda>e w. False)"
    by (rule triple_conseq [OF triple_repeat_measure]) auto
qed

lemma wait_for_ready_returns:
  "triple (\<lambda>_. True) (wait_for_ready fuel os after poll timeout)
    (\<lambda>c _. c = after \<or> (\<exists>w. ready_cycle after (fst (read_ready os w)) = Some c)) (\<lambda>_ _. True)"
  unfolding wait_for_ready_def
proof (rule triple_and_then [OF call_triple [where Q = "\<lambda>_ _. True"]])
  show "triple (\<lambda>_. True) (repeat fuel (and_then (call (read_ready os)) (\<lambda>content.
       case ready_cycle after content of
         Some c \<Rightarrow> pure (Break c)
       | None \<Rightarrow> and_then (call (now os)) (\<lambda>t. if t - start \<ge> timeout then pure (Break after)
           else and_then (call (sleep os poll)) (\<lambda>_. pure Continue)))))
    (\<lambda>c _. c = after \<or> (\<exists>w. ready_cycle after (fst (read_ready os w)) = Some c)) (\<lambda>_ _. True)" for start
    by (rule triple_repeat)
      (auto simp: triple_def and_then_def call_def pure_def split: prod.split option.split,
        metis fst_conv)
qed simp

lemma wait_for_ready_first:
  assumes "ready_cycle after (fst (read_ready os (snd (now os w)))) = Some c" and "0 < fuel"
  shows "wait_for_ready fuel os after poll timeout w = (Inr c, snd (read_ready os (snd (now os w))))"
  using assms by (cases fuel) (auto simp: wait_for_ready_def and_then_def call_def pure_def split: prod.split)

text \<open>
  C15: The ready file. With a clock and a sleep as documented, Alice's wait always ends, within as many looks
  as the timeout has nanoseconds: with a cycle that she had not seen and has read in the file, or with the
  one she knew, and then not before the timeout has passed since the call. While the file holds what Bob writes
  at his cycle \<open>n\<close>, she goes on with \<open>n\<close> at the first look, without a sleep, if it is new, and
  with the cycle she knew, after the timeout, if it is not.
\<close>

theorem wait_for_ready_signal:
  fixes os :: "('w, 'z) os_scheme"
  assumes "clock_documented os time" and "0 < poll" and "timeout < fuel"
  shows "\<exists>c w'. wait_for_ready fuel os after poll timeout w = (Inr c :: 'e stop + u64, w')
    \<and> (after < c \<and> (\<exists>v. ready_cycle after (fst (read_ready os v)) = Some c) \<or> c = after \<and> time w + timeout \<le> time w')
    \<and> (\<forall>n. (\<forall>v. fst (read_ready os v) = Some (decimal (unat n))) \<longrightarrow>
         (if after < n then c = n \<and> w' = snd (read_ready os (snd (now os w))) else c = after))"
proof -
  obtain r :: "'e stop + u64" and w' where run: "wait_for_ready fuel os after poll timeout w = (r, w')"
    by (cases "wait_for_ready fuel os after poll timeout w :: ('e stop + u64) \<times> 'w")
  have "r \<noteq> Inl e" for e
  proof
    assume "r = Inl e"
    with run have "wait_for_ready fuel os after poll timeout w = (Inl e, w')" by simp
    from tripleE [OF wait_for_ready_ends [OF assms(1,2)] _ this, of "time w"] assms(3) show False by simp
  qed
  then obtain c where c: "r = Inr c" by (cases r) auto
  with run have run: "wait_for_ready fuel os after poll timeout w = (Inr c :: 'e stop + u64, w')" by simp
  from tripleD [OF wait_for_ready_ends [OF assms(1,2)] _ run, of "time w"] assms(3)
  have ends: "after < c \<or> c = after \<and> time w + timeout \<le> time w'" by simp
  moreover from tripleD [OF wait_for_ready_returns TrueI run]
  have read: "c = after \<or> (\<exists>v. ready_cycle after (fst (read_ready os v)) = Some c)" .
  moreover have "if after < n then c = n \<and> w' = snd (read_ready os (snd (now os w))) else c = after"
    if "\<forall>v. fst (read_ready os v) = Some (decimal (unat n))" for n
  proof (cases "after < n")
    case True
    with that have "ready_cycle after (fst (read_ready os (snd (now os w)))) = Some n" by (simp add: ready_cycle_decimal)
    then have "wait_for_ready fuel os after poll timeout w = (Inr n :: 'e stop + u64, snd (read_ready os (snd (now os w))))"
      by (rule wait_for_ready_first) (use assms(3) in simp)
    with run True show ?thesis by simp
  next
    case False
    with read that show ?thesis by (auto simp: ready_cycle_decimal)
  qed
  ultimately show ?thesis using run by (intro exI [of _ c] exI [of _ w']) auto
qed

subsection \<open>Telemetry and the clock\<close>

text \<open>
  The part both runners share: the rows of the telemetry file, as \<open>Telemetry\<close> with its file, and the
  world they run in. A row has the values the code formats (the latency in nanoseconds); a row whose
  write fails is not counted as written. The other calls of the two programs into the operating system
  and the libraries are parameters too: the wall clock, the file, the sockets and what \<open>IdleTimeout\<close>
  accepts.
\<close>

record row =
  timestamp_ms :: nat
  event :: string
  row_epoch :: u64
  row_bytes :: u64
  latency :: duration
  row_mode :: string

record 'w runner =
  world :: 'w
  rows :: "row list"

record ('w, 'e) runtime = "'w os" +
  unix_ms :: "'w \<Rightarrow> nat \<times> 'w"
  open_telemetry :: "'w \<Rightarrow> ('e + unit) \<times> 'w"
  write_row :: "row \<Rightarrow> 'w \<Rightarrow> ('e + unit) \<times> 'w"
  bind_socket :: "'w \<Rightarrow> ('e + unit) \<times> 'w"
  new_endpoint :: "'w \<Rightarrow> ('e + unit) \<times> 'w"
  idle_timeout :: "duration \<Rightarrow> unit option"
  deadline_first :: "duration \<Rightarrow> 'w \<Rightarrow> bool \<times> 'w"

definition zoom_world :: "('w, 'e, 'x) program \<Rightarrow> (('w, 'z) runner_scheme, 'e, 'x) program" where
  "zoom_world m = zoom world (\<lambda>w s. s\<lparr>world := w\<rparr>) m"

definition ask :: "('w \<Rightarrow> 'x \<times> 'w) \<Rightarrow> (('w, 'z) runner_scheme, 'e, 'x) program" where
  "ask f = zoom_world (call f)"

text \<open>
  A future, awaited. \<open>None\<close> stands for one that never completes: a program that awaits it is
  \<open>Running\<close> for ever, unless it does so under a timeout. Then the deadline comes first, or it comes because the
  future does not complete, and otherwise the result is that of the future.
\<close>

definition await :: "('w \<Rightarrow> 'x option \<times> 'w) \<Rightarrow> (('w, 'z) runner_scheme, 'e, 'x) program" where
  "await f = and_then (ask f) (\<lambda>r. case r of None \<Rightarrow> halt Running | Some x \<Rightarrow> pure x)"

definition unless_pending :: "('s, 'e, 'x) program \<Rightarrow> ('s, 'e, 'x option) program" where
  "unless_pending m s =
     (case m s of
        (Inl e, s) \<Rightarrow> (if e = Running then Inr None else Inl e, s)
      | (Inr x, s) \<Rightarrow> (Inr (Some x), s))"

definition under_timeout ::
    "('w \<Rightarrow> bool \<times> 'w) \<Rightarrow> (('w, 'z) runner_scheme, 'e, 'x) program \<Rightarrow> (('w, 'z) runner_scheme, 'e, 'x option) program" where
  "under_timeout late m = and_then (ask late) (\<lambda>first. if first then pure None else unless_pending m)"

lemma keeps_unless_pending [keeping]: "keeps I m \<Longrightarrow> keeps I (unless_pending m)"
  unfolding keeps_def unless_pending_def by (auto split: prod.split sum.split)

lemma keeps_await [keeping]:
  "keeps I (ask f :: (('w, 'z) runner_scheme, 'e, 'x option) program) \<Longrightarrow> keeps I (await f :: (('w, 'z) runner_scheme, 'e, 'x) program)"
  unfolding await_def by (intro keeping) assumption

lemma keeps_under_timeout [keeping]:
  fixes m :: "(('w, 'z) runner_scheme, 'e, 'x) program"
  shows "keeps I (ask late :: (('w, 'z) runner_scheme, 'e, bool) program) \<Longrightarrow> keeps I m \<Longrightarrow> keeps I (under_timeout late m)"
  unfolding under_timeout_def by (intro keeping) assumption+

definition elapsed :: "('w, 'y) os_scheme \<Rightarrow> duration \<Rightarrow> (('w, 'z) runner_scheme, 'e, duration) program" where
  "elapsed os start = and_then (ask (now os)) (\<lambda>t. pure (t - start))"

definition mode :: string where
  "mode = ''0rtt''"

definition write_telemetry ::
    "('w, 'e, 'y) runtime_scheme \<Rightarrow> string \<Rightarrow> u64 \<Rightarrow> u64 \<Rightarrow> duration \<Rightarrow> (('w, 'z) runner_scheme, 'e, unit) program" where
  "write_telemetry rt ev ep n lat =
     and_then (ask (unix_ms rt)) (\<lambda>ms.
     let line = \<lparr>timestamp_ms = ms, event = ev, row_epoch = ep, row_bytes = n, latency = lat, row_mode = mode\<rparr> in
     and_then (ask (write_row rt line)) (\<lambda>r.
     and_then (question r) (\<lambda>_.
     set_state (\<lambda>s. s\<lparr>rows := rows s @ [line]\<rparr>))))"

text \<open>
  A sum of durations (\<open>Duration::add\<close> panics above the largest), a duration added to a reading of the
  clock (\<open>Instant::add\<close> panics from the first time whose seconds do not fit an \<open>i64\<close>), and the idle
  timeout of the transport.
\<close>

definition duration_MAX :: duration where
  "duration_MAX = 2 ^ 64 * 1000000000 - 1"

definition duration_add :: "duration \<Rightarrow> duration \<Rightarrow> ('s, 'e, duration) program" where
  "duration_add a b = expect ''overflow when adding durations'' (if a + b \<le> duration_MAX then Some (a + b) else None)"

definition instant_END :: duration where
  "instant_END = 2 ^ 63 * 1000000000"

definition instant_add :: "duration \<Rightarrow> duration \<Rightarrow> ('s, 'e, duration) program" where
  "instant_add t d =
     expect ''overflow when adding duration to instant'' (if t + d < instant_END then Some (t + d) else None)"

definition transport_config :: "('w, 'e, 'y) runtime_scheme \<Rightarrow> duration \<Rightarrow> ('s, 'e, unit) program" where
  "transport_config rt idle = expect ''called unwrap on an error'' (idle_timeout rt idle)"

text \<open>Running a straight line of statements.\<close>

lemmas run_simps = and_then_def pure_def halt_def get_state_def set_state_def expect_def question_def
  call_def zoom_def zoom_world_def ask_def elapsed_def await_def unless_pending_def under_timeout_def

lemma keeps_ask: "(\<And>s w. I s \<Longrightarrow> I (s\<lparr>world := w\<rparr>)) \<Longrightarrow> keeps I (ask f)"
  by (simp add: keeps_def ask_def zoom_world_def zoom_def call_def split: prod.split)

subsection \<open>Programs that come to an end\<close>

text \<open>
  From a state whose measure, in some order, is at least \<open>t0\<close>, the program does not run on for ever, and its
  measure does not go back.
\<close>

definition passes :: "('s \<Rightarrow> 'm :: order) \<Rightarrow> 'm \<Rightarrow> ('s, 'e, 'x) program \<Rightarrow> bool" where
  "passes \<mu> t0 m \<longleftrightarrow> (\<forall>s. t0 \<le> \<mu> s \<longrightarrow> (case m s of (Inr _, t) \<Rightarrow> \<mu> s \<le> \<mu> t | (Inl e, _) \<Rightarrow> e \<noteq> Running))"

named_theorems passing \<open>programs that come to an end\<close>

lemma passesD: "passes \<mu> t0 m \<Longrightarrow> t0 \<le> \<mu> s \<Longrightarrow> m s = (Inr x, t) \<Longrightarrow> \<mu> s \<le> \<mu> t"
  and passesE: "passes \<mu> t0 m \<Longrightarrow> t0 \<le> \<mu> s \<Longrightarrow> m s = (Inl e, t) \<Longrightarrow> e \<noteq> Running"
  unfolding passes_def by fastforce+

lemma passesI:
  assumes "\<And>s x t. t0 \<le> \<mu> s \<Longrightarrow> m s = (Inr x, t) \<Longrightarrow> \<mu> s \<le> \<mu> t"
    and "\<And>s e t. t0 \<le> \<mu> s \<Longrightarrow> m s = (Inl e, t) \<Longrightarrow> e \<noteq> Running"
  shows "passes \<mu> t0 m"
  unfolding passes_def using assms by (auto split: prod.split sum.split)

lemma passes_later: "passes \<mu> t0 m \<Longrightarrow> t0 \<le> t1 \<Longrightarrow> passes \<mu> t1 m"
  unfolding passes_def by (meson order_trans)

text \<open>It keeps what only depends on the measure being large enough.\<close>

lemma passes_triple:
  assumes "passes \<mu> t0 m" and "\<And>s. U s \<Longrightarrow> t0 \<le> \<mu> s" and "\<And>s t. U s \<Longrightarrow> \<mu> s \<le> \<mu> t \<Longrightarrow> U t"
  shows "triple U m (\<lambda>_. U) (\<lambda>e _. e \<noteq> Running)"
  unfolding triple_def using assms passesD passesE by (fastforce split: prod.split sum.split)

lemma passes_stable:
  assumes "\<And>t0. passes \<mu> t0 m" and "\<And>s t. U s \<Longrightarrow> \<mu> s \<le> \<mu> t \<Longrightarrow> U t"
  shows "triple U m (\<lambda>_. U) (\<lambda>_ _. True)"
  unfolding triple_def using passesD [OF assms(1) order_refl] assms(2) by (fastforce split: prod.split sum.split)

lemma passes_basic [passing]:
  "passes \<mu> t0 (pure x)" "passes \<mu> t0 (get_state g)" "passes \<mu> t0 (expect msg opt)"
  "passes \<mu> t0 (question r)" "e \<noteq> Running \<Longrightarrow> passes \<mu> t0 (halt e)"
  by (auto simp: passes_def pure_def halt_def get_state_def expect_def question_def split: option.split sum.split)

lemma passes_set_state: "(\<And>s. \<mu> s \<le> \<mu> (f s)) \<Longrightarrow> passes \<mu> t0 (set_state f)"
  by (simp add: passes_def set_state_def)

lemma passes_and_then [passing]:
  assumes "passes \<mu> t0 m" and "\<And>x. passes \<mu> t0 (k x)"
  shows "passes \<mu> t0 (and_then m k)"
proof (rule passesI)
  fix s x t
  assume t0: "t0 \<le> \<mu> s" and "and_then m k s = (Inr x, t)"
  then obtain y u where y: "m s = (Inr y, u)" "k y u = (Inr x, t)" by (auto simp: and_then_Inr)
  from passesD [OF assms(1) t0 y(1)] passesD [OF assms(2) _ y(2)] t0
  show "\<mu> s \<le> \<mu> t" by (meson order_trans)
next
  fix s e t
  assume t0: "t0 \<le> \<mu> s" and run: "and_then m k s = (Inl e, t)"
  show "e \<noteq> Running"
  proof (cases "m s")
    case (Pair r u)
    show ?thesis
    proof (cases r)
      case (Inl e')
      with run Pair passesE [OF assms(1) t0] show ?thesis by (auto simp: and_then_def)
    next
      case (Inr y)
      with Pair passesD [OF assms(1) t0, of y u] t0 have "t0 \<le> \<mu> u" by (meson order_trans)
      from passesE [OF assms(2) this] run Pair Inr show ?thesis by (auto simp: and_then_def)
    qed
  qed
qed

lemma passes_ask:
  "advances \<tau> f \<Longrightarrow> (\<And>s w. \<tau> (world s) \<le> \<tau> w \<Longrightarrow> \<mu> s \<le> \<mu> (s\<lparr>world := w\<rparr>)) \<Longrightarrow> passes \<mu> t0 (ask f)"
  by (auto simp: passes_def run_simps advances_def split: prod.split)

lemma passes_if [passing]: "(c \<Longrightarrow> passes \<mu> t0 m) \<Longrightarrow> (\<not> c \<Longrightarrow> passes \<mu> t0 m') \<Longrightarrow> passes \<mu> t0 (if c then m else m')"
  by simp

lemma passes_case [passing]:
  "(r = None \<Longrightarrow> passes \<mu> t0 m) \<Longrightarrow> (\<And>x. r = Some x \<Longrightarrow> passes \<mu> t0 (f x)) \<Longrightarrow> passes \<mu> t0 (case r of None \<Rightarrow> m | Some x \<Rightarrow> f x)"
  "(\<And>e. q = Inl e \<Longrightarrow> passes \<mu> t0 (g e)) \<Longrightarrow> (\<And>x. q = Inr x \<Longrightarrow> passes \<mu> t0 (h x))
    \<Longrightarrow> passes \<mu> t0 (case q of Inl e \<Rightarrow> g e | Inr x \<Rightarrow> h x)"
  "(\<And>a b. p = (a, b) \<Longrightarrow> passes \<mu> t0 (l a b)) \<Longrightarrow> passes \<mu> t0 (case p of (a, b) \<Rightarrow> l a b)"
  by (simp_all split: option.split sum.split prod.split)

text \<open>A measure of the world, and a future that completes; under a timeout it does not have to.\<close>

definition completes :: "('w \<Rightarrow> 'x option \<times> 'w) \<Rightarrow> bool" where
  "completes f \<longleftrightarrow> (\<forall>w. fst (f w) \<noteq> None)"

lemma passes_await [passing]:
  assumes "passes \<mu> t0 (ask f :: (('w, 'z) runner_scheme, 'e, 'x option) program)" and "completes f"
  shows "passes \<mu> t0 (await f :: (('w, 'z) runner_scheme, 'e, 'x) program)"
proof (rule passesI)
  fix s x t
  assume "t0 \<le> \<mu> s" and "(await f :: (('w, 'z) runner_scheme, 'e, 'x) program) s = (Inr x, t)"
  then show "\<mu> s \<le> \<mu> t"
    using passesD [OF assms(1)] by (auto simp: await_def and_then_Inr pure_def halt_def split: option.splits)
next
  fix s e t
  assume "(await f :: (('w, 'z) runner_scheme, 'e, 'x) program) s = (Inl e, t)"
  moreover obtain x w where "f (world s) = (Some x, w)"
    using assms(2) unfolding completes_def by (metis option.exhaust prod.collapse)
  ultimately show "e \<noteq> Running" by (simp add: run_simps)
qed

lemma passes_under_timeout [passing]:
  fixes m :: "(('w, 'z) runner_scheme, 'e, 'x) program"
  assumes "passes \<mu> t0 (ask late :: (('w, 'z) runner_scheme, 'e, bool) program)" and "\<And>k. keeps (\<lambda>s. k \<le> \<mu> s) m"
  shows "passes \<mu> t0 (under_timeout late m)"
proof -
  have "passes \<mu> t0 (unless_pending m)"
  proof (rule passesI)
    fix s x t
    assume "unless_pending m s = (Inr x, t)"
    then have "snd (m s) = t" by (auto simp: unless_pending_def split: prod.splits sum.splits if_splits)
    with assms(2) [of "\<mu> s"] show "\<mu> s \<le> \<mu> t" unfolding keeps_def by force
  qed (auto simp: unless_pending_def split: prod.splits sum.splits if_splits)
  then show ?thesis unfolding under_timeout_def by (intro passing assms(1)) assumption
qed

lemma passes_triples:
  assumes "\<And>x. triple (\<lambda>s. t0 \<le> \<mu> s \<and> x \<le> \<mu> s) m (\<lambda>_ s. x \<le> \<mu> s) (\<lambda>e _. e \<noteq> Running)"
  shows "passes \<mu> t0 m"
proof (rule passesI)
  fix s x t
  assume "t0 \<le> \<mu> s" "m s = (Inr x, t)"
  with tripleD [OF assms [of "\<mu> s"], of s x t] show "\<mu> s \<le> \<mu> t" by simp
next
  fix s e t
  assume "t0 \<le> \<mu> s" "m s = (Inl e, t)"
  with tripleE [OF assms [of "\<mu> s"], of s e t] show "e \<noteq> Running" by simp
qed

text \<open>A loop whose every further iteration decreases a second measure.\<close>

lemma passes_repeat:
  fixes \<mu> :: "'s \<Rightarrow> 'm :: order"
  assumes "passes \<mu> t0 body"
    and "\<And>k. triple (\<lambda>s. t0 \<le> \<mu> s \<and> \<delta> s = k) body (\<lambda>c s. c = Continue \<longrightarrow> \<delta> s < (k :: nat)) (\<lambda>_ _. True)"
    and "\<And>s. t0 \<le> \<mu> s \<Longrightarrow> \<delta> s < n"
  shows "passes \<mu> t0 (repeat n body)"
proof -
  have loop: "triple (\<lambda>s. (t0 \<le> \<mu> s \<and> x \<le> \<mu> s) \<and> \<delta> s < n) (repeat n body) (\<lambda>_ s. x \<le> \<mu> s) (\<lambda>e _. e \<noteq> Running)" for x :: 'm
  proof (rule triple_repeat_measure)
    fix d
    have "triple (\<lambda>s. t0 \<le> \<mu> s \<and> x \<le> \<mu> s) body (\<lambda>_ s. t0 \<le> \<mu> s \<and> x \<le> \<mu> s) (\<lambda>e _. e \<noteq> Running)"
      by (rule passes_triple [OF assms(1)]) (auto intro: order_trans)
    from triple_both [OF this assms(2) [of d]]
    show "triple (\<lambda>s. (t0 \<le> \<mu> s \<and> x \<le> \<mu> s) \<and> \<delta> s = d) body
        (\<lambda>c s. case c of Continue \<Rightarrow> (t0 \<le> \<mu> s \<and> x \<le> \<mu> s) \<and> \<delta> s < d | Break _ \<Rightarrow> x \<le> \<mu> s) (\<lambda>e _. e \<noteq> Running)"
      by (rule triple_conseq) (auto split: control.split)
  qed
  show ?thesis
    by (rule passes_triples, rule triple_conseq [OF loop]) (use assms(3) in auto)
qed

subsection \<open>Witnesses\<close>

lemma repeat_numeral [simp]:
  "repeat (numeral n) body = and_then body (\<lambda>c. case c of Continue \<Rightarrow> repeat (pred_numeral n) body | Break x \<Rightarrow> pure x)"
  by (simp add: numeral_eq_Suc)

text \<open>A world that is a clock; the file always holds the same.\<close>

definition sample_os :: "string option \<Rightarrow> duration os" where
  "sample_os content = \<lparr>now = (\<lambda>w. (w, w)), sleep = (\<lambda>d w. ((), w + d)), read_ready = (\<lambda>w. (content, w))\<rparr>"

lemma sample_clock: "clock_documented (sample_os content) (\<lambda>w. w)"
  by (simp add: clock_documented_def advances_def sample_os_def)

lemma wait_for_ready_signal_witness:
  "wait_for_ready 9 (sample_os (Some ''7'')) 6 2 8 0 = (Inr 7 :: unit stop + u64, 0)
   \<and> (\<exists>w' \<ge> 8. wait_for_ready 9 (sample_os (Some ''7'')) 7 2 8 0 = (Inr 7 :: unit stop + u64, w'))"
proof -
  have holds: "\<forall>w. fst (read_ready (sample_os (Some ''7'')) w) = Some (decimal (unat (7 :: u64)))"
    by (simp add: sample_os_def) code_simp
  have first: "snd (read_ready (sample_os (Some ''7'')) (snd (now (sample_os (Some ''7'')) 0))) = 0"
    by (simp add: sample_os_def)
  let ?os = "sample_os (Some ''7'')"
  note signal = wait_for_ready_signal [OF sample_clock, of 2 8 9 "Some ''7''"]
  from signal [of 6 0] obtain c w' where six: "wait_for_ready 9 ?os 6 2 8 0 = (Inr c :: unit stop + u64, w')"
    and "\<forall>n. (\<forall>v. fst (read_ready ?os v) = Some (decimal (unat n))) \<longrightarrow>
      (if (6 :: u64) < n then c = n \<and> w' = snd (read_ready ?os (snd (now ?os 0))) else c = 6)" by auto
  from mp [OF spec [OF this(2)] holds] have "c = 7" "w' = 0" by (simp_all add: first)
  moreover from signal [of 7 0] obtain d v where seven: "wait_for_ready 9 ?os 7 2 8 0 = (Inr d :: unit stop + u64, v)"
    and "7 < d \<or> d = 7 \<and> 8 \<le> v"
    and "\<forall>n. (\<forall>v. fst (read_ready ?os v) = Some (decimal (unat n))) \<longrightarrow>
      (if (7 :: u64) < n then d = n \<and> v = snd (read_ready ?os (snd (now ?os 0))) else d = 7)" by auto
  from mp [OF spec [OF this(3)] holds] this(2) have "d = 7" "8 \<le> v" by simp_all
  ultimately show ?thesis using six seven by simp
qed

end
