(* ===== verification/Runner_Alice.thy ===== *)
theory Runner_Alice
  imports Runtime Sync Config
begin

text \<open>
  The sender of the testbed (\<open>run_alice\<close> in \<open>testbed-runner/src/main.rs\<close>): the loop of contact
  windows, each a connection, a phase of periodic commits sent as preambles, and a blackout in which
  commits are made offline.

  The state has the locals of the function and what it shares with other tasks. The report receivers
  run beside it and share the commit log only through its mutex, so it is enough to let them act
  before each lock: there the environment names what has happened meanwhile, a preamble of the sender
  delivered to the peer, a report sent by the peer, or such a report handled by a receiver. Datagrams of
  others are not part of this environment; the receiver's own theories have them. The peer (\<open>peer\<close>), the
  commits made so far and the reports handled (\<open>trims\<close>) are ghost state. The first group is that of the bootstrap, which has its
  own theory. The connection of quinn is its sequence of results.
\<close>

datatype other = Delivered bytes | Reported | Trimmed u64

text \<open>
  \<open>connect_with\<close>, \<open>into_0rtt\<close>, \<open>open_bi\<close> and writing \<open>Hello\<close>: done, an error, or no early keys. These and the
  wait for the handshake are futures that may never complete; the flag of both says whether the connection is
  the first one, which the code opens without a timeout.
\<close>

datatype 'e connect_result = Opened | OpenError 'e | NoEarlyKeys

record ('w, 'e, 'a) alice_env = "('w, 'e) runtime" +
  others :: "'w \<Rightarrow> other list \<times> 'w"
  connect :: "bool \<Rightarrow> unit MlsClientConfig \<Rightarrow> 'w \<Rightarrow> 'e connect_result option \<times> 'w"
  zero_rtt_accepted :: "bool \<Rightarrow> 'w \<Rightarrow> bool option \<times> 'w"
  new_interval :: "duration \<Rightarrow> 'w \<Rightarrow> unit option \<times> 'w"
  tick_first :: "duration \<Rightarrow> 'w \<Rightarrow> bool \<times> 'w"
  send_to :: "'w \<Rightarrow> bytes \<Rightarrow> 'a \<Rightarrow> ('e + nat) \<times> 'w"
  force_key_update :: "'w \<Rightarrow> unit \<times> 'w"
  close_connection :: "'w \<Rightarrow> unit \<times> 'w"

record ('w, 'g, 'b) alice_run = "'w runner" +
  alice_group :: "'g CommitLog mutex"
  a_epoch :: u64
  a_cycle :: u64
  last_ready_seen :: u64
  wire :: "bytes list"
  bytes_sent :: u64
  peer :: "'b Bob"
  peer_reports :: "u64 set"
  made :: "bytes list"
  trims :: "u64 list"

text \<open>What other tasks and the peer do.\<close>

definition other_step :: "('b, 'f) ExportSecret \<Rightarrow> other \<Rightarrow> ('w, 'g, 'b) alice_run \<Rightarrow> ('w, 'g, 'b) alice_run" where
  "other_step bops a st =
     (case a of
        Delivered d \<Rightarrow>
          if d \<in> set (wire st)
          then (case bob_receive bops d (peer st) of Some b \<Rightarrow> st\<lparr>peer := b\<rparr> | None \<Rightarrow> st)
          else st
      | Reported \<Rightarrow> st\<lparr>peer_reports := insert (epoch_tx (peer st)) (peer_reports st)\<rparr>
      | Trimmed k \<Rightarrow>
          if k \<in> peer_reports st
          then (case mutex_lock (alice_group st) of
                  Some l \<Rightarrow> st\<lparr>alice_group := (alice_group st)\<lparr>guarded := trim l k\<rparr>, trims := trims st @ [k]\<rparr>
                | None \<Rightarrow> st)
          else st)"

type_synonym ('w, 'g, 'b, 'e, 'x) alice_program = "(('w, 'g, 'b) alice_run, 'e, 'x) program"

definition lock_log ::
    "('w, 'e, 'a) alice_env \<Rightarrow> ('b, 'f) ExportSecret \<Rightarrow> ('w, 'g, 'b, 'e, 'g CommitLog) alice_program" where
  "lock_log env bops =
     and_then (ask (others env)) (\<lambda>acts.
     and_then (set_state (fold (other_step bops) acts)) (\<lambda>_.
     and_then (get_state alice_group) (\<lambda>m.
     expect ''called unwrap on a poisoned lock'' (mutex_lock m))))"

text \<open>\<open>alice_group.lock().unwrap().create_commit().unwrap()\<close>; a panic poisons the lock it holds.\<close>

definition unwrap_create_commit ::
    "('w, 'e, 'a) alice_env \<Rightarrow> ('g, 'x) ExportSecret \<Rightarrow> ('b, 'f) ExportSecret \<Rightarrow> ('w, 'g, 'b, 'e, unit) alice_program" where
  "unwrap_create_commit env aops bops =
     and_then (lock_log env bops) (\<lambda>l.
     case create_commit (commit_log_ops aops) l of
       None \<Rightarrow>
         and_then (set_state (\<lambda>st. st\<lparr>alice_group := (alice_group st)\<lparr>poisoned := True\<rparr>\<rparr>)) (\<lambda>_.
         halt (Panicked ''create_commit''))
     | Some (Inl e, l) \<Rightarrow>
         and_then (set_state (\<lambda>st. st\<lparr>alice_group := \<lparr>poisoned = True, guarded = l\<rparr>\<rparr>)) (\<lambda>_.
         halt (Panicked ''called unwrap on an error''))
     | Some (Inr b, l) \<Rightarrow>
         set_state (\<lambda>st. st\<lparr>alice_group := (alice_group st)\<lparr>guarded := l\<rparr>, made := made st @ [b]\<rparr>))"

definition lock_window_bytes ::
    "('w, 'e, 'a) alice_env \<Rightarrow> ('b, 'f) ExportSecret \<Rightarrow> ('w, 'g, 'b, 'e, window) alice_program" where
  "lock_window_bytes env bops = and_then (lock_log env bops) (\<lambda>l. pure (window_bytes l))"

text \<open>The socket's \<open>send_to\<close> on the world, with the preamble datagrams it was given.\<close>

definition recording ::
    "('w \<Rightarrow> bytes \<Rightarrow> 'a \<Rightarrow> ('e + nat) \<times> 'w) \<Rightarrow> 'w \<times> bytes list \<Rightarrow> bytes \<Rightarrow> 'a
      \<Rightarrow> ('e + nat) \<times> ('w \<times> bytes list)" where
  "recording send u d p = (case send (fst u) d p of (r, w) \<Rightarrow> (r, (w, snd u @ [d])))"

definition alice_send_preamble ::
    "('w, 'e, 'a) alice_env \<Rightarrow> 'a \<Rightarrow> window \<Rightarrow> nat \<Rightarrow> ('w, 'g, 'b, 'e, 'e + u64) alice_program" where
  "alice_send_preamble env addr window budget st =
     (let sock = \<lparr>io = (world st, wire st), sink = (None :: (unit \<Rightarrow> window \<Rightarrow> unit) option),
                  preamble_bytes_sent = bytes_sent st\<rparr>
      in case send_preamble (recording (send_to env)) sock addr window budget of
           (r, sock) \<Rightarrow> (Inr r, st\<lparr>world := fst (io sock), wire := snd (io sock),
                                 bytes_sent := preamble_bytes_sent sock\<rparr>))"

text \<open>In terms of what the socket accepts.\<close>

lemma alice_send_preamble_eq:
  "alice_send_preamble env addr window budget st =
     (case sends (recording (send_to env)) addr (world st, wire st) (preamble_datagrams window budget) of
        (ds, q, u) \<Rightarrow>
          (Inr (case q of None \<Rightarrow> Inr (word_of_nat (length (concat ds))) | Some e \<Rightarrow> Inl e),
           st\<lparr>world := fst u, wire := snd u, bytes_sent :=
             (case q of None \<Rightarrow> bytes_sent st + word_of_nat (length (concat ds)) | Some e \<Rightarrow> bytes_sent st)\<rparr>))"
  using send_preamble_sends [of "recording (send_to env)" addr
      "\<lparr>io = (world st, wire st), sink = (None :: (unit \<Rightarrow> window \<Rightarrow> unit) option), preamble_bytes_sent = bytes_sent st\<rparr>"
      window budget]
  by (auto simp: alice_send_preamble_def Let_def split: option.splits)

subsection \<open>Connecting\<close>

text \<open>
  \<open>make_client_config\<close>: a new single-use configuration per attempt, over a handle of the shared log.
  Then the attempt up to \<open>Hello\<close>; the result is that of the \<open>?\<close>s inside.
\<close>

definition make_client_config ::
    "('w, 'e, 'a) alice_env \<Rightarrow> duration \<Rightarrow> ('w, 'g, 'b, 'e, unit MlsClientConfig) alice_program" where
  "make_client_config env idle =
     (let cfg = client_config_new ()
      in and_then (transport_config env idle) (\<lambda>_. pure cfg))"

definition open_control ::
    "('w, 'e, 'a) alice_env \<Rightarrow> bool \<Rightarrow> duration \<Rightarrow> ('w, 'g, 'b, 'e, 'e + unit) alice_program" where
  "open_control env first idle =
     and_then (make_client_config env idle) (\<lambda>cfg.
     and_then (await (connect env first cfg)) (\<lambda>r.
     case r of
       Opened \<Rightarrow> pure (Inr ())
     | OpenError e \<Rightarrow> pure (Inl e)
     | NoEarlyKeys \<Rightarrow> halt (Panicked ''0-RTT keys not available'')))"

text \<open>The first connection.\<close>

definition first_connection ::
    "('w, 'e, 'a) alice_env \<Rightarrow> duration \<Rightarrow> duration \<Rightarrow> ('w, 'g, 'b, 'e, unit) alice_program" where
  "first_connection env idle t0 =
     and_then (open_control env True idle) (\<lambda>r.
     and_then (question r) (\<lambda>_.
     and_then (elapsed env t0) (\<lambda>ms.
     and_then (write_telemetry env ''zero_rtt_available'' 0 0 ms) (\<lambda>_.
     and_then (await (zero_rtt_accepted env True)) (\<lambda>ok.
     let ev = (if ok then ''handshake_0rtt_accepted'' else ''handshake_0rtt_rejected'') in
     and_then (elapsed env t0) (\<lambda>ms.
     write_telemetry env ev 0 0 ms))))))"

text \<open>
  A reconnection: the pending commits first, then the attempt under the report timeout. The value is
  whether there is a connection; without one the outer loop continues.
\<close>

definition connect_under_timeout ::
    "('w, 'e, 'a) alice_env \<Rightarrow> duration \<Rightarrow> duration \<Rightarrow> ('w, 'g, 'b, 'e, ('e + bool) option) alice_program" where
  "connect_under_timeout env timeout idle =
     under_timeout (deadline_first env timeout) (
       and_then (open_control env False idle) (\<lambda>r.
       case r of
         Inl e \<Rightarrow> pure (Inl e)
       | Inr _ \<Rightarrow> and_then (await (zero_rtt_accepted env False)) (\<lambda>ok. pure (Inr ok))))"

definition embed_transcript ::
    "('w, 'e, 'a) alice_env \<Rightarrow> ('b, 'f) ExportSecret \<Rightarrow> 'a Args \<Rightarrow> 'a \<Rightarrow> ('w, 'g, 'b, 'e, unit) alice_program" where
  "embed_transcript env bops args addr =
     and_then (lock_window_bytes env bops) (\<lambda>window.
     and_then (ask (now env)) (\<lambda>t_preamble.
     and_then (alice_send_preamble env addr window (transcript_max_bytes args)) (\<lambda>r.
     and_then (question r) (\<lambda>embedded_bytes.
     and_then (elapsed env t_preamble) (\<lambda>ms.
     and_then (get_state a_epoch) (\<lambda>ep.
     write_telemetry env ''handshake_transcript_embedded'' ep embedded_bytes ms))))))"

definition reconnection ::
    "('w, 'e, 'a) alice_env \<Rightarrow> ('b, 'f) ExportSecret \<Rightarrow> 'a Args \<Rightarrow> 'a \<Rightarrow> duration \<Rightarrow> duration
      \<Rightarrow> ('w, 'g, 'b, 'e, bool) alice_program" where
  "reconnection env bops args addr idle t0 =
     and_then (embed_transcript env bops args addr) (\<lambda>_.
     and_then (connect_under_timeout env (report_timeout args) idle) (\<lambda>connect_result.
     and_then (get_state a_epoch) (\<lambda>ep.
     case connect_result of
       Some (Inr ok) \<Rightarrow>
         and_then (elapsed env t0) (\<lambda>ms.
         and_then (write_telemetry env ''zero_rtt_available'' 0 0 ms) (\<lambda>_.
         let ev = (if ok then ''reconnect_handshake_0rtt_accepted'' else ''reconnect_handshake_0rtt_rejected'') in
         and_then (elapsed env t0) (\<lambda>ms.
         and_then (write_telemetry env ev 0 0 ms) (\<lambda>_. pure True))))
     | None \<Rightarrow>
         and_then (elapsed env t0) (\<lambda>ms.
         and_then (write_telemetry env ''reconnect_attempt_timed_out'' ep 0 ms) (\<lambda>_. pure False))
     | Some (Inl e) \<Rightarrow>
         and_then (elapsed env t0) (\<lambda>ms.
         and_then (write_telemetry env ''reconnect_attempt_failed'' ep 0 ms) (\<lambda>_. pure False)))))"

subsection \<open>The two phases\<close>

text \<open>The condition of both loops, with the second clock reading only after the first has passed.\<close>

definition phase_open ::
    "('w, 'e, 'a) alice_env \<Rightarrow> 'a Args \<Rightarrow> duration \<Rightarrow> duration \<Rightarrow> duration \<Rightarrow> ('w, 'g, 'b, 'e, bool) alice_program" where
  "phase_open env args scenario_start phase_start len =
     and_then (elapsed env phase_start) (\<lambda>t.
     if t < len then and_then (elapsed env scenario_start) (\<lambda>t. pure (t < duration args))
     else pure False)"

text \<open>A commit in a contact window: made, sent at once, and written to the telemetry.\<close>

definition online_commit ::
    "('w, 'e, 'a) alice_env \<Rightarrow> ('g, 'x) ExportSecret \<Rightarrow> ('b, 'f) ExportSecret \<Rightarrow> 'a Args \<Rightarrow> 'a
      \<Rightarrow> ('w, 'g, 'b, 'e, unit) alice_program" where
  "online_commit env aops bops args addr =
     and_then (ask (now env)) (\<lambda>t1.
     and_then (unwrap_create_commit env aops bops) (\<lambda>_.
     and_then (elapsed env t1) (\<lambda>cpu_ms.
     and_then (set_state (\<lambda>st. st\<lparr>a_epoch := a_epoch st + 1\<rparr>)) (\<lambda>_.
     and_then (ask (now env)) (\<lambda>t2.
     and_then (lock_window_bytes env bops) (\<lambda>window.
     and_then (alice_send_preamble env addr window (transcript_max_bytes args)) (\<lambda>r.
     and_then (question r) (\<lambda>sent.
     and_then (ask (force_key_update env)) (\<lambda>_.
     and_then (elapsed env t2) (\<lambda>net_ms.
     and_then (get_state a_epoch) (\<lambda>ep.
     and_then (write_telemetry env ''commit_cpu'' ep 0 cpu_ms) (\<lambda>_.
     write_telemetry env ''commit_net'' ep sent net_ms))))))))))))"

text \<open>A commit during the blackout.\<close>

definition offline_commit ::
    "('w, 'e, 'a) alice_env \<Rightarrow> ('g, 'x) ExportSecret \<Rightarrow> ('b, 'f) ExportSecret \<Rightarrow> ('w, 'g, 'b, 'e, unit) alice_program" where
  "offline_commit env aops bops =
     and_then (unwrap_create_commit env aops bops) (\<lambda>_.
     and_then (set_state (\<lambda>st. st\<lparr>a_epoch := a_epoch st + 1\<rparr>)) (\<lambda>_.
     and_then (get_state a_epoch) (\<lambda>ep.
     write_telemetry env ''commit_offline'' ep 0 0)))"

text \<open>
  Both phases run a ticker until a deadline: the condition, the select between tick and deadline, the
  condition again, and the commit.
\<close>

definition commit_phase ::
    "nat \<Rightarrow> ('w, 'e, 'a) alice_env \<Rightarrow> 'a Args \<Rightarrow> duration \<Rightarrow> duration \<Rightarrow> duration
      \<Rightarrow> ('w, 'g, 'b, 'e, unit) alice_program \<Rightarrow> ('w, 'g, 'b, 'e, unit) alice_program" where
  "commit_phase fuel env args scenario_start phase_start len commit =
     and_then (ask (new_interval env (commit_interval args))) (\<lambda>ticker.
     and_then (expect ''period must be non-zero'' ticker) (\<lambda>_.
     and_then (instant_add scenario_start (duration args)) (\<lambda>end_of_scenario.
     and_then (instant_add phase_start len) (\<lambda>end_of_phase.
     let deadline = min end_of_scenario end_of_phase in
     repeat fuel (
       and_then (phase_open env args scenario_start phase_start len) (\<lambda>go.
       if \<not> go then pure (Break ())
       else
         and_then (ask (tick_first env deadline)) (\<lambda>tick.
         if \<not> tick then pure (Break ())
         else
           and_then (phase_open env args scenario_start phase_start len) (\<lambda>go.
           if \<not> go then pure (Break ())
           else and_then commit (\<lambda>_. pure Continue)))))))))"

subsection \<open>The whole sender\<close>

text \<open>What follows a connection in a cycle: the contact window, the close, and the blackout.\<close>

definition contact_and_blackout ::
    "nat \<Rightarrow> ('w, 'e, 'a) alice_env \<Rightarrow> ('g, 'x) ExportSecret \<Rightarrow> ('b, 'f) ExportSecret \<Rightarrow> 'a Args \<Rightarrow> 'a \<Rightarrow> duration
      \<Rightarrow> ('w, 'g, 'b, 'e, unit control) alice_program" where
  "contact_and_blackout fuel env aops bops args addr scenario_start =
     and_then (ask (now env)) (\<lambda>phase_start.
     and_then (if blackout_on args = 0
               then and_then (elapsed env scenario_start) (\<lambda>t. pure (duration args - t))
               else pure (blackout_on args)) (\<lambda>on_duration.
     and_then (commit_phase fuel env args scenario_start phase_start on_duration
                 (online_commit env aops bops args addr)) (\<lambda>_.
     and_then (ask (close_connection env)) (\<lambda>_.
     and_then (if blackout_off args = 0 then pure True
               else and_then (elapsed env scenario_start) (\<lambda>t. pure (duration args \<le> t))) (\<lambda>finished.
     if finished then pure (Break ())
     else
       and_then (get_state a_epoch) (\<lambda>ep.
       and_then (write_telemetry env ''blackout_start'' ep 0 0) (\<lambda>_.
       and_then (ask (now env)) (\<lambda>blackout_start.
       and_then (commit_phase fuel env args scenario_start blackout_start (blackout_off args)
                   (offline_commit env aops bops)) (\<lambda>_.
       and_then (get_state a_epoch) (\<lambda>ep.
       and_then (write_telemetry env ''blackout_end'' ep 0 0) (\<lambda>_.
       pure Continue)))))))))))"

text \<open>A cycle: wait for the peer, connect, and with a connection the phases; then the loop's condition.\<close>

definition alice_window ::
    "nat \<Rightarrow> ('w, 'e, 'a) alice_env \<Rightarrow> ('g, 'x) ExportSecret \<Rightarrow> ('b, 'f) ExportSecret \<Rightarrow> 'a Args \<Rightarrow> 'a
      \<Rightarrow> duration \<Rightarrow> duration \<Rightarrow> ('w, 'g, 'b, 'e, unit control) alice_program" where
  "alice_window fuel env aops bops args addr scenario_start idle =
     and_then (get_state last_ready_seen) (\<lambda>seen.
     and_then (zoom_world (wait_for_ready fuel env seen 20000000 (report_timeout args))) (\<lambda>seen.
     and_then (set_state (\<lambda>st. st\<lparr>last_ready_seen := seen, a_cycle := a_cycle st + 1\<rparr>)) (\<lambda>_.
     and_then (ask (now env)) (\<lambda>t0.
     and_then (get_state a_cycle) (\<lambda>cycle.
     and_then (if cycle = 1
               then and_then (first_connection env idle t0) (\<lambda>_. pure True)
               else reconnection env bops args addr idle t0) (\<lambda>connected.
     if connected then contact_and_blackout fuel env aops bops args addr scenario_start
     else pure Continue))))))"

definition alice_cycle ::
    "nat \<Rightarrow> ('w, 'e, 'a) alice_env \<Rightarrow> ('g, 'x) ExportSecret \<Rightarrow> ('b, 'f) ExportSecret \<Rightarrow> 'a Args \<Rightarrow> 'a
      \<Rightarrow> duration \<Rightarrow> duration \<Rightarrow> ('w, 'g, 'b, 'e, unit control) alice_program" where
  "alice_cycle fuel env aops bops args addr scenario_start idle =
     and_then (elapsed env scenario_start) (\<lambda>t.
     if \<not> t < duration args then pure (Break ())
     else alice_window fuel env aops bops args addr scenario_start idle)"

text \<open>
  \<open>run_alice\<close> after the bootstrap. A missing peer address is an error before anything else; the
  bound limits the iterations of every loop.
\<close>

definition run_alice ::
    "nat \<Rightarrow> ('w, 'e, 'a) alice_env \<Rightarrow> ('g, 'x) ExportSecret \<Rightarrow> ('b, 'f) ExportSecret \<Rightarrow> 'e \<Rightarrow> 'a Args
      \<Rightarrow> ('w, 'g, 'b, 'e, unit) alice_program" where
  "run_alice fuel env aops bops no_peer args =
     (case peer_addr args of
        None \<Rightarrow> halt (Failed no_peer)
      | Some addr \<Rightarrow>
          and_then (ask (open_telemetry env)) (\<lambda>r.
          and_then (question r) (\<lambda>_.
          and_then (ask (now env)) (\<lambda>scenario_start.
          and_then (duration_add (report_timeout args) (commit_interval args)) (\<lambda>d.
          and_then (duration_add d (from_secs 30)) (\<lambda>idle.
          and_then (ask (bind_socket env)) (\<lambda>r.
          and_then (question r) (\<lambda>_.
          and_then (ask (new_endpoint env)) (\<lambda>r.
          and_then (question r) (\<lambda>_.
          and_then (repeat fuel (alice_cycle fuel env aops bops args addr scenario_start idle)) (\<lambda>_.
          and_then (get_state a_epoch) (\<lambda>ep.
          write_telemetry env ''done'' ep 0 0))))))))))))"

text \<open>The state in which it starts.\<close>

definition alice_start :: "'w \<Rightarrow> 'g \<Rightarrow> 'b \<Rightarrow> ('w, 'g, 'b) alice_run" where
  "alice_start w g b =
     \<lparr>world = w, rows = [], alice_group = mutex_new (commit_log_new g), a_epoch = 0, a_cycle = 0,
      last_ready_seen = 0, wire = [], bytes_sent = 0, peer = bob_new b,
      peer_reports = {}, made = [], trims = []\<rparr>"

subsection \<open>Invariants of the sender\<close>

text \<open>
  Taking the lock and making a commit under it: what holds when the lock is granted has to give what
  is claimed in each of the three ways the commit can end.
\<close>

lemma mutex_lock_Some: "mutex_lock m = Some l \<Longrightarrow> l = guarded m \<and> \<not> poisoned m"
  by (auto simp: mutex_lock_def split: if_splits)

lemma triple_lock_log:
  assumes "\<And>st w. P st \<Longrightarrow> P (st\<lparr>world := w\<rparr>)" and "\<And>st acts. P st \<Longrightarrow> P (fold (other_step bops) acts st)"
    and "\<And>e st. P st \<Longrightarrow> R e st"
  shows "triple P (lock_log env bops)
    (\<lambda>l st. P st \<and> guarded (alice_group st) = l \<and> \<not> poisoned (alice_group st)) R"
  unfolding triple_def lock_log_def run_simps
  by (auto split: prod.splits option.splits dest!: mutex_lock_Some intro!: assms)

lemma triple_unwrap_create_commit:
  assumes "\<And>st w. I st \<Longrightarrow> I (st\<lparr>world := w\<rparr>)" and "\<And>st acts. I st \<Longrightarrow> I (fold (other_step bops) acts st)"
    and "\<And>st. I st \<Longrightarrow> R st"
    and "\<And>st. I st \<Longrightarrow> R (st\<lparr>alice_group := (alice_group st)\<lparr>poisoned := True\<rparr>\<rparr>)"
    and "\<And>st e l. I st \<Longrightarrow> commit_log_create_commit aops (guarded (alice_group st)) = Ret (Inl e, l) \<Longrightarrow>
           R (st\<lparr>alice_group := \<lparr>poisoned = True, guarded = l\<rparr>\<rparr>)"
    and "\<And>st b l. I st \<Longrightarrow> \<not> poisoned (alice_group st) \<Longrightarrow>
           commit_log_create_commit aops (guarded (alice_group st)) = Ret (Inr b, l) \<Longrightarrow>
           Q (st\<lparr>alice_group := (alice_group st)\<lparr>guarded := l\<rparr>, made := made st @ [b]\<rparr>)"
  shows "triple I (unwrap_create_commit env aops bops) (\<lambda>_. Q) (\<lambda>_. R)"
proof -
  have "triple (\<lambda>st. I st \<and> guarded (alice_group st) = l \<and> \<not> poisoned (alice_group st))
     (case create_commit (commit_log_ops aops) l of
       None \<Rightarrow>
         and_then (set_state (\<lambda>st. st\<lparr>alice_group := (alice_group st)\<lparr>poisoned := True\<rparr>\<rparr>)) (\<lambda>_.
         halt (Panicked ''create_commit''))
     | Some (Inl e, l) \<Rightarrow>
         and_then (set_state (\<lambda>st. st\<lparr>alice_group := \<lparr>poisoned = True, guarded = l\<rparr>\<rparr>)) (\<lambda>_.
         halt (Panicked ''called unwrap on an error''))
     | Some (Inr b, l) \<Rightarrow>
         set_state (\<lambda>st. st\<lparr>alice_group := (alice_group st)\<lparr>guarded := l\<rparr>, made := made st @ [b]\<rparr>))
     (\<lambda>_. Q) (\<lambda>_. R)" for l
    unfolding triple_def run_simps commit_log_ops_simps using assms(4-6) by (auto split: option.split sum.split)
  moreover have "triple I (lock_log env bops)
      (\<lambda>l st. I st \<and> guarded (alice_group st) = l \<and> \<not> poisoned (alice_group st)) (\<lambda>_. R)"
    by (rule triple_lock_log) (fact assms(1-3))+
  ultimately show ?thesis unfolding unwrap_create_commit_def by (rule triple_and_then [rotated])
qed

text \<open>The rows that stand for a commit, those that stand for a preamble sent, and the others.\<close>

definition commit_events :: "string set" where
  "commit_events = {''commit_cpu'', ''commit_offline''}"

definition send_events :: "string set" where
  "send_events = {''commit_net'', ''handshake_transcript_embedded''}"

definition other_events :: "string set" where
  "other_events = {''zero_rtt_available'', ''handshake_0rtt_accepted'', ''handshake_0rtt_rejected'',
     ''reconnect_handshake_0rtt_accepted'', ''reconnect_handshake_0rtt_rejected'', ''reconnect_attempt_timed_out'',
     ''reconnect_attempt_failed'', ''blackout_start'', ''blackout_end'', ''done''}"

lemma other_events_apart [simp]: "ev \<in> other_events \<Longrightarrow> ev \<notin> commit_events" "ev \<in> other_events \<Longrightarrow> ev \<notin> send_events"
  by (auto simp: other_events_def commit_events_def send_events_def)

text \<open>
  What has to be shown of a property of the state: that it does not depend on the world outside, the
  cycle or the other rows, that the preamble of a reconnection preserves it, and that a commit of either
  kind preserves it, up to a weaker property where it stops. Then the whole sender does.
\<close>

locale alice_invariant =
  fixes env :: "('w, 'e, 'a) alice_env" and aops :: "('g, 'x) ExportSecret" and bops :: "('b, 'f) ExportSecret"
    and args :: "'a Args" and I S :: "('w, 'g, 'b) alice_run \<Rightarrow> bool"
  assumes weaken: "I st \<Longrightarrow> S st"
    and outside: "I st \<Longrightarrow> I (st\<lparr>world := w\<rparr>)"
    and cycles: "I st \<Longrightarrow> I (st\<lparr>last_ready_seen := c, a_cycle := k\<rparr>)"
    and other_row: "I st \<Longrightarrow> event line \<in> other_events \<Longrightarrow> row_mode line = mode \<Longrightarrow> I (st\<lparr>rows := rows st @ [line]\<rparr>)"
    and locking: "keeps I (lock_log env bops)"
    and embedding: "keeps I (embed_transcript env bops args addr)"
    and online: "upholds I S (online_commit env aops bops args addr)"
    and offline: "upholds I S (offline_commit env aops bops)"
begin

lemma uphold: "keeps I m \<Longrightarrow> upholds I S m"
  by (rule upholds_keeps) (rule weaken)

lemma loops: "upholds I S body \<Longrightarrow> upholds I S (repeat n body)"
  by (rule upholds_repeat) (rule weaken)

lemmas joining = upholds_and_then upholds_if loops

lemma asking: "keeps I (ask f)"
  by (rule keeps_ask) (rule outside)

lemma zooming: "keeps I (zoom_world m)"
  by (auto simp: keeps_def run_simps outside split: prod.split)

lemma clock: "keeps I (elapsed env t)"
  unfolding elapsed_def by (intro keeping asking)

lemma telemetry: "ev \<in> other_events \<Longrightarrow> keeps I (write_telemetry env ev ep n lat)"
  unfolding write_telemetry_def Let_def
  by (intro keeping keeps_set_state asking) (simp add: other_row)

lemma counting: "keeps I (set_state (\<lambda>st. st\<lparr>last_ready_seen := c, a_cycle := g st\<rparr>))"
  by (rule keeps_set_state) (rule cycles)

lemma config: "keeps I (duration_add a b)" "keeps I (instant_add a b)" "keeps I (transport_config env idle)" "keeps I (make_client_config env idle)"
  unfolding duration_add_def instant_add_def transport_config_def make_client_config_def Let_def by (intro keeping)+

lemma dialling: "keeps I (open_control env first idle)"
  unfolding open_control_def
proof (intro keeping config asking)
  show "keeps I (case r of Opened \<Rightarrow> pure (Inr ()) | OpenError e \<Rightarrow> pure (Inl e) | NoEarlyKeys \<Rightarrow> halt e')" for r e'
    by (cases r) (simp_all add: keeping)
qed

lemmas statements = keeping asking zooming clock counting config dialling telemetry

lemma connecting: "keeps I (first_connection env idle t0)" "keeps I (connect_under_timeout env t idle)"
  unfolding first_connection_def connect_under_timeout_def Let_def
  by (intro statements; simp add: other_events_def)+

lemma reconnecting: "keeps I (reconnection env bops args addr idle t0)"
  unfolding reconnection_def Let_def
  by (intro statements embedding connecting; simp add: other_events_def)

lemma in_phase: "keeps I (phase_open env args s p len)"
  unfolding phase_open_def by (intro statements)

lemma phase: "upholds I S commit \<Longrightarrow> upholds I S (commit_phase fuel env args s p len commit)"
  unfolding commit_phase_def Let_def
  by (intro joining; (assumption | rule uphold, intro statements in_phase))

lemma contact: "upholds I S (contact_and_blackout fuel env aops bops args addr start)"
  unfolding contact_and_blackout_def
  by (intro joining phase online offline; rule uphold; intro statements; simp add: other_events_def)

lemma cycle: "upholds I S (alice_cycle fuel env aops bops args addr start idle)"
  unfolding alice_cycle_def alice_window_def
  by (intro joining contact; rule uphold; intro statements connecting reconnecting)

lemma sender: "upholds I S (run_alice fuel env aops bops no_peer args)"
proof (cases "peer_addr args")
  case None
  then show ?thesis by (simp add: run_alice_def uphold keeping)
next
  case (Some addr)
  then show ?thesis
    unfolding run_alice_def
    by (simp only: option.case) (intro joining cycle; rule uphold; intro statements; simp add: other_events_def)
qed

end

subsection \<open>A concrete run\<close>

text \<open>
  For the witnesses: a world that is a clock advancing with each reading, where everything works, and a
  scenario of sixteen nanoseconds, in which Alice connects and makes one commit.
\<close>

definition sample_alice_env :: "(duration, string, string) alice_env" where
  "sample_alice_env =
     \<lparr>now = (\<lambda>w. (w + 1, w + 1)), sleep = (\<lambda>d w. ((), w + d)), read_ready = (\<lambda>w. (Some ''1'', w)),
      unix_ms = (\<lambda>w. (0, w)), open_telemetry = (\<lambda>w. (Inr (), w)), write_row = (\<lambda>line w. (Inr (), w)),
      bind_socket = (\<lambda>w. (Inr (), w)), new_endpoint = (\<lambda>w. (Inr (), w)), idle_timeout = (\<lambda>d. Some ()),
      deadline_first = (\<lambda>d w. (False, w)), others = (\<lambda>w. ([Reported, Trimmed 0], w)), connect = (\<lambda>first cfg w. (Some Opened, w)),
      zero_rtt_accepted = (\<lambda>first w. (Some True, w)), new_interval = (\<lambda>d w. (if d = 0 then None else Some (), w)),
      tick_first = (\<lambda>d w. (True, w)), send_to = (\<lambda>w d a. (Inr (length d), w)),
      force_key_update = (\<lambda>w. ((), w)), close_connection = (\<lambda>w. ((), w))\<rparr>"

definition sample_args :: "string Args" where
  "sample_args =
     \<lparr>role = Alice, bind_addr = ''a'', peer_addr = Some ''b'', bootstrap_dir = ''d'', commit_interval = 1,
      duration = 16, out_path = ''o'', blackout_on = 0, blackout_off = 0, report_timeout = 5,
      transcript_max_bytes = 1000\<rparr>"

definition sample_alice_run :: "(string stop + unit) \<times> (duration, nat, nat) alice_run" where
  "sample_alice_run = run_alice 20 sample_alice_env sample_ops sample_ops ''no peer'' sample_args (alice_start 0 0 0)"

lemmas alice_defs = alice_cycle_def alice_window_def wait_for_ready_def ready_cycle_def
  first_connection_def open_control_def make_client_config_def transport_config_def write_telemetry_def
  contact_and_blackout_def commit_phase_def phase_open_def online_commit_def unwrap_create_commit_def
  lock_window_bytes_def lock_log_def other_step_def mutex_lock_def mutex_new_def

lemma sample_ready: "parse_uint (2 ^ 64) (str_trim ''1'') = Some 1"
  by (simp add: str_trim_def is_whitespace_def parse_uint_def)

definition sample_datagram :: bytes where
  "sample_datagram = PREAMBLE_MARKER # encode_transcript [(1, [1])] usize_MAX"

lemma sample_bucket: "bucket_window [(1, [1])] 1000 (MAX_DATAGRAM_PAYLOAD - 1) = [[(1, [1])]]"
  by (simp add: bucket_simps MAX_DATAGRAM_PAYLOAD_def)

lemma sample_send:
  "send_to env = (\<lambda>w d a. (Inr (length d), w)) \<Longrightarrow>
   alice_send_preamble env addr [(1, [1])] 1000 st =
     (Inr (Inr (word_of_nat (length sample_datagram))),
      st\<lparr>wire := wire st @ [sample_datagram], bytes_sent := bytes_sent st + word_of_nat (length sample_datagram)\<rparr>)"
  using preamble_bucket_ok(1) [of "[(1, [1])]" "[(1, [1])]" 1000, unfolded sample_bucket]
  by (simp add: alice_send_preamble_def send_preamble_def sample_bucket [simplified] recording_def Let_def
      sample_datagram_def)

lemma sample_alice_sends:
  "fst sample_alice_run = Inr () \<and> made (snd sample_alice_run) = [[1]] \<and> wire (snd sample_alice_run) = [sample_datagram]
   \<and> peer_reports (snd sample_alice_run) = {0}"
  by (simp add: sample_alice_run_def run_alice_def sample_args_def alice_start_def commit_log_new_def btree_new_def bob_new_def run_simps sample_alice_env_def duration_add_def duration_MAX_def from_secs_def mutex_new_def)
    (simp add: alice_defs run_simps instant_add_def instant_END_def sample_ready [simplified] Let_def sample_log_simps(2-) sample_send)

lemma sample_alice_ends: "fst sample_alice_run = Inr () \<and> length (made (snd sample_alice_run)) = 1"
  by (simp add: sample_alice_sends)

lemma sample_alice_eq:
  "run_alice 20 sample_alice_env sample_ops sample_ops ''no peer'' sample_args (alice_start 0 0 0)
     = (Inr (), snd sample_alice_run)"
  using sample_alice_ends by (simp add: sample_alice_run_def prod_eq_iff)

end
