(* ===== verification/Alice_Refines.thy ===== *)
theory Alice_Refines
  imports Runner_Alice
begin

text \<open>
  The sender of the testbed refines the synchronisation protocol: beside a network that brings the peer nothing but
  the sender's datagrams and brings back nothing but the peer's reports, the log, the peer, the datagrams on the wire
  and the reports of \<open>run_alice\<close> are those of a reachable state of \<open>Sync\<close>, so that the guarantees of the protocol
  hold of the program. Datagrams of anybody else are the subject of \<open>run_bob_among_strangers\<close>, in \<open>Spec2Isabelle\<close>.
\<close>

definition protocol_state :: "'b \<Rightarrow> ('w, 'g, 'b) alice_run \<Rightarrow> ('g, 'b) system" where
  "protocol_state g0 st =
     \<lparr>alice = guarded (alice_group st), bob = peer st, net = set (wire st), reports = peer_reports st,
      history = made st, taken = trims st, bob_start = g0\<rparr>"

text \<open>
  Every state is one of the protocol, as long as fewer than $2^{64}$ commits have been made.
\<close>

definition simulates ::
    "('g, 'x) ExportSecret \<Rightarrow> ('b, 'f) ExportSecret \<Rightarrow> 'b \<Rightarrow> nat \<Rightarrow> ('w, 'g, 'b) alice_run \<Rightarrow> bool" where
  "simulates aops bops g0 budget st \<longleftrightarrow>
     length (made st) < 2 ^ 64 \<longrightarrow> reach sync_init (sync_step aops bops budget) (protocol_state g0 st)"

lemma simulates_step:
  "simulates aops bops g0 budget st \<Longrightarrow> sync_step aops bops budget (protocol_state g0 st) (protocol_state g0 st')
     \<Longrightarrow> length (made st) \<le> length (made st') \<Longrightarrow> simulates aops bops g0 budget st'"
  unfolding simulates_def by (auto intro: reach_step)

lemma protocol_state_frame [simp]:
  "protocol_state g0 (st\<lparr>world := w\<rparr>) = protocol_state g0 st" "protocol_state g0 (st\<lparr>rows := r\<rparr>) = protocol_state g0 st"
  "protocol_state g0 (st\<lparr>a_epoch := e\<rparr>) = protocol_state g0 st" "protocol_state g0 (st\<lparr>a_cycle := c\<rparr>) = protocol_state g0 st"
  "protocol_state g0 (st\<lparr>last_ready_seen := c\<rparr>) = protocol_state g0 st"
  by (simp_all add: protocol_state_def)

lemma simulates_frame [simp]:
  "simulates aops bops g0 budget (st\<lparr>world := w\<rparr>) = simulates aops bops g0 budget st"
  "simulates aops bops g0 budget (st\<lparr>rows := r\<rparr>) = simulates aops bops g0 budget st"
  "simulates aops bops g0 budget (st\<lparr>a_epoch := e\<rparr>) = simulates aops bops g0 budget st"
  "simulates aops bops g0 budget (st\<lparr>a_cycle := c\<rparr>) = simulates aops bops g0 budget st"
  "simulates aops bops g0 budget (st\<lparr>last_ready_seen := c\<rparr>) = simulates aops bops g0 budget st"
  by (simp_all add: simulates_def)

lemma other_step_simulates:
  assumes "simulates aops bops g0 budget st"
  shows "simulates aops bops g0 budget (other_step bops a st)"
proof (cases a)
  case (Delivered d)
  show ?thesis
  proof (cases "d \<in> set (wire st) \<and> bob_receive bops d (peer st) \<noteq> None")
    case True
    then obtain b where "d \<in> net (protocol_state g0 st)" "bob_receive bops d (bob (protocol_state g0 st)) = Ret b"
      "other_step bops a st = st\<lparr>peer := b\<rparr>"
      by (auto simp: Delivered other_step_def protocol_state_def)
    with simulates_step [OF assms, of "st\<lparr>peer := b\<rparr>"] sync_deliver [of d "protocol_state g0 st" bops b aops budget]
    show ?thesis by (simp add: protocol_state_def)
  next
    case False
    with assms show ?thesis by (auto simp: Delivered other_step_def split: option.split)
  qed
next
  case Reported
  with simulates_step [OF assms, of "other_step bops a st"] sync_report [of aops bops budget "protocol_state g0 st"]
  show ?thesis by (simp add: other_step_def protocol_state_def)
next
  case (Trimmed k)
  show ?thesis
  proof (cases "k \<in> peer_reports st \<and> mutex_lock (alice_group st) \<noteq> None")
    case True
    then have st': "other_step bops a st = st\<lparr>alice_group := (alice_group st)\<lparr>guarded := trim (guarded (alice_group st)) k\<rparr>, trims := trims st @ [k]\<rparr>"
      by (auto simp: Trimmed other_step_def mutex_lock_def)
    from True sync_trim [of k "protocol_state g0 st" aops bops budget]
    have "sync_step aops bops budget (protocol_state g0 st) (protocol_state g0 (other_step bops a st))"
      unfolding st' by (simp add: protocol_state_def)
    then show ?thesis by (rule simulates_step [OF assms]) (simp add: st')
  next
    case False
    with assms show ?thesis by (auto simp: Trimmed other_step_def split: option.split)
  qed
qed

lemma others_simulate: "simulates aops bops g0 budget st \<Longrightarrow> simulates aops bops g0 budget (fold (other_step bops) acts st)"
  by (induction acts arbitrary: st) (simp_all add: other_step_simulates)

lemma simulates_ask: "keeps (simulates aops bops g0 budget) (ask f)"
  by (rule keeps_ask) simp

lemma lock_log_triple:
  "triple (simulates aops bops g0 budget) (lock_log env bops)
     (\<lambda>l st. simulates aops bops g0 budget st \<and> guarded (alice_group st) = l) (\<lambda>_. simulates aops bops g0 budget)"
  unfolding triple_def lock_log_def run_simps
  by (auto split: prod.splits option.splits dest!: mutex_lock_Some intro!: others_simulate)

lemma lock_log_triple': "keeps (simulates aops bops g0 budget) (lock_log env bops)"
  unfolding keeps_triple by (rule triple_conseq [OF lock_log_triple]) auto

text \<open>Sending the window that was read under the lock puts only its datagrams on the wire.\<close>

lemma sends_recording:
  "sends (recording send) addr (w, ws) ds = (ds', r, u) \<Longrightarrow> \<exists>es. set es \<subseteq> set ds \<and> snd u = ws @ es"
proof (induction ds arbitrary: w ws ds')
  case Nil
  then show ?case by (auto intro: exI [of _ "[]"])
next
  case (Cons d ds)
  obtain q v where q: "send w d addr = (q, v)" by (cases "send w d addr")
  show ?case
  proof (cases q)
    case (Inl e)
    with Cons.prems q show ?thesis by (auto simp: recording_def intro: exI [of _ "[d]"])
  next
    case (Inr n)
    with Cons.prems q obtain ds1 where "sends (recording send) addr (v, ws @ [d]) ds = (ds1, r, u)"
      by (auto simp: recording_def [of send "(w, ws)"] split: prod.splits)
    from Cons.IH [OF this] obtain es where "set es \<subseteq> set ds" "snd u = (ws @ [d]) @ es" by blast
    then show ?thesis by (intro exI [of _ "d # es"]) auto
  qed
qed

lemma alice_send_preamble_triple:
  "triple (\<lambda>st. simulates aops bops g0 budget st \<and> window_bytes (guarded (alice_group st)) = window)
     (alice_send_preamble env addr window budget) (\<lambda>_. simulates aops bops g0 budget) (\<lambda>_. simulates aops bops g0 budget)"
proof -
  have "simulates aops bops g0 budget st'"
    if sim: "simulates aops bops g0 budget st" and w: "window_bytes (guarded (alice_group st)) = window"
      and run: "alice_send_preamble env addr window budget st = (r, st')" for st r st'
  proof -
    obtain ds q u where s: "sends (recording (send_to env)) addr (world st, wire st) (preamble_datagrams window budget) = (ds, q, u)"
      by (metis prod_cases3)
    from sends_recording [OF s]
    obtain es where es: "set es \<subseteq> set (preamble_datagrams window budget)" "snd u = wire st @ es" by auto
    from run es(2) have st': "protocol_state g0 st' = (protocol_state g0 st)\<lparr>net := net (protocol_state g0 st) \<union> set es\<rparr>"
      "made st' = made st"
      by (auto simp: alice_send_preamble_eq s protocol_state_def)
    have "sync_step aops bops budget (protocol_state g0 st) (protocol_state g0 st')"
      unfolding st' by (rule sync_send) (use es(1) w in \<open>simp add: protocol_state_def\<close>)
    then show ?thesis by (rule simulates_step [OF sim]) (simp add: st'(2))
  qed
  then show ?thesis unfolding triple_def by (fastforce split: prod.splits sum.splits)
qed

text \<open>A commit is a step of the protocol; the bound on the history excludes the wrap-around.\<close>

lemma simulates_no_wrap:
  assumes "simulates aops bops g0 budget st" and "apply_atomic bops" and "Suc (length (made st)) < 2 ^ 64"
  shows "current_epoch (guarded (alice_group st)) \<noteq> - 1"
proof
  assume top: "current_epoch (guarded (alice_group st)) = - 1"
  from assms have "reach sync_init (sync_step aops bops budget) (protocol_state g0 st)"
    unfolding simulates_def by simp
  from sync_invD(2) [OF reach_sync_inv [OF this assms(2)]] top
  have "length (made st) = unat (- 1 :: u64)" by (simp add: protocol_state_def)
  then show False using assms(3) by (simp add: unsigned_minus_1_eq_mask mask_eq_exp_minus_1)
qed

lemma keeps_unwrap_create_commit:
  assumes "apply_atomic bops"
  shows "keeps (simulates aops bops g0 budget) (unwrap_create_commit env aops bops)"
  unfolding keeps_triple
proof (rule triple_unwrap_create_commit)
  fix st e l
  assume sim: "simulates aops bops g0 budget st" and l: "commit_log_create_commit aops (guarded (alice_group st)) = Ret (Inl e, l)"
  have "sync_step aops bops budget (protocol_state g0 st) (protocol_state g0 (st\<lparr>alice_group := \<lparr>poisoned = True, guarded = l\<rparr>\<rparr>))"
    using sync_commit_fail [of aops "protocol_state g0 st" e l bops budget] l
    by (simp add: protocol_state_def commit_log_ops_simps)
  then show "simulates aops bops g0 budget (st\<lparr>alice_group := \<lparr>poisoned = True, guarded = l\<rparr>\<rparr>)"
    by (rule simulates_step [OF sim]) simp
next
  fix st c l
  assume sim: "simulates aops bops g0 budget st" and l: "commit_log_create_commit aops (guarded (alice_group st)) = Ret (Inr c, l)"
  let ?t = "st\<lparr>alice_group := (alice_group st)\<lparr>guarded := l\<rparr>, made := made st @ [c]\<rparr>"
  show "simulates aops bops g0 budget ?t"
  proof (cases "Suc (length (made st)) < 2 ^ 64")
    case True
    have "sync_step aops bops budget (protocol_state g0 st) (protocol_state g0 ?t)"
      using sync_commit [of "protocol_state g0 st" aops c l bops budget] simulates_no_wrap [OF sim assms True] l
      by (simp add: protocol_state_def commit_log_ops_simps)
    then show ?thesis by (rule simulates_step [OF sim]) simp
  qed (simp add: simulates_def)
qed (simp_all add: others_simulate, simp add: simulates_def protocol_state_def)

text \<open>Reading the window and sending it, with a clock reading between them.\<close>

lemma lock_window_bytes_triple:
  "triple (simulates aops bops g0 budget) (lock_window_bytes env bops)
     (\<lambda>w st. simulates aops bops g0 budget st \<and> window_bytes (guarded (alice_group st)) = w)
     (\<lambda>_. simulates aops bops g0 budget)"
  unfolding lock_window_bytes_def
  by (rule triple_and_then [OF lock_log_triple triple_pure]) simp

lemma ask_window_triple:
  "triple (\<lambda>st. simulates aops bops g0 budget st \<and> window_bytes (guarded (alice_group st)) = w) (ask f)
     (\<lambda>_ st. simulates aops bops g0 budget st \<and> window_bytes (guarded (alice_group st)) = w)
     (\<lambda>_. simulates aops bops g0 budget)"
  by (simp add: triple_def run_simps split: prod.split)

lemma keeps_send_window:
  assumes "\<And>r. keeps (simulates aops bops g0 budget) (k r)"
  shows "keeps (simulates aops bops g0 budget) (and_then (lock_window_bytes env bops) (\<lambda>w.
    and_then (alice_send_preamble env addr w budget) k))"
  unfolding keeps_triple
  by (rule triple_and_then [OF lock_window_bytes_triple])
    (rule triple_and_then [OF alice_send_preamble_triple assms [unfolded keeps_triple]])

lemma keeps_ask_send_window:
  assumes "\<And>t r. keeps (simulates aops bops g0 budget) (k t r)"
  shows "keeps (simulates aops bops g0 budget) (and_then (lock_window_bytes env bops) (\<lambda>w.
    and_then (ask f) (\<lambda>t. and_then (alice_send_preamble env addr w budget) (k t))))"
  unfolding keeps_triple
  by (rule triple_and_then [OF lock_window_bytes_triple], rule triple_and_then [OF ask_window_triple])
    (rule triple_and_then [OF alice_send_preamble_triple assms [unfolded keeps_triple]])

lemma simulates_elapsed: "keeps (simulates aops bops g0 budget) (elapsed env t)"
  unfolding elapsed_def by (intro keeping simulates_ask)

lemma simulates_row: "keeps (simulates aops bops g0 budget) (write_telemetry env ev ep n lat)"
  unfolding write_telemetry_def Let_def
  by (intro keeping keeps_set_state simulates_ask) simp

lemma simulates_epoch: "keeps (simulates aops bops g0 budget) (set_state (\<lambda>st. st\<lparr>a_epoch := f st\<rparr>))"
  by (rule keeps_set_state) simp

lemma simulates_commits:
  assumes "apply_atomic bops"
  shows "keeps (simulates aops bops g0 (transcript_max_bytes args)) (online_commit env aops bops args addr)"
    and "keeps (simulates aops bops g0 budget) (offline_commit env aops bops)"
  unfolding online_commit_def offline_commit_def
  by (intro keeping keeps_send_window keeps_unwrap_create_commit assms simulates_ask simulates_elapsed
      simulates_row simulates_epoch)+

lemma simulates_embed:
  "keeps (simulates aops bops g0 (transcript_max_bytes args)) (embed_transcript env bops args addr)"
  unfolding embed_transcript_def
  by (intro keeping keeps_ask_send_window simulates_elapsed simulates_row)

text \<open>The refinement is an invariant of the sender.\<close>

abbreviation keeps_protocol where
  "keeps_protocol aops bops g0 args st \<equiv> apply_atomic bops \<longrightarrow> simulates aops bops g0 (transcript_max_bytes args) st"

interpretation refinement: alice_invariant env aops bops args
  "keeps_protocol aops bops g0 args" "keeps_protocol aops bops g0 args" for env aops bops g0 args
proof (cases "apply_atomic bops")
  case True
  then show "alice_invariant env aops bops args (keeps_protocol aops bops g0 args) (keeps_protocol aops bops g0 args)"
    by (unfold_locales; (simp only: simp_thms True)?)
      (simp_all add: lock_log_triple' simulates_embed simulates_commits [OF True] flip: keeps_upholds)
next
  case False
  then show "alice_invariant env aops bops args (keeps_protocol aops bops g0 args) (keeps_protocol aops bops g0 args)"
    by unfold_locales (simp_all add: keeps_def flip: keeps_upholds)
qed

lemma alice_start_simulates: "simulates aops bops g0 budget (alice_start w g g0)"
proof -
  have "sync_init (protocol_state g0 (alice_start w g g0))"
    by (simp add: sync_init_def protocol_state_def alice_start_def mutex_new_def commit_log_init_def commit_log_new_def)
  then show ?thesis unfolding simulates_def by (auto intro: reach_init)
qed

lemma run_alice_reaches:
  assumes "apply_atomic bops" and "run_alice fuel env aops bops no_peer args (alice_start w g g0) = (r, st)"
    and "length (made st) < 2 ^ 64"
  shows "reach sync_init (sync_step aops bops (transcript_max_bytes args)) (protocol_state g0 st)"
proof -
  have "keeps_protocol aops bops g0 args st"
    by (rule keepsD [OF refinement.sender [folded keeps_upholds] _ assms(2)]) (simp add: alice_start_simulates)
  with assms(1,3) show ?thesis unfolding simulates_def by blast
qed

text \<open>
  C7: The sender refines the protocol. Let the network lose, repeat, delay and reorder what she sends, but bring the
  peer no datagram that she did not put on the wire, and let her log be trimmed by no epoch that the peer has not
  reported; these are the only acts of other tasks that the environment \<open>others\<close> has, and \<open>other_step\<close> lets
  any other of them pass without effect. Then whatever the clock, the files and the sockets do, whichever
  connections are made, when and in which order those acts happen, and however long she runs or where
  she stops, the state of \<open>run_alice\<close> is a reachable state of the synchronisation protocol while fewer than
  $2^{64}$ commits have been made; hence the peer's group is its first group with a prefix of her commits applied,
  and her log still holds every commit it lacks. The assumption is that a rejected commit leaves the peer's
  group as it was.
\<close>

theorem run_alice_refines:
  assumes "apply_atomic bops" and "run_alice fuel env aops bops no_peer args (alice_start w g g0) = (r, st)"
    and "length (made st) < 2 ^ 64"
  shows "reach sync_init (sync_step aops bops (transcript_max_bytes args)) (protocol_state g0 st)
    \<and> apply_commits bops g0 (take (unat (epoch_tx (peer st))) (made st))
        = Ret (Inr (), guarded (bob_group (peer st)), unat (epoch_tx (peer st)))
    \<and> map snd (filter (\<lambda>e. epoch_tx (peer st) < fst e) (window_bytes (guarded (alice_group st))))
        = drop (unat (epoch_tx (peer st))) (made st)"
  using sync_state_safe [OF reach_sync_inv [OF run_alice_reaches [OF assms] assms(1)]] run_alice_reaches [OF assms]
  by (simp add: protocol_state_def)

lemma run_alice_refines_witness:
  "reach sync_init (sync_step sample_ops sample_ops 1000) (protocol_state 0 (snd sample_alice_run))"
  using run_alice_refines [OF sample_atomic sample_alice_eq] sample_alice_ends
  by (simp add: sample_args_def)

end
