(* ===== verification/Alice_Telemetry.thy ===== *)
theory Alice_Telemetry
  imports Runner_Alice
begin

text \<open>
  The telemetry of the sender is exact: the rows of its commits carry the epochs 1, 2, 3 and so on
  without a gap or a repetition, whatever happens in between, and its own counter agrees with the
  epoch of the commit log. Between a commit and its row, and nowhere else, the rows are one behind.
\<close>

definition commit_epochs :: "row list \<Rightarrow> u64 list" where
  "commit_epochs rs = map row_epoch (filter (\<lambda>r. event r \<in> commit_events) rs)"

text \<open>The number of commits made, the value of the counter, and the number of commit rows.\<close>

definition numbers :: "nat \<Rightarrow> nat \<Rightarrow> nat \<Rightarrow> ('w, 'g, 'b) alice_run \<Rightarrow> bool" where
  "numbers n m c st \<longleftrightarrow> length (made st) = n \<and> current_epoch (guarded (alice_group st)) = word_of_nat n
     \<and> a_epoch st = word_of_nat m \<and> commit_epochs (rows st) = map word_of_nat [1..<Suc c]"

definition in_step :: "('w, 'g, 'b) alice_run \<Rightarrow> bool" where
  "in_step st \<longleftrightarrow> (\<exists>n. numbers n n n st)"

definition one_behind :: "('w, 'g, 'b) alice_run \<Rightarrow> bool" where
  "one_behind st \<longleftrightarrow> (\<exists>n m c. numbers n m c st \<and> c \<le> n \<and> n \<le> Suc c)"

lemma numbers_behind: "numbers n m c st \<Longrightarrow> c \<le> n \<Longrightarrow> n \<le> Suc c \<Longrightarrow> one_behind st"
  unfolding one_behind_def by (intro exI conjI)

lemma in_step_behind: "in_step st \<Longrightarrow> one_behind st"
  unfolding in_step_def by (elim exE numbers_behind) simp_all

lemma commit_epochs_snoc [simp]:
  "commit_epochs (rs @ [line]) = commit_epochs rs @ (if event line \<in> commit_events then [row_epoch line] else [])"
  by (simp add: commit_epochs_def)

lemma numbers_frame [simp]:
  "numbers n m c (st\<lparr>world := w\<rparr>) = numbers n m c st"
  "numbers n m c (st\<lparr>last_ready_seen := r, a_cycle := k\<rparr>) = numbers n m c st"
  "event line \<notin> commit_events \<Longrightarrow> numbers n m c (st\<lparr>rows := rows st @ [line]\<rparr>) = numbers n m c st"
  by (simp_all add: numbers_def)

lemma numbers_other_step: "numbers n m c st \<Longrightarrow> numbers n m c (other_step bops a st)"
  by (auto simp: numbers_def other_step_def mutex_lock_def split: other.split option.split)

lemma numbers_others: "numbers n m c st \<Longrightarrow> numbers n m c (fold (other_step bops) acts st)"
  by (induction acts arbitrary: st) (simp_all add: numbers_other_step)

subsection \<open>Statements that make no commit\<close>

named_theorems quiet \<open>statements that preserve the numbers\<close>

lemma numbers_ask [quiet]: "keeps (numbers n m c) (ask f)"
  by (rule keeps_ask) simp

lemma numbers_elapsed [quiet]: "keeps (numbers n m c) (elapsed env t)"
  unfolding elapsed_def by (intro keeping quiet)

lemma numbers_lock [quiet]:
  "keeps (numbers n m c) (lock_log env bops)" "keeps (numbers n m c) (lock_window_bytes env bops)"
  unfolding lock_window_bytes_def lock_log_def
  by (intro keeping quiet keeps_set_state numbers_others; assumption)+

lemma numbers_send [quiet]: "keeps (numbers n m c) (alice_send_preamble env addr w budget)"
  by (auto simp: keeps_def alice_send_preamble_def Let_def numbers_def split: prod.split)

lemma numbers_row [quiet]: "ev \<notin> commit_events \<Longrightarrow> keeps (numbers n m c) (write_telemetry env ev ep k lat)"
  unfolding write_telemetry_def Let_def by (intro keeping quiet keeps_set_state) simp

lemma quietly:
  assumes "keeps (numbers n m c) p" and "c \<le> n" and "n \<le> Suc c"
  shows "triple (numbers n m c) p (\<lambda>_. numbers n m c) (\<lambda>_. one_behind)"
  using assms(1) unfolding keeps_triple
  by (rule triple_conseq) (use assms(2,3) in \<open>auto simp: one_behind_def\<close>)

lemma quietly_then:
  "keeps (numbers n m n) p \<Longrightarrow> (\<And>x. triple (numbers n m n) (k x) Q (\<lambda>_. one_behind))
     \<Longrightarrow> triple (numbers n m n) (and_then p k) Q (\<lambda>_. one_behind)"
  "keeps (numbers (Suc n) m n) p \<Longrightarrow> (\<And>x. triple (numbers (Suc n) m n) (k x) Q (\<lambda>_. one_behind))
     \<Longrightarrow> triple (numbers (Suc n) m n) (and_then p k) Q (\<lambda>_. one_behind)"
  by (rule triple_and_then [OF quietly]; simp)+

subsection \<open>Commits\<close>

lemma create_commit_epoch:
  "commit_log_create_commit ops l = Ret (Inr b, l') \<Longrightarrow> current_epoch l' = current_epoch l + 1"
  by (auto simp: commit_log_create_commit_def Let_def split: bind_splits sum.splits)

lemma numbers_create:
  "triple (numbers n m n) (unwrap_create_commit env aops bops) (\<lambda>_. numbers (Suc n) m n) (\<lambda>_. one_behind)"
proof (rule triple_unwrap_create_commit)
  show "numbers n m n st \<Longrightarrow> numbers n m n (fold (other_step bops) acts st)" for acts st
    by (rule numbers_others)
qed (auto simp: numbers_def one_behind_def dest: create_commit_epoch create_commit_Inl)

lemma numbers_count:
  "triple (numbers n m c) (set_state (\<lambda>st. st\<lparr>a_epoch := a_epoch st + 1\<rparr>)) (\<lambda>_. numbers n (Suc m) c) R"
  by (rule triple_set_state) (simp add: numbers_def)

lemma numbers_get:
  "triple (numbers n m c) (get_state a_epoch) (\<lambda>ep st. numbers n m c st \<and> ep = word_of_nat m) R"
  by (rule triple_get_state) (simp add: numbers_def)

lemma numbers_commit_row:
  assumes "ev \<in> commit_events"
  shows "triple (\<lambda>st. numbers (Suc n) (Suc n) n st \<and> ep = word_of_nat (Suc n)) (write_telemetry env ev ep k lat)
    (\<lambda>_. numbers (Suc n) (Suc n) (Suc n)) (\<lambda>_. one_behind)"
  unfolding write_telemetry_def Let_def
  by (rule triple_given) (intro quietly_then numbers_ask keeping triple_set_state, use assms in \<open>simp add: numbers_def\<close>)

lemma online_numbers:
  "triple (numbers n n n) (online_commit env aops bops args addr) (\<lambda>_. numbers (Suc n) (Suc n) (Suc n)) (\<lambda>_. one_behind)"
proof -
  have online: "''commit_cpu'' \<in> commit_events" and net: "''commit_net'' \<notin> commit_events"
    by (simp_all add: commit_events_def)
  show ?thesis
    unfolding online_commit_def
    by (rule quietly_then, rule numbers_ask, rule triple_and_then [OF numbers_create],
        rule quietly_then, rule numbers_elapsed, rule triple_and_then [OF numbers_count],
        (rule quietly_then, rule quiet keeps_basic(5))+,
        rule triple_and_then [OF numbers_get],
        rule triple_and_then [OF numbers_commit_row [OF online]],
        rule quietly [OF numbers_row [OF net]]) simp_all
qed

lemma offline_numbers:
  "triple (numbers n n n) (offline_commit env aops bops) (\<lambda>_. numbers (Suc n) (Suc n) (Suc n)) (\<lambda>_. one_behind)"
proof -
  have "''commit_offline'' \<in> commit_events" by (simp add: commit_events_def)
  from numbers_commit_row [OF this] show ?thesis
    unfolding offline_commit_def
    by (intro triple_and_then [OF numbers_create] triple_and_then [OF numbers_count] triple_and_then [OF numbers_get])
qed

subsection \<open>The invariant\<close>

lemma in_step_keeps:
  assumes "\<And>n. keeps (numbers n n n) p"
  shows "keeps in_step p"
  using assms unfolding keeps_def in_step_def by blast

lemma in_step_commit:
  assumes "\<And>n. triple (numbers n n n) p (\<lambda>_. numbers (Suc n) (Suc n) (Suc n)) (\<lambda>_. one_behind)"
  shows "upholds in_step one_behind p"
  unfolding upholds_def in_step_def
  by (intro triple_ex triple_conseq [OF assms]) auto

interpretation telemetry: alice_invariant env aops bops args in_step one_behind for env aops bops args
proof (unfold_locales, goal_cases)
  case (6 addr)
  show ?case
    unfolding embed_transcript_def by (rule in_step_keeps) (intro keeping quiet; simp add: commit_events_def)
qed (auto simp: in_step_def intro: in_step_keeps numbers_lock in_step_commit online_numbers offline_numbers
    dest: numbers_behind)

lemma write_telemetry_Inr:
  "write_telemetry env ev ep n lat s = (Inr u, t) \<Longrightarrow>
     a_epoch t = a_epoch s \<and> (\<exists>line. rows t = rows s @ [line] \<and> event line = ev \<and> row_epoch line = ep)"
  by (auto simp: write_telemetry_def run_simps Let_def split: prod.splits sum.splits)

lemma run_alice_done:
  assumes "run_alice fuel env aops bops no_peer args s = (Inr u, st)"
  shows "event (last (rows st)) = ''done'' \<and> row_epoch (last (rows st)) = a_epoch st"
proof (cases "peer_addr args")
  case None
  with assms show ?thesis by (simp add: run_alice_def halt_def)
next
  case (Some addr)
  with assms show ?thesis
    by (auto simp: run_alice_def and_then_Inr get_state_def dest!: write_telemetry_Inr)
qed

lemma alice_start_in_step: "in_step (alice_start w g b)"
  by (auto simp: in_step_def numbers_def alice_start_def mutex_new_def commit_log_new_def commit_epochs_def)

text \<open>
  C10: Exact telemetry. Wherever a run of the sender stops, the rows of its commits carry the epochs
  1, 2, 3, ... in order, one for each commit made except that the last may still be unwritten, and the
  epoch of the log is the number of commits. A run that ends has a row for every commit, agrees
  with its log on the epoch, and closes with a \<open>done\<close> row of that epoch.
\<close>

theorem run_alice_telemetry:
  assumes "run_alice fuel env aops bops no_peer args (alice_start w g b) = (r, st)"
  shows "current_epoch (guarded (alice_group st)) = word_of_nat (length (made st))
    \<and> (\<exists>k. commit_epochs (rows st) = map word_of_nat [1..<Suc k] \<and> k \<le> length (made st) \<and> length (made st) \<le> Suc k
      \<and> (r = Inr () \<longrightarrow> k = length (made st) \<and> a_epoch st = word_of_nat k
           \<and> event (last (rows st)) = ''done'' \<and> row_epoch (last (rows st)) = a_epoch st))"
proof (cases r)
  case (Inl e)
  from upholdsE [OF telemetry.sender alice_start_in_step assms [unfolded Inl]]
  obtain n m c where "numbers n m c st" "c \<le> n" "n \<le> Suc c" unfolding one_behind_def by (elim exE conjE)
  with Inl show ?thesis by (intro conjI exI [of _ c]) (simp_all add: numbers_def del: upt_Suc)
next
  case (Inr u)
  from upholdsD [OF telemetry.sender alice_start_in_step assms [unfolded Inr]]
  obtain k where "numbers k k k st" unfolding in_step_def by (elim exE)
  with run_alice_done [OF assms [unfolded Inr]] show ?thesis
    by (intro conjI exI [of _ k]) (simp_all add: numbers_def del: upt_Suc)
qed

lemma run_alice_telemetry_witness:
  "commit_epochs (rows (snd sample_alice_run)) = [1] \<and> a_epoch (snd sample_alice_run) = 1
   \<and> event (last (rows (snd sample_alice_run))) = ''done''"
  using run_alice_telemetry [OF sample_alice_eq] sample_alice_ends by auto

end
