(* ===== verification/Alice_Delivers.thy ===== *)
theory Alice_Delivers
  imports Alice_Refines
begin

text \<open>
  What the sender's telemetry says of the preambles is true of the wire. Whenever \<open>run_alice\<close> writes the
  row of a preamble, that of a commit sent or of a reconnection, with an epoch, all the datagrams of
  a window that ends with that epoch are on the wire, in order and without another between them, and
  the window begins right after an epoch the receiver had reported.
\<close>

definition offered :: "nat \<Rightarrow> u64 \<Rightarrow> ('w, 'g, 'b) alice_run \<Rightarrow> bool" where
  "offered budget k st \<longleftrightarrow> (\<exists>c w before after. wire st = before @ preamble_datagrams w budget @ after
     \<and> covers (made st) c k w \<and> c \<le> checkpoint (guarded (alice_group st)))"

definition offers :: "nat \<Rightarrow> ('w, 'g, 'b) alice_run \<Rightarrow> bool" where
  "offers budget st \<longleftrightarrow> length (made st) < 2 ^ 64 \<longrightarrow>
     (\<forall>line \<in> set (rows st). event line \<in> send_events \<longrightarrow> offered budget (row_epoch line) st)"

subsection \<open>An offer is never withdrawn\<close>

definition grows :: "('w, 'g, 'b) alice_run \<Rightarrow> ('w, 'g, 'b) alice_run \<Rightarrow> bool" where
  "grows st st' \<longleftrightarrow> prefix (made st) (made st') \<and> prefix (wire st) (wire st')
     \<and> checkpoint (guarded (alice_group st)) \<le> checkpoint (guarded (alice_group st'))"

lemma grows_refl [simp]: "grows st st"
  by (simp add: grows_def)

lemma grows_trans: "grows st st' \<Longrightarrow> grows st' st'' \<Longrightarrow> grows st st''"
  unfolding grows_def by (blast intro: prefix_order.trans order_trans)

lemma grows_offered:
  assumes "grows st st'" and "offered budget k st"
  shows "offered budget k st'"
proof -
  from assms(1) obtain h ds where g: "made st' = made st @ h" "wire st' = wire st @ ds"
    "checkpoint (guarded (alice_group st)) \<le> checkpoint (guarded (alice_group st'))"
    unfolding grows_def prefix_def by blast
  from assms(2) obtain c w before after where o: "wire st = before @ preamble_datagrams w budget @ after"
    "covers (made st) c k w" "c \<le> checkpoint (guarded (alice_group st))"
    unfolding offered_def by blast
  have "wire st' = before @ preamble_datagrams w budget @ (after @ ds)" by (simp add: g o)
  moreover have "covers (made st') c k w" unfolding g by (rule covers_extend [OF o(2)])
  ultimately show ?thesis unfolding offered_def using order_trans [OF o(3) g(3)] by blast
qed

lemma grows_offers:
  assumes "grows st st'" and "offers budget st" and "set (rows st') \<subseteq> set (rows st) \<union> {line. event line \<notin> send_events}"
  shows "offers budget st'"
proof -
  have "length (made st) \<le> length (made st')" using assms(1) unfolding grows_def by (blast dest: prefix_length_le)
  with assms show ?thesis unfolding offers_def by (auto intro: grows_offered [OF assms(1)])
qed

lemma grows_other_step: "grows st (other_step bops a st)"
  by (auto simp: grows_def other_step_def mutex_lock_def trim_checkpoint split: other.split option.split)

lemma grows_others: "grows st (fold (other_step bops) acts st)"
  by (induction acts arbitrary: st) (auto intro: grows_trans grows_other_step)

lemma other_step_frame:
  "rows (other_step bops a st) = rows st" "made (other_step bops a st) = made st"
  "a_epoch (other_step bops a st) = a_epoch st"
  by (simp_all add: other_step_def split: other.split option.split)

lemma others_frame [simp]:
  "rows (fold (other_step bops) acts st) = rows st" "made (fold (other_step bops) acts st) = made st"
  "a_epoch (fold (other_step bops) acts st) = a_epoch st"
  by (induction acts arbitrary: st) (simp_all add: other_step_frame)

text \<open>Sending puts a prefix of the datagrams on the wire, and all of them when it succeeds.\<close>

lemma recording_sends:
  "sends (recording send) addr (v, ws) ds = (ds', q, u) \<Longrightarrow> prefix ws (snd u) \<and> (q = None \<longrightarrow> snd u = ws @ ds)"
proof (induction ds arbitrary: v ws ds')
  case (Cons d ds)
  obtain r x where r: "send v d addr = (r, x)" by (cases "send v d addr")
  show ?case
  proof (cases r)
    case (Inl e)
    with Cons.prems r show ?thesis by (auto simp: recording_def)
  next
    case (Inr n)
    with Cons.prems r obtain ds1 where "sends (recording send) addr (x, ws @ [d]) ds = (ds1, q, u)"
      by (auto simp: recording_def [of send "(v, ws)"] split: prod.splits)
    from Cons.IH [OF this] show ?thesis by (auto dest: append_prefixD)
  qed
qed auto

lemma send_grows:
  assumes "alice_send_preamble env addr w budget st = (r, st')"
  shows "grows st st' \<and> rows st' = rows st \<and> made st' = made st \<and> alice_group st' = alice_group st \<and> a_epoch st' = a_epoch st
    \<and> (\<forall>n. r = Inr (Inr n) \<longrightarrow> wire st' = wire st @ preamble_datagrams w budget)"
proof -
  obtain ds q u where s: "sends (recording (send_to env)) addr (world st, wire st) (preamble_datagrams w budget) = (ds, q, u)"
    by (metis prod_cases3)
  from recording_sends [OF s] assms show ?thesis
    by (auto simp: alice_send_preamble_eq s grows_def split: option.splits)
qed

subsection \<open>The ledger\<close>

text \<open>The refinement, the counters, and the offers.\<close>

definition counts :: "nat \<Rightarrow> nat \<Rightarrow> ('w, 'g, 'b) alice_run \<Rightarrow> bool" where
  "counts n m st \<longleftrightarrow> length (made st) = n \<and> a_epoch st = word_of_nat m"

definition ledger ::
    "('g, 'x) ExportSecret \<Rightarrow> ('b, 'f) ExportSecret \<Rightarrow> 'b \<Rightarrow> nat \<Rightarrow> nat \<Rightarrow> nat \<Rightarrow> ('w, 'g, 'b) alice_run \<Rightarrow> bool" where
  "ledger aops bops g0 budget n m st \<longleftrightarrow> simulates aops bops g0 budget st \<and> counts n m st \<and> offers budget st"

text \<open>An offer of the window just read, kept while the row is not yet written.\<close>

definition pledged :: "nat \<Rightarrow> u64 \<Rightarrow> ('w, 'g, 'b) alice_run \<Rightarrow> bool" where
  "pledged budget k st \<longleftrightarrow> length (made st) < 2 ^ 64 \<longrightarrow> offered budget k st"

lemma grows_pledged: "grows st st' \<Longrightarrow> pledged budget k st \<Longrightarrow> pledged budget k st'"
  unfolding pledged_def using grows_offered prefix_length_le unfolding grows_def by (metis order_le_less_trans)

text \<open>A statement that only lets time pass, or others act, keeps all of it.\<close>

lemma ledger_grows:
  assumes "ledger aops bops g0 budget n m st" and "simulates aops bops g0 budget st'" and "grows st st'"
    and "rows st' = rows st" and "made st' = made st" and "a_epoch st' = a_epoch st"
  shows "ledger aops bops g0 budget n m st'"
  using assms grows_offers [OF assms(3)] unfolding ledger_def counts_def by auto

named_theorems tranquil \<open>statements that keep the ledger and what is pledged\<close>

abbreviation holds where
  "holds aops bops g0 budget n m k st \<equiv> ledger aops bops g0 budget n m st \<and> pledged budget k st"

lemma ledger_world [simp]:
  "ledger aops bops g0 budget n m (st\<lparr>world := v\<rparr>) = ledger aops bops g0 budget n m st"
  "pledged budget k (st\<lparr>world := v\<rparr>) = pledged budget k st"
  "ledger aops bops g0 budget n m (st\<lparr>last_ready_seen := c, a_cycle := d\<rparr>) = ledger aops bops g0 budget n m st"
  by (simp_all add: ledger_def counts_def offers_def offered_def pledged_def)

lemma ledger_row [simp]:
  "event line \<notin> send_events \<Longrightarrow> ledger aops bops g0 budget n m (st\<lparr>rows := rows st @ [line]\<rparr>) = ledger aops bops g0 budget n m st"
  "pledged budget k (st\<lparr>rows := ls\<rparr>) = pledged budget k st"
  by (auto simp: ledger_def counts_def offers_def offered_def pledged_def)

lemma ledger_ask [tranquil]:
  "keeps (ledger aops bops g0 budget n m) (ask f)" "keeps (holds aops bops g0 budget n m k) (ask f)"
  by (rule keeps_ask; simp)+

lemma ledger_elapsed [tranquil]:
  "keeps (ledger aops bops g0 budget n m) (elapsed env t)" "keeps (holds aops bops g0 budget n m k) (elapsed env t)"
  unfolding elapsed_def by (intro keeping tranquil)+

lemma ledger_telemetry [tranquil]:
  "ev \<notin> send_events \<Longrightarrow> keeps (ledger aops bops g0 budget n m) (write_telemetry env ev ep b lat)"
  "ev \<notin> send_events \<Longrightarrow> keeps (holds aops bops g0 budget n m k) (write_telemetry env ev ep b lat)"
  unfolding write_telemetry_def Let_def
  by (intro keeping tranquil keeps_set_state; simp)+

lemma ledger_others: "ledger aops bops g0 budget n m st \<Longrightarrow> ledger aops bops g0 budget n m (fold (other_step bops) acts st)"
  by (rule ledger_grows) (auto simp: ledger_def intro: others_simulate grows_others)

lemma ledger_lock:
  "triple (ledger aops bops g0 budget n m) (lock_log env bops)
     (\<lambda>l st. ledger aops bops g0 budget n m st \<and> guarded (alice_group st) = l) (\<lambda>_. ledger aops bops g0 budget n m)"
  unfolding triple_def lock_log_def run_simps
  by (auto split: prod.splits option.splits dest!: mutex_lock_Some intro!: ledger_others)

lemma ledger_lock_keeps: "keeps (ledger aops bops g0 budget n m) (lock_log env bops)"
  unfolding keeps_triple by (rule triple_conseq [OF ledger_lock]) auto

lemma ledger_window:
  "triple (ledger aops bops g0 budget n m) (lock_window_bytes env bops)
     (\<lambda>w st. ledger aops bops g0 budget n m st \<and> window_bytes (guarded (alice_group st)) = w)
     (\<lambda>_. ledger aops bops g0 budget n m)"
  unfolding lock_window_bytes_def
  by (rule triple_and_then [OF ledger_lock triple_pure]) simp

subsection \<open>Sending\<close>

text \<open>The window just read, when the counter agrees with the log, ends with the epoch of the counter.\<close>

lemma window_covers:
  assumes "apply_atomic bops" and "simulates aops bops g0 budget st" and "length (made st) < 2 ^ 64"
  shows "covers (made st) (checkpoint (guarded (alice_group st))) (word_of_nat (length (made st)))
    (window_bytes (guarded (alice_group st)))"
proof -
  from assms(2,3) have "reach sync_init (sync_step aops bops budget) (protocol_state g0 st)" by (simp add: simulates_def)
  note inv = reach_sync_inv [OF this assms(1)]
  let ?l = "guarded (alice_group st)"
  have len: "length (made st) = unat (current_epoch ?l)" using sync_invD(2) [OF inv] by (simp add: protocol_state_def)
  then have k: "word_of_nat (length (made st)) = current_epoch ?l" by simp
  from sync_invD(1) [OF inv] have log: "commit_log_inv ?l" by (simp add: protocol_state_def)
  have "map snd (window_bytes ?l) = drop (unat (checkpoint ?l)) (made st)"
    using sync_invD(3) [OF inv] by (simp add: protocol_state_def)
  with log_source.chk_le [OF log] log_source.win_epochs [OF log] len show ?thesis
    unfolding covers_def k by simp
qed

lemma ledger_send:
  assumes "apply_atomic bops"
  shows "triple (\<lambda>st. ledger aops bops g0 budget n n st \<and> window_bytes (guarded (alice_group st)) = w)
    (alice_send_preamble env addr w budget)
    (\<lambda>r st. ledger aops bops g0 budget n n st \<and> (\<forall>x. r = Inr x \<longrightarrow> pledged budget (word_of_nat n) st))
    (\<lambda>_. ledger aops bops g0 budget n n)"
proof -
  have "ledger aops bops g0 budget n n st' \<and> (\<forall>x. r = Inr (Inr x) \<longrightarrow> pledged budget (word_of_nat n) st')"
    if led: "ledger aops bops g0 budget n n st" and w: "window_bytes (guarded (alice_group st)) = w"
      and run: "alice_send_preamble env addr w budget st = (r, st')" for st r st'
  proof -
    note g = send_grows [OF run]
    have "simulates aops bops g0 budget st'"
      using alice_send_preamble_triple [of aops bops g0 budget w env addr] led w run
      unfolding triple_def ledger_def by (cases r) fastforce+
    with led g have "ledger aops bops g0 budget n n st'" by (intro ledger_grows [OF led]) auto
    moreover have "pledged budget (word_of_nat n) st'" if r: "r = Inr (Inr x)" for x
      unfolding pledged_def
    proof
      assume len: "length (made st') < 2 ^ 64"
      have n: "length (made st) = n" using led by (simp add: ledger_def counts_def)
      from led have "simulates aops bops g0 budget st" by (simp add: ledger_def)
      from window_covers [OF assms this] g len w n
      have "covers (made st') (checkpoint (guarded (alice_group st'))) (word_of_nat n) w" by simp
      moreover have "wire st' = wire st @ preamble_datagrams w budget @ []" using g r by simp
      ultimately show "offered budget (word_of_nat n) st'" unfolding offered_def by blast
    qed
    ultimately show ?thesis by blast
  qed
  then show ?thesis unfolding triple_def by (fastforce split: prod.splits sum.splits)
qed

text \<open>The row of a preamble that is on the wire.\<close>

lemma ledger_send_row:
  "triple (\<lambda>st. holds aops bops g0 budget n n (word_of_nat n) st \<and> ep = word_of_nat n) (write_telemetry env ev ep b lat)
     (\<lambda>_. ledger aops bops g0 budget n n) (\<lambda>_. ledger aops bops g0 budget n n)"
proof (rule triple_given)
  assume ep: "ep = word_of_nat n"
  have quiet: "triple (holds aops bops g0 budget n n (word_of_nat n)) (ask f) (\<lambda>_. holds aops bops g0 budget n n (word_of_nat n))
      (\<lambda>_. ledger aops bops g0 budget n n)" for f
    by (rule triple_conseq [OF ledger_ask(2) [unfolded keeps_triple]]) auto
  show "triple (holds aops bops g0 budget n n (word_of_nat n)) (write_telemetry env ev ep b lat)
     (\<lambda>_. ledger aops bops g0 budget n n) (\<lambda>_. ledger aops bops g0 budget n n)"
    unfolding write_telemetry_def Let_def ep
    by (intro triple_and_then [OF quiet] triple_and_then [OF triple_question] triple_set_state)
      (auto simp: ledger_def counts_def offers_def offered_def pledged_def)
qed

text \<open>What comes between reading the window and its row.\<close>

lemma ledger_stops:
  "triple P p Q (\<lambda>_. ledger aops bops g0 budget n m) \<Longrightarrow> (\<And>st. ledger aops bops g0 budget n m st \<Longrightarrow> S st) \<Longrightarrow> triple P p Q (\<lambda>_. S)"
  by (erule triple_conseq) auto

lemma ledger_between:
  "triple (\<lambda>st. ledger aops bops g0 budget n n st \<and> window_bytes (guarded (alice_group st)) = w) (ask f)
     (\<lambda>_ st. ledger aops bops g0 budget n n st \<and> window_bytes (guarded (alice_group st)) = w) (\<lambda>_. ledger aops bops g0 budget n n)"
  "triple (\<lambda>st. ledger aops bops g0 budget n n st \<and> (\<forall>x. r = Inr x \<longrightarrow> pledged budget (word_of_nat n) st)) (question r)
     (\<lambda>_. holds aops bops g0 budget n n (word_of_nat n)) (\<lambda>_. ledger aops bops g0 budget n n)"
  "triple (holds aops bops g0 budget n n (word_of_nat n)) (get_state a_epoch)
     (\<lambda>ep st. holds aops bops g0 budget n n (word_of_nat n) st \<and> ep = word_of_nat n) (\<lambda>_. ledger aops bops g0 budget n n)"
  "keeps (holds aops bops g0 budget n n k) p \<Longrightarrow>
     triple (holds aops bops g0 budget n n k) p (\<lambda>_. holds aops bops g0 budget n n k) (\<lambda>_. ledger aops bops g0 budget n n)"
proof -
  show "triple (\<lambda>st. ledger aops bops g0 budget n n st \<and> window_bytes (guarded (alice_group st)) = w) (ask f)
     (\<lambda>_ st. ledger aops bops g0 budget n n st \<and> window_bytes (guarded (alice_group st)) = w) (\<lambda>_. ledger aops bops g0 budget n n)"
    by (simp add: triple_def run_simps split: prod.split)
  show "triple (\<lambda>st. ledger aops bops g0 budget n n st \<and> (\<forall>x. r = Inr x \<longrightarrow> pledged budget (word_of_nat n) st)) (question r)
     (\<lambda>_. holds aops bops g0 budget n n (word_of_nat n)) (\<lambda>_. ledger aops bops g0 budget n n)"
    by (rule triple_question) auto
  show "triple (holds aops bops g0 budget n n (word_of_nat n)) (get_state a_epoch)
     (\<lambda>ep st. holds aops bops g0 budget n n (word_of_nat n) st \<and> ep = word_of_nat n) (\<lambda>_. ledger aops bops g0 budget n n)"
    by (rule triple_get_state) (simp add: ledger_def counts_def)
  show "keeps (holds aops bops g0 budget n n k) p \<Longrightarrow>
     triple (holds aops bops g0 budget n n k) p (\<lambda>_. holds aops bops g0 budget n n k) (\<lambda>_. ledger aops bops g0 budget n n)"
    unfolding keeps_triple by (erule triple_conseq) auto
qed

lemma ledger_embed:
  assumes "apply_atomic bops"
  shows "triple (ledger aops bops g0 (transcript_max_bytes args) n n) (embed_transcript env bops args addr)
    (\<lambda>_. ledger aops bops g0 (transcript_max_bytes args) n n) (\<lambda>_. ledger aops bops g0 (transcript_max_bytes args) n n)"
  unfolding embed_transcript_def
  by (rule triple_and_then [OF ledger_window], rule triple_and_then [OF ledger_between(1)],
      rule triple_and_then [OF ledger_send [OF assms]], rule triple_and_then [OF ledger_between(2)],
      rule triple_and_then [OF ledger_between(4) [OF ledger_elapsed(2)]],
      rule triple_and_then [OF ledger_between(3)], rule ledger_send_row)

subsection \<open>Commits\<close>

definition some_ledger ::
    "('g, 'x) ExportSecret \<Rightarrow> ('b, 'f) ExportSecret \<Rightarrow> 'b \<Rightarrow> nat \<Rightarrow> ('w, 'g, 'b) alice_run \<Rightarrow> bool" where
  "some_ledger aops bops g0 budget st \<longleftrightarrow> (\<exists>n m. ledger aops bops g0 budget n m st)"

lemma some_ledgerI: "ledger aops bops g0 budget n m st \<Longrightarrow> some_ledger aops bops g0 budget st"
  unfolding some_ledger_def by blast

lemma create_checkpoint: "commit_log_create_commit ops l = Ret (r, l') \<Longrightarrow> checkpoint l' = checkpoint l"
  by (auto simp: commit_log_create_commit_def Let_def split: bind_splits sum.splits)

lemma ledger_create:
  assumes "apply_atomic bops"
  shows "triple (ledger aops bops g0 budget n m) (unwrap_create_commit env aops bops)
    (\<lambda>_. ledger aops bops g0 budget (Suc n) m) (\<lambda>_. some_ledger aops bops g0 budget)"
proof -
  let ?books = "\<lambda>n st. counts n m st \<and> offers budget st"
  have "triple (?books n) (unwrap_create_commit env aops bops) (\<lambda>_. ?books (Suc n)) (\<lambda>_ st. \<exists>n. ?books n st)"
  proof (rule triple_unwrap_create_commit)
    show "?books n st \<Longrightarrow> ?books n (fold (other_step bops) acts st)" for acts st
      using others_frame [of bops acts st] by (auto simp: counts_def intro: grows_offers [OF grows_others])
  qed (auto simp: counts_def grows_def create_checkpoint intro: grows_offers)
  from triple_both [OF keeps_unwrap_create_commit [OF assms, unfolded keeps_triple] this]
  show ?thesis by (rule triple_conseq) (auto simp: ledger_def some_ledger_def)
qed

lemma ledger_count:
  "triple (ledger aops bops g0 budget n m) (set_state (\<lambda>st. st\<lparr>a_epoch := a_epoch st + 1\<rparr>))
     (\<lambda>_. ledger aops bops g0 budget n (Suc m)) R"
  by (rule triple_set_state) (simp add: ledger_def counts_def offers_def offered_def)

lemma ledger_quiet:
  "keeps (ledger aops bops g0 budget n m) p \<Longrightarrow>
     triple (ledger aops bops g0 budget n m) p (\<lambda>_. ledger aops bops g0 budget n m) (\<lambda>_. some_ledger aops bops g0 budget)"
  unfolding keeps_triple by (erule triple_conseq) (auto intro: some_ledgerI)

lemma ledger_send_block:
  assumes "apply_atomic bops"
  shows "triple (ledger aops bops g0 (transcript_max_bytes args) n n)
    (and_then (ask (now env)) (\<lambda>t2.
     and_then (lock_window_bytes env bops) (\<lambda>window.
     and_then (alice_send_preamble env addr window (transcript_max_bytes args)) (\<lambda>r.
     and_then (question r) (\<lambda>sent.
     and_then (ask (force_key_update env)) (\<lambda>_.
     and_then (elapsed env t2) (\<lambda>net_ms.
     and_then (get_state a_epoch) (\<lambda>ep.
     and_then (write_telemetry env ''commit_cpu'' ep 0 cpu_ms) (\<lambda>_.
     write_telemetry env ''commit_net'' ep sent net_ms)))))))))
    (\<lambda>_. ledger aops bops g0 (transcript_max_bytes args) n n) (\<lambda>_. ledger aops bops g0 (transcript_max_bytes args) n n)"
proof -
  let ?h = "holds aops bops g0 (transcript_max_bytes args) n n (word_of_nat n)"
  have cpu: "triple (\<lambda>st. ?h st \<and> ep = word_of_nat n) (write_telemetry env ''commit_cpu'' ep 0 cpu_ms)
      (\<lambda>_ st. ?h st \<and> ep = word_of_nat n) (\<lambda>_. ledger aops bops g0 (transcript_max_bytes args) n n)" for ep
    by (rule triple_given, rule triple_conseq [OF ledger_between(4) [OF ledger_telemetry(2)]]) (auto simp: send_events_def)
  show ?thesis
    by (rule triple_and_then [OF ledger_ask(1) [unfolded keeps_triple]], rule triple_and_then [OF ledger_window],
        rule triple_and_then [OF ledger_send [OF assms]], rule triple_and_then [OF ledger_between(2)],
        rule triple_and_then [OF ledger_between(4) [OF ledger_ask(2)]],
        rule triple_and_then [OF ledger_between(4) [OF ledger_elapsed(2)]],
        rule triple_and_then [OF ledger_between(3)], rule triple_and_then [OF cpu], rule ledger_send_row)
qed

lemma ledger_online:
  assumes "apply_atomic bops"
  shows "triple (ledger aops bops g0 (transcript_max_bytes args) n n) (online_commit env aops bops args addr)
    (\<lambda>_. ledger aops bops g0 (transcript_max_bytes args) (Suc n) (Suc n)) (\<lambda>_. some_ledger aops bops g0 (transcript_max_bytes args))"
  unfolding online_commit_def
  by (rule triple_and_then [OF ledger_quiet [OF ledger_ask(1)]], rule triple_and_then [OF ledger_create [OF assms]],
      rule triple_and_then [OF ledger_quiet [OF ledger_elapsed(1)]], rule triple_and_then [OF ledger_count],
      rule ledger_stops [OF ledger_send_block [OF assms] some_ledgerI])

lemma ledger_offline:
  assumes "apply_atomic bops"
  shows "triple (ledger aops bops g0 budget n n) (offline_commit env aops bops)
    (\<lambda>_. ledger aops bops g0 budget (Suc n) (Suc n)) (\<lambda>_. some_ledger aops bops g0 budget)"
  unfolding offline_commit_def
  by (rule triple_and_then [OF ledger_create [OF assms]], rule triple_and_then [OF ledger_count],
      rule triple_and_then [OF ledger_quiet [OF keeps_basic(3)]], rule ledger_quiet [OF ledger_telemetry(1)])
    (simp add: send_events_def)

text \<open>The ledger is an invariant of the sender.\<close>

definition balanced ::
    "('g, 'x) ExportSecret \<Rightarrow> ('b, 'f) ExportSecret \<Rightarrow> 'b \<Rightarrow> nat \<Rightarrow> ('w, 'g, 'b) alice_run \<Rightarrow> bool" where
  "balanced aops bops g0 budget st \<longleftrightarrow> (apply_atomic bops \<longrightarrow> (\<exists>n. ledger aops bops g0 budget n n st))"

definition accounted ::
    "('g, 'x) ExportSecret \<Rightarrow> ('b, 'f) ExportSecret \<Rightarrow> 'b \<Rightarrow> nat \<Rightarrow> ('w, 'g, 'b) alice_run \<Rightarrow> bool" where
  "accounted aops bops g0 budget st \<longleftrightarrow> (apply_atomic bops \<longrightarrow> some_ledger aops bops g0 budget st)"

lemma balanced_keeps:
  assumes "\<And>n. apply_atomic bops \<Longrightarrow> keeps (ledger aops bops g0 budget n n) p"
  shows "keeps (balanced aops bops g0 budget) p"
  using assms unfolding keeps_def balanced_def by blast

lemma balanced_commit:
  assumes "\<And>n. apply_atomic bops \<Longrightarrow> triple (ledger aops bops g0 budget n n) p
    (\<lambda>_. ledger aops bops g0 budget (Suc n) (Suc n)) (\<lambda>_. some_ledger aops bops g0 budget)"
  shows "upholds (balanced aops bops g0 budget) (accounted aops bops g0 budget) p"
proof (cases "apply_atomic bops")
  case True
  have "triple (\<lambda>st. \<exists>n. ledger aops bops g0 budget n n st) p (\<lambda>_ st. \<exists>n. ledger aops bops g0 budget n n st)
      (\<lambda>_. some_ledger aops bops g0 budget)"
    by (intro triple_ex triple_conseq [OF assms [OF True]]) auto
  with True show ?thesis unfolding upholds_def balanced_def [abs_def] accounted_def [abs_def] by simp
next
  case False
  then show ?thesis by (simp add: upholds_def balanced_def [abs_def] accounted_def [abs_def] triple_any)
qed

interpretation delivery: alice_invariant env aops bops args
  "balanced aops bops g0 (transcript_max_bytes args)" "accounted aops bops g0 (transcript_max_bytes args)"
  for env aops bops g0 args
proof (unfold_locales, goal_cases)
  case (6 addr)
  show ?case by (rule balanced_keeps) (simp add: keeps_triple ledger_embed)
next
  case 5
  show ?case by (rule balanced_keeps) (rule ledger_lock_keeps)
next
  case 7
  show ?case by (rule balanced_commit) (rule ledger_online)
next
  case 8
  show ?case by (rule balanced_commit) (rule ledger_offline)
qed (auto simp: balanced_def accounted_def intro: some_ledgerI)

lemma alice_start_balanced: "balanced aops bops g0 budget (alice_start w g g0)"
  unfolding balanced_def ledger_def
  by (intro impI exI [of _ 0] conjI alice_start_simulates) (simp_all add: counts_def offers_def alice_start_def)

lemma run_alice_accounted:
  assumes "run_alice fuel env aops bops no_peer args (alice_start w g g0) = (r, st)"
  shows "accounted aops bops g0 (transcript_max_bytes args) st"
proof (cases r)
  case (Inl e)
  from upholdsE [OF delivery.sender alice_start_balanced assms [unfolded Inl]] show ?thesis .
next
  case (Inr u)
  from upholdsD [OF delivery.sender alice_start_balanced assms [unfolded Inr]] show ?thesis
    unfolding balanced_def accounted_def by (blast intro: some_ledgerI)
qed

lemma run_alice_offered:
  assumes "apply_atomic bops" and "run_alice fuel env aops bops no_peer args (alice_start w g g0) = (r, st)"
    and "length (made st) < 2 ^ 64" and "line \<in> set (rows st)" and "event line \<in> send_events"
  shows "offered (transcript_max_bytes args) (row_epoch line) st"
  using run_alice_accounted [OF assms(2)] assms(1,3-)
  unfolding accounted_def some_ledger_def ledger_def offers_def by blast

text \<open>
  C8: What the sender's telemetry claims was sent was sent. In every run of \<open>run_alice\<close>, wherever it stops,
  each row of a preamble (\<open>commit_net\<close> after a commit, \<open>handshake_transcript_embedded\<close> before a connection)
  has all its datagrams on the wire, side by side and in order: they are the packing of a window of
  her commits that ends with the epoch in the row and begins right after an epoch that the receiver had
  reported.
\<close>

theorem run_alice_offers:
  assumes "apply_atomic bops" and "run_alice fuel env aops bops no_peer args (alice_start w g g0) = (r, st)"
    and "length (made st) < 2 ^ 64" and "line \<in> set (rows st)"
    and "event line \<in> {''commit_net'', ''handshake_transcript_embedded''}"
  shows "\<exists>c window before after.
      wire st = before @ preamble_datagrams window (transcript_max_bytes args) @ after
    \<and> c \<le> row_epoch line \<and> c \<le> checkpoint (guarded (alice_group st)) \<and> unat (row_epoch line) \<le> length (made st)
    \<and> map fst window = epochs c (row_epoch line)
    \<and> map snd window = take (unat (row_epoch line) - unat c) (drop (unat c) (made st))"
  using run_alice_offered [OF assms(1-4)] assms(5) unfolding offered_def covers_def send_events_def by metis

lemma sample_alice_row:
  "\<exists>line \<in> set (rows (snd sample_alice_run)). event line = ''commit_net'' \<and> row_epoch line = 1"
  "checkpoint (guarded (alice_group (snd sample_alice_run))) = 0"
  by (simp_all add: sample_alice_run_def run_alice_def sample_args_def alice_start_def commit_log_new_def btree_new_def bob_new_def run_simps sample_alice_env_def duration_add_def duration_MAX_def from_secs_def mutex_new_def)
    (simp_all add: alice_defs run_simps instant_add_def instant_END_def sample_ready [simplified] Let_def sample_log_simps(2-) sample_send)

lemma run_alice_offers_witness:
  "\<exists>before after. [sample_datagram] = before @ preamble_datagrams [(1, [1])] 1000 @ after"
proof -
  from sample_alice_row(1) obtain line where line: "line \<in> set (rows (snd sample_alice_run))"
    "event line = ''commit_net''" "row_epoch line = 1" by blast
  have "length (made (snd sample_alice_run)) < 2 ^ 64" by (simp add: sample_alice_sends)
  from run_alice_offers [OF sample_atomic sample_alice_eq this line(1)] line(2,3) sample_alice_row(2)
  obtain window before after where w: "[sample_datagram] = before @ preamble_datagrams window 1000 @ after"
    "map fst window = epochs 0 1" "map snd window = [[1]]"
    by (auto simp: sample_alice_sends sample_args_def)
  from w(2,3) have "window = [(1, [1])]" by (auto simp: epochs_Cons map_eq_Cons_conv)
  with w(1) show ?thesis by blast
qed

end
