(* ===== verification/Alice_Agrees.thy ===== *)
theory Alice_Agrees
  imports Alice_Refines Keys
begin

text \<open>
  The sender's commits are accepted by every member that was in her epoch when she started, and take it
  to hers. What MLS promises of two members is \<open>mls_members\<close>: \<open>same g b\<close> says that \<open>g\<close> and \<open>b\<close> are states
  of members of one group in one epoch. This is the fourth interpretation of \<open>alice_invariant\<close>.
\<close>

definition mls_members :: "('g, 'x) ExportSecret \<Rightarrow> ('b, 'f) ExportSecret \<Rightarrow> ('g \<Rightarrow> 'b \<Rightarrow> bool) \<Rightarrow> bool" where
  "mls_members aops bops same \<longleftrightarrow> (\<forall>g b. same g b \<longrightarrow>
     (\<forall>label ctx n s. export_secret aops g label ctx n = Ret (Inr s) \<longrightarrow> export_secret bops b label ctx n = Ret (Inr s))
   \<and> (\<forall>c g'. create_commit aops g = Ret (Inr c, g') \<longrightarrow> (\<exists>b'. apply_commit bops b c = Ret (Inr (), b') \<and> same g' b')))"

lemma members_export:
  "mls_members aops bops same \<Longrightarrow> same g b \<Longrightarrow> export_secret aops g label ctx n = Ret (Inr s) \<Longrightarrow>
     export_secret bops b label ctx n = Ret (Inr s)"
  unfolding mls_members_def by blast

lemma members_commit:
  assumes "mls_members aops bops same" and "same g b" and "create_commit aops g = Ret (Inr c, g')"
  obtains b' where "apply_commit bops b c = Ret (Inr (), b')" and "same g' b'"
  using assms unfolding mls_members_def by blast

text \<open>Two members in one epoch derive the same keys, with local and remote exchanged.\<close>

lemma members_derive:
  assumes "mls_members aops bops same" and "same g b" and "derive_mls_keys lib aops g level Client ctx = Ret (Inr ks)"
  shows "derive_mls_keys lib bops b level Server ctx = Ret (Inr (swap_keys ks))"
proof -
  from assms(3) have "derive_mls_keys lib bops b level Client ctx = Ret (Inr ks)"
    by (auto simp: derive_mls_keys_def members_export [OF assms(1,2)] split: bind_splits sum.splits)
  then show ?thesis by (simp add: derive_mls_keys_server)
qed

subsection \<open>The members' view of the sender\<close>

text \<open>
  All her commits can be applied to the group Bob started from, and the result is a member in the epoch of
  her group; a lock that a failed commit has poisoned is never opened again.
\<close>

definition agreed ::
    "('b, 'f) ExportSecret \<Rightarrow> ('g \<Rightarrow> 'b \<Rightarrow> bool) \<Rightarrow> 'b \<Rightarrow> ('w, 'g, 'b) alice_run \<Rightarrow> bool" where
  "agreed bops same g0 st \<longleftrightarrow> (\<exists>b. apply_commits bops g0 (made st) = Ret (Inr (), b, length (made st))
     \<and> (\<not> poisoned (alice_group st) \<longrightarrow> same (inner (guarded (alice_group st))) b))"

lemma agreed_frame [simp]:
  "agreed bops same g0 (st\<lparr>world := w\<rparr>) = agreed bops same g0 st"
  "agreed bops same g0 (st\<lparr>last_ready_seen := c, a_cycle := k\<rparr>) = agreed bops same g0 st"
  "agreed bops same g0 (st\<lparr>rows := ls\<rparr>) = agreed bops same g0 st"
  "agreed bops same g0 (st\<lparr>a_epoch := ep\<rparr>) = agreed bops same g0 st"
  by (simp_all add: agreed_def)

lemma agreed_other_step: "agreed bops same g0 st \<Longrightarrow> agreed bops same g0 (other_step bops' a st)"
  by (auto simp: agreed_def other_step_def mutex_lock_def split: other.split option.split)

lemma agreed_others: "agreed bops same g0 st \<Longrightarrow> agreed bops same g0 (fold (other_step bops') acts st)"
  by (induction acts arbitrary: st) (simp_all add: agreed_other_step)

named_theorems agreeing \<open>statements that keep what the members see\<close>

lemma agreed_basic [agreeing]:
  "keeps (agreed bops same g0) (ask f)" "keeps (agreed bops same g0) (get_state h)"
  "keeps (agreed bops same g0) (alice_send_preamble env addr w budget)"
proof -
  show "keeps (agreed bops same g0) (ask f)" by (rule keeps_ask) simp
  show "keeps (agreed bops same g0) (get_state h)" by (rule keeping)
  show "keeps (agreed bops same g0) (alice_send_preamble env addr w budget)"
    by (auto simp: keeps_def alice_send_preamble_def Let_def agreed_def split: prod.split)
qed

lemma agreed_statements [agreeing]:
  "keeps (agreed bops same g0) (elapsed env t)" "keeps (agreed bops same g0) (lock_log env bops')"
  "keeps (agreed bops same g0) (write_telemetry rt ev ep n lat)"
  "keeps (agreed bops same g0) (set_state (\<lambda>st. st\<lparr>a_epoch := a_epoch st + 1\<rparr>))"
proof -
  show "keeps (agreed bops same g0) (elapsed env t)" unfolding elapsed_def by (intro keeping agreeing)
  show "keeps (agreed bops same g0) (lock_log env bops')"
    unfolding lock_log_def by (intro keeping agreeing keeps_set_state agreed_others; assumption)
  show "keeps (agreed bops same g0) (write_telemetry rt ev ep n lat)"
    unfolding write_telemetry_def Let_def by (intro keeping agreeing keeps_set_state) simp
  show "keeps (agreed bops same g0) (set_state (\<lambda>st. st\<lparr>a_epoch := a_epoch st + 1\<rparr>))"
    by (rule keeps_set_state) simp
qed

lemma agreed_embed: "keeps (agreed bops same g0) (embed_transcript env bops' args addr)"
  unfolding embed_transcript_def lock_window_bytes_def by (intro keeping agreeing)

text \<open>A commit takes the sender and the member that applies it to one epoch.\<close>

lemma apply_commits_snoc:
  assumes "apply_commits ops g h = Ret (Inr (), g', length h)" and "apply_commit ops g' c = Ret (Inr (), g'')"
  shows "apply_commits ops g (h @ [c]) = Ret (Inr (), g'', length (h @ [c]))"
  using apply_commits_append [OF assms(1), of "[c]"] assms(2) by simp

lemma log_create_inner:
  "commit_log_create_commit ops l = Ret (Inr c, l') \<Longrightarrow> create_commit ops (inner l) = Ret (Inr c, inner l')"
  by (auto simp: commit_log_create_commit_def Let_def split: bind_splits sum.splits)

lemma agreed_step:
  assumes "mls_members aops bops same" and "agreed bops same g0 st" and "\<not> poisoned (alice_group st)"
    and "commit_log_create_commit aops (guarded (alice_group st)) = Ret (Inr c, l')"
  shows "agreed bops same g0 (st\<lparr>alice_group := (alice_group st)\<lparr>guarded := l'\<rparr>, made := made st @ [c]\<rparr>)"
proof -
  from assms(2,3) obtain b where b: "apply_commits bops g0 (made st) = Ret (Inr (), b, length (made st))"
    "same (inner (guarded (alice_group st))) b" unfolding agreed_def by blast
  from members_commit [OF assms(1) b(2) log_create_inner [OF assms(4)]] obtain b' where
    "apply_commit bops b c = Ret (Inr (), b')" "same (inner l') b'" .
  with apply_commits_snoc [OF b(1)] show ?thesis unfolding agreed_def by auto
qed

lemma agreed_create:
  assumes "mls_members aops bops same"
  shows "keeps (agreed bops same g0) (unwrap_create_commit env aops bops')"
  unfolding keeps_triple
  by (rule triple_unwrap_create_commit) (auto intro: agreed_others agreed_step [OF assms], auto simp: agreed_def)

lemma agreed_commits:
  assumes "mls_members aops bops same"
  shows "keeps (agreed bops same g0) (online_commit env aops bops' args addr)"
    and "keeps (agreed bops same g0) (offline_commit env aops bops')"
  unfolding online_commit_def offline_commit_def lock_window_bytes_def
  by (intro keeping agreeing agreed_create [OF assms])+

abbreviation keeps_agreement where
  "keeps_agreement aops bops same g0 st \<equiv> mls_members aops bops same \<longrightarrow> agreed bops same g0 st"

interpretation agreement: alice_invariant env aops bops args
  "keeps_agreement aops bops same g0" "keeps_agreement aops bops same g0" for env aops bops same g0 args
proof (cases "mls_members aops bops same")
  case True
  then show "alice_invariant env aops bops args (keeps_agreement aops bops same g0) (keeps_agreement aops bops same g0)"
    by (unfold_locales; (simp only: simp_thms True)?)
      (simp_all add: agreeing agreed_embed agreed_commits [OF True] flip: keeps_upholds)
next
  case False
  then show "alice_invariant env aops bops args (keeps_agreement aops bops same g0) (keeps_agreement aops bops same g0)"
    by unfold_locales (simp_all add: keeps_def upholds_def triple_any)
qed

lemma run_alice_agreed:
  assumes "mls_members aops bops same" and "same g g0"
    and "run_alice fuel env aops bops no_peer args (alice_start w g g0) = (r, st)"
  shows "agreed bops same g0 st"
proof -
  have "agreed bops same g0 (alice_start w g g0)"
    using assms(2) by (simp add: agreed_def alice_start_def mutex_new_def commit_log_new_def)
  with upholdsE [OF agreement.sender, of aops bops same g0 "alice_start w g g0" fuel env no_peer args _ st]
    upholdsD [OF agreement.sender, of aops bops same g0 "alice_start w g g0" fuel env no_peer args _ st] assms(1,3)
  show ?thesis by (cases r) auto
qed

end
