(* ===== verification/Runner_Bob.thy ===== *)
theory Runner_Bob
  imports Runtime Sync Config
begin

text \<open>
  The receiver of the testbed (\<open>run_bob\<close> in \<open>testbed-runner/src/main.rs\<close>): per cycle a new single-use
  server configuration, the ready file for the peer, one accepted connection, and the telemetry of its
  handshake. The commit sink runs in the driver task of the endpoint and shares the group and the
  epoch with this function only through their mutexes, so it is enough to let the preambles that have
  arrived meanwhile be handled before a lock, and while the connection is open. The first
  group is that of the bootstrap, which has its own theory; what quinn does with a connection is its sequence of results. While
  the connection is open the report task reads the epoch of the sink's channel from time to time and
  sends it (\<open>run_report_sender\<close>, in \<open>Control\<close>); what it reads is kept, and so are the preambles the
  sink handled.

  Shown are that no cycle ever starts a session on a configuration that was used before, that the
  ready file names the current cycle, and that the epochs in the telemetry never go back.
\<close>

definition single_use_message :: string where
  "single_use_message = ''MlsServerConfig is single-use: start_session called more than once''"

datatype activity = Arrival bytes | Observe

record ('w, 'e, 'tp) bob_env = "('w, 'e) runtime" +
  arrivals :: "'w \<Rightarrow> bytes list \<times> 'w"
  write_ready :: "string \<Rightarrow> 'w \<Rightarrow> bool \<times> 'w"
  accept_connection :: "'w \<Rightarrow> bool option \<times> 'w"
  accept_incoming :: "'w \<Rightarrow> ('e + 'tp) \<times> 'w"
  early_keys :: "'w \<Rightarrow> bool \<times> 'w"
  accept_stream :: "'w \<Rightarrow> bool option option \<times> 'w"
  zero_rtt_done :: "'w \<Rightarrow> unit option \<times> 'w"
  close_stale :: "'w \<Rightarrow> unit \<times> 'w"
  while_open :: "'w \<Rightarrow> activity list \<times> 'w"
  conn_closed :: "'w \<Rightarrow> unit option \<times> 'w"

record ('w, 'b, 'tp) bob_run = "'w runner" +
  shared :: "'b Bob"
  b_cycle :: u64
  ready_file :: "string option"
  server_config :: "unit MlsServerConfig"
  sessions :: "(unit, 'tp) MlsSession list"
  observed :: "u64 list"
  handled :: "bytes list"

type_synonym ('w, 'b, 'tp, 'e, 'x) bob_program = "(('w, 'b, 'tp) bob_run, 'e, 'x) program"

text \<open>
  The socket hands the preambles that arrived to the sink; a panic of the library in the sink happens
  with both locks held and poisons them.
\<close>

definition handle_arrival :: "('b, 'f) ExportSecret \<Rightarrow> bytes \<Rightarrow> 'b Bob \<Rightarrow> 'b Bob" where
  "handle_arrival bops d b =
     (case bob_receive bops d b of
        Some b' \<Rightarrow> b'
      | None \<Rightarrow> b\<lparr>bob_group := (bob_group b)\<lparr>poisoned := True\<rparr>, local_epoch := (local_epoch b)\<lparr>poisoned := True\<rparr>\<rparr>)"

definition handle_arrivals ::
    "('w, 'e, 'tp) bob_env \<Rightarrow> ('b, 'f) ExportSecret \<Rightarrow> ('w, 'b, 'tp, 'e, unit) bob_program" where
  "handle_arrivals env bops =
     and_then (ask (arrivals env)) (\<lambda>ds.
     set_state (\<lambda>st. st\<lparr>shared := fold (handle_arrival bops) ds (shared st), handled := handled st @ ds\<rparr>))"

text \<open>\<open>*local_epoch.lock().unwrap()\<close>\<close>

definition lock_epoch ::
    "('w, 'e, 'tp) bob_env \<Rightarrow> ('b, 'f) ExportSecret \<Rightarrow> ('w, 'b, 'tp, 'e, u64) bob_program" where
  "lock_epoch env bops =
     and_then (handle_arrivals env bops) (\<lambda>_.
     and_then (get_state (\<lambda>st. local_epoch (shared st))) (\<lambda>m.
     expect ''called unwrap on a poisoned lock'' (mutex_lock m)))"

text \<open>\<open>make_server_config\<close>, over a handle of the shared group.\<close>

definition make_server_config ::
    "('w, 'e, 'tp) bob_env \<Rightarrow> duration \<Rightarrow> ('w, 'b, 'tp, 'e, unit MlsServerConfig) bob_program" where
  "make_server_config env idle =
     (let cfg = server_config_new ()
      in and_then (transport_config env idle) (\<lambda>_. pure cfg))"

text \<open>
  \<open>incoming.accept()?\<close>: quinn starts a session on the endpoint's current configuration, which stays
  with the endpoint.
\<close>

definition start_incoming ::
    "('w, 'e, 'tp) bob_env \<Rightarrow> ('v, 'tp, 'te) tp_lib \<Rightarrow> ('w, 'b, 'tp, 'e, unit) bob_program" where
  "start_incoming env tpl =
     and_then (ask (accept_incoming env)) (\<lambda>r.
     and_then (question r) (\<lambda>params.
     and_then (get_state server_config) (\<lambda>cfg.
     case server_start_session tpl cfg params of
       (None, cfg) \<Rightarrow>
         and_then (set_state (\<lambda>st. st\<lparr>server_config := cfg\<rparr>)) (\<lambda>_. halt (Panicked single_use_message))
     | (Some session, cfg) \<Rightarrow>
         set_state (\<lambda>st. st\<lparr>server_config := cfg, sessions := sessions st @ [session]\<rparr>))))"

text \<open>
  The report task is spawned, and the connection stays open until the peer closes it, if it ever does:
  meanwhile preambles arrive and the task observes the epoch of the channel, in any order.
\<close>

definition open_step :: "('b, 'f) ExportSecret \<Rightarrow> activity \<Rightarrow> ('w, 'b, 'tp) bob_run \<Rightarrow> ('w, 'b, 'tp) bob_run" where
  "open_step bops a st =
     (case a of
        Arrival d \<Rightarrow> st\<lparr>shared := handle_arrival bops d (shared st), handled := handled st @ [d]\<rparr>
      | Observe \<Rightarrow> st\<lparr>observed := observed st @ [epoch_tx (shared st)]\<rparr>)"

definition connection_open ::
    "('w, 'e, 'tp) bob_env \<Rightarrow> ('b, 'f) ExportSecret \<Rightarrow> ('w, 'b, 'tp, 'e, unit) bob_program" where
  "connection_open env bops =
     and_then (ask (while_open env)) (\<lambda>acts.
     and_then (set_state (fold (open_step bops) acts)) (\<lambda>_.
     await (conn_closed env)))"

text \<open>The part of a cycle after the control stream is there.\<close>

definition serve_connection ::
    "('w, 'e, 'tp) bob_env \<Rightarrow> ('b, 'f) ExportSecret \<Rightarrow> 'a Args \<Rightarrow> duration \<Rightarrow> bool
      \<Rightarrow> ('w, 'b, 'tp, 'e, unit control) bob_program" where
  "serve_connection env bops args t0 is_0rtt =
     and_then (elapsed env t0) (\<lambda>ms.
     and_then (write_telemetry env ''zero_rtt_available'' 0 0 ms) (\<lambda>_.
     and_then (write_telemetry env (if is_0rtt then ''control_stream_0rtt'' else ''control_stream_1rtt'') 0 0 0) (\<lambda>_.
     and_then (await (zero_rtt_done env)) (\<lambda>_.
     and_then (get_state b_cycle) (\<lambda>cycle.
     let ev = (if cycle = 1 then ''handshake_confirmed'' else ''reconnect_handshake_confirmed'') in
     and_then (lock_epoch env bops) (\<lambda>epoch_now.
     and_then (elapsed env t0) (\<lambda>ms.
     and_then (write_telemetry env ev epoch_now 0 ms) (\<lambda>_.
     and_then (connection_open env bops) (\<lambda>_.
     pure (if blackout_off args = 0 then Break () else Continue))))))))))"

definition bob_cycle ::
    "('w, 'e, 'tp) bob_env \<Rightarrow> ('b, 'f) ExportSecret \<Rightarrow> ('v, 'tp, 'te) tp_lib \<Rightarrow> 'a Args \<Rightarrow> duration \<Rightarrow> duration
      \<Rightarrow> ('w, 'b, 'tp, 'e, unit control) bob_program" where
  "bob_cycle env bops tpl args scenario_start idle =
     and_then (set_state (\<lambda>st. st\<lparr>b_cycle := b_cycle st + 1\<rparr>)) (\<lambda>_.
     and_then (get_state b_cycle) (\<lambda>cycle.
     and_then (if 1 < cycle
               then and_then (make_server_config env idle) (\<lambda>cfg. set_state (\<lambda>st. st\<lparr>server_config := cfg\<rparr>))
               else pure ()) (\<lambda>_.
     and_then (ask (write_ready env (decimal (unat cycle)))) (\<lambda>written.
     and_then (expect ''called unwrap on an error'' (if written then Some () else None)) (\<lambda>_.
     and_then (set_state (\<lambda>st. st\<lparr>ready_file := Some (decimal (unat cycle))\<rparr>)) (\<lambda>_.
     and_then (elapsed env scenario_start) (\<lambda>t.
     let remaining = duration args - t in
     and_then (ask (now env)) (\<lambda>t0.
     and_then (duration_add remaining (from_secs 30)) (\<lambda>limit.
     and_then (under_timeout (deadline_first env limit) (await (accept_connection env))) (\<lambda>incoming.
     if incoming \<noteq> Some True then pure (Break ())
     else
       and_then (start_incoming env tpl) (\<lambda>_.
       and_then (ask (early_keys env)) (\<lambda>ok.
       and_then (expect ''0-RTT keys not available'' (if ok then Some () else None)) (\<lambda>_.
       and_then (under_timeout (deadline_first env (report_timeout args)) (await (accept_stream env))) (\<lambda>stream.
       case stream of
         Some (Some is_0rtt) \<Rightarrow> serve_connection env bops args t0 is_0rtt
       | _ \<Rightarrow> and_then (ask (close_stale env)) (\<lambda>_. pure Continue)))))))))))))))"

text \<open>\<open>run_bob\<close> after the bootstrap; the bound limits the cycles.\<close>

definition run_bob ::
    "nat \<Rightarrow> ('w, 'e, 'tp) bob_env \<Rightarrow> ('b, 'f) ExportSecret \<Rightarrow> ('v, 'tp, 'te) tp_lib \<Rightarrow> 'a Args
      \<Rightarrow> ('w, 'b, 'tp, 'e, unit) bob_program" where
  "run_bob fuel env bops tpl args =
     and_then (ask (open_telemetry env)) (\<lambda>r.
     and_then (question r) (\<lambda>_.
     and_then (ask (now env)) (\<lambda>scenario_start.
     and_then (duration_add (report_timeout args) (commit_interval args)) (\<lambda>d.
     and_then (duration_add d (from_secs 30)) (\<lambda>idle.
     and_then (ask (bind_socket env)) (\<lambda>r.
     and_then (question r) (\<lambda>_.
     and_then (make_server_config env idle) (\<lambda>cfg.
     and_then (set_state (\<lambda>st. st\<lparr>server_config := cfg\<rparr>)) (\<lambda>_.
     and_then (ask (new_endpoint env)) (\<lambda>r.
     and_then (question r) (\<lambda>_.
     and_then (repeat fuel (
       and_then (and_then (elapsed env scenario_start) (\<lambda>t. pure (t < duration args))) (\<lambda>go.
       if \<not> go then pure (Break ()) else bob_cycle env bops tpl args scenario_start idle))) (\<lambda>_.
     write_telemetry env ''done'' 0 0 0))))))))))))"

definition bob_run_start :: "'w \<Rightarrow> 'b \<Rightarrow> ('w, 'b, 'tp) bob_run" where
  "bob_run_start w b =
     \<lparr>world = w, rows = [], shared = bob_new b, b_cycle = 0, ready_file = None,
      server_config = \<lparr>server_group = mutex_new None\<rparr>, sessions = [], observed = [], handled = []\<rparr>"

subsection \<open>Arrivals never take the epoch back\<close>

lemma commit_sink_mono:
  assumes "commit_sink bops b window = Ret b'"
  shows "guarded (local_epoch b) \<le> guarded (local_epoch b')"
proof -
  from assms obtain r g le where
    w: "apply_commit_window bops (guarded (bob_group b)) window (guarded (local_epoch b)) = Ret (r, g, le)"
    and le: "guarded (local_epoch b') = le"
    by (auto simp: commit_sink_def mutex_lock_def Let_def split: bind_splits if_splits)
  from apply_commit_window_mono [OF w] le show ?thesis by simp
qed

lemma bob_receive_mono:
  assumes "bob_receive bops d b = Ret b'"
  shows "guarded (local_epoch b) \<le> guarded (local_epoch b')"
proof -
  from assms have "b' = b \<or> (\<exists>w. commit_sink bops b w = Ret b')"
    by (auto simp: bob_receive_def handle_preamble_datagram_def bob_socket_def preamble_socket_new_def
        split: bind_splits sum.splits)
  then show ?thesis using commit_sink_mono by auto
qed

lemma arrival_mono: "guarded (local_epoch b) \<le> guarded (local_epoch (handle_arrival bops d b))"
  by (auto simp: handle_arrival_def dest: bob_receive_mono split: option.split)

lemma arrivals_mono: "guarded (local_epoch b) \<le> guarded (local_epoch (fold (handle_arrival bops) ds b))"
proof (induction ds arbitrary: b)
  case (Cons d ds)
  have "guarded (local_epoch b) \<le> guarded (local_epoch (handle_arrival bops d b))" by (rule arrival_mono)
  also have "\<dots> \<le> guarded (local_epoch (fold (handle_arrival bops) ds (handle_arrival bops d b)))" by (rule Cons.IH)
  finally show ?case by simp
qed simp

subsection \<open>The invariant\<close>

definition handshake_epochs :: "row list \<Rightarrow> u64 list" where
  "handshake_epochs rs = map row_epoch (filter (\<lambda>r. event r \<in> {''handshake_confirmed'', ''reconnect_handshake_confirmed''}) rs)"

definition epochs_ok :: "('w, 'b, 'tp) bob_run \<Rightarrow> bool" where
  "epochs_ok st \<longleftrightarrow> sorted (handshake_epochs (rows st))
     \<and> (\<forall>e \<in> set (handshake_epochs (rows st)). e \<le> guarded (local_epoch (shared st)))"

text \<open>The ready file after so many cycles.\<close>

definition file_at :: "nat \<Rightarrow> string option" where
  "file_at c = (if c = 0 then None else Some (decimal (unat (word_of_nat c :: u64))))"

text \<open>The number of cycles begun and of sessions started, the ready file, and a fresh configuration.\<close>

definition at :: "nat \<Rightarrow> nat \<Rightarrow> string option \<Rightarrow> bool \<Rightarrow> ('w, 'b, 'tp) bob_run \<Rightarrow> bool" where
  "at c n r fresh st \<longleftrightarrow> b_cycle st = word_of_nat c \<and> length (sessions st) = n \<and> ready_file st = r
     \<and> (fresh \<longrightarrow> server_group (server_config st) = mutex_new (Some ())) \<and> epochs_ok st"

text \<open>Statements that preserve this and do not stop with the panic of a used configuration.\<close>

definition calm :: "nat \<Rightarrow> nat \<Rightarrow> string option \<Rightarrow> bool \<Rightarrow> ('w, 'b, 'tp, 'e, 'x) bob_program \<Rightarrow> bool" where
  "calm c n r fresh m \<longleftrightarrow>
     triple (at c n r fresh) m (\<lambda>_. at c n r fresh) (\<lambda>e st. at c n r fresh st \<and> e \<noteq> Panicked single_use_message)"

named_theorems calming \<open>statements of the receiver that are calm\<close>

lemma calm_basic [calming]:
  "calm c n r f (pure x)" "calm c n r f (get_state g)" "calm c n r f (question q)"
  "msg \<noteq> single_use_message \<Longrightarrow> calm c n r f (expect msg opt)"
  by (auto simp: calm_def triple_def pure_def get_state_def question_def expect_def halt_def split: sum.split option.split)

lemma calm_set_state: "(\<And>st. at c n r f st \<Longrightarrow> at c n r f (g st)) \<Longrightarrow> calm c n r f (set_state g)"
  by (simp add: calm_def triple_set_state)

lemma calm_ask [calming]: "calm c n r f (ask g)"
  by (auto simp: calm_def triple_def run_simps at_def epochs_ok_def split: prod.split)

lemma calm_waits [calming]:
  "calm c n r f (await g)" "calm c n r f (under_timeout late (await g))"
  by (auto simp: calm_def triple_def run_simps at_def epochs_ok_def split: prod.split option.split)

lemma calm_and_then [calming]: "calm c n r f m \<Longrightarrow> (\<And>x. calm c n r f (k x)) \<Longrightarrow> calm c n r f (and_then m k)"
  unfolding calm_def by (rule triple_and_then)

lemma calm_if [calming]: "(b \<Longrightarrow> calm c n r f m) \<Longrightarrow> (\<not> b \<Longrightarrow> calm c n r f m') \<Longrightarrow> calm c n r f (if b then m else m')"
  by simp

lemma handshake_epochs_snoc [simp]:
  "handshake_epochs (rs @ [line]) = handshake_epochs rs @
     (if event line \<in> {''handshake_confirmed'', ''reconnect_handshake_confirmed''} then [row_epoch line] else [])"
  by (simp add: handshake_epochs_def)

lemma at_open: "at c n r f st \<Longrightarrow> at c n r f (fold (open_step bops) acts st)"
proof (induction acts arbitrary: st)
  case (Cons a acts)
  from Cons.prems have "at c n r f (open_step bops a st)"
    by (cases a) (auto simp: open_step_def at_def epochs_ok_def intro: order_trans [OF _ arrival_mono])
  with Cons.IH show ?case by simp
qed simp

lemma calm_statements [calming]:
  "calm c n r f (elapsed env t)" "calm c n r f (duration_add a b)" "calm c n r f (make_server_config env idle)"
  "calm c n r f (handle_arrivals env bops)" "calm c n r f (connection_open env bops)"
proof -
  show "calm c n r f (elapsed env t)" unfolding elapsed_def by (intro calming)
  show "calm c n r f (duration_add a b)"
    unfolding duration_add_def by (intro calming) (simp add: single_use_message_def)
  show "calm c n r f (make_server_config env idle)"
    unfolding make_server_config_def transport_config_def Let_def by (intro calming) (simp add: single_use_message_def)
  show "calm c n r f (handle_arrivals env bops)"
    unfolding handle_arrivals_def
    by (intro calming calm_set_state) (auto simp: at_def epochs_ok_def intro: order_trans [OF _ arrivals_mono])
  show "calm c n r f (connection_open env bops)"
    unfolding connection_open_def by (intro calming calm_set_state at_open)
qed

lemma calm_row:
  assumes "ev \<notin> {''handshake_confirmed'', ''reconnect_handshake_confirmed''}"
  shows "calm c n r f (write_telemetry env ev ep k lat)"
  unfolding write_telemetry_def Let_def
  by (intro calming calm_set_state) (use assms in \<open>auto simp: at_def epochs_ok_def\<close>)

text \<open>The row of a handshake has the epoch just read under the lock.\<close>

lemma lock_epoch_triple:
  "triple (at c n r f) (lock_epoch env bops) (\<lambda>ep st. at c n r f st \<and> guarded (local_epoch (shared st)) = ep)
     (\<lambda>e st. at c n r f st \<and> e \<noteq> Panicked single_use_message)"
  unfolding lock_epoch_def
  by (rule triple_and_then [OF calm_statements(4) [unfolded calm_def]])
    (auto simp: triple_def run_simps mutex_lock_def single_use_message_def)

lemma handshake_row_triple:
  "triple (\<lambda>st. at c n r f st \<and> guarded (local_epoch (shared st)) = ep)
     (and_then (elapsed env t0) (\<lambda>ms. write_telemetry env ev ep 0 ms))
     (\<lambda>_. at c n r f) (\<lambda>e st. at c n r f st \<and> e \<noteq> Panicked single_use_message)"
  unfolding triple_def write_telemetry_def run_simps Let_def
  by (auto simp: at_def epochs_ok_def sorted_append split: prod.split sum.split)

lemma and_then_assoc: "and_then (and_then m k) l = and_then m (\<lambda>x. and_then (k x) l)"
  by (auto simp: fun_eq_iff and_then_def split: prod.split sum.split)

lemma calm_serve: "calm c n r f (serve_connection env bops args t0 is_0rtt)"
proof -
  have rest: "calm c n r f (and_then (connection_open env bops) (\<lambda>_.
     pure (if blackout_off args = 0 then Break () else Continue)))"
    by (intro calming)
  have row: "calm c n r f (and_then (lock_epoch env bops) (\<lambda>ep. and_then (elapsed env t0) (\<lambda>ms. write_telemetry env ev ep 0 ms)))" for ev
    unfolding calm_def by (rule triple_and_then [OF lock_epoch_triple handshake_row_triple])
  have tail: "calm c n r f (and_then (lock_epoch env bops) (\<lambda>ep. and_then (elapsed env t0) (\<lambda>ms.
     and_then (write_telemetry env ev ep 0 ms) (\<lambda>_. and_then (connection_open env bops) (\<lambda>_.
     pure (if blackout_off args = 0 then Break () else Continue))))))" for ev
    using calm_and_then [OF row [of ev] rest] by (simp only: and_then_assoc)
  have r0: "calm c n r f (write_telemetry env ''zero_rtt_available'' 0 0 ms)"
    "calm c n r f (write_telemetry env (if is_0rtt then ''control_stream_0rtt'' else ''control_stream_1rtt'') 0 0 0)" for ms
    by (rule calm_row; simp)+
  show ?thesis
    unfolding serve_connection_def Let_def
    by (rule calm_and_then, rule calm_statements r0 calm_ask calm_waits calm_basic(2))+ (rule tail)
qed

subsection \<open>The cycle\<close>

text \<open>Where the receiver stops, whatever the reason.\<close>

definition stopped :: "'e stop \<Rightarrow> ('w, 'b, 'tp) bob_run \<Rightarrow> bool" where
  "stopped e st \<longleftrightarrow> (\<exists>c n r f. at c n r f st \<and> n \<le> c \<and> c \<le> Suc n \<and> r \<in> {file_at c, file_at n}
     \<and> (Suc n < 2 ^ 64 \<longrightarrow> e \<noteq> Panicked single_use_message))"

lemma stoppedI:
  "at c n r f st \<Longrightarrow> n \<le> c \<Longrightarrow> c \<le> Suc n \<Longrightarrow> r \<in> {file_at c, file_at n} \<Longrightarrow>
     (Suc n < 2 ^ 64 \<Longrightarrow> e \<noteq> Panicked single_use_message) \<Longrightarrow> stopped e st"
  unfolding stopped_def by (intro exI conjI) auto

text \<open>The stages of a cycle: begun, with its configuration, with its ready file, with its session.\<close>

definition stage :: "nat \<Rightarrow> nat \<Rightarrow> string option \<Rightarrow> bool" where
  "stage c n r \<longleftrightarrow> n \<le> c \<and> c \<le> Suc n \<and> r \<in> {file_at c, file_at n}"

lemma stage_simps [simp]:
  "stage n n (file_at n)" "stage (Suc n) n (file_at n)" "stage (Suc n) n (file_at (Suc n))"
  by (simp_all add: stage_def)

lemma calm_stops: "calm c n r f m \<Longrightarrow> stage c n r \<Longrightarrow> triple (at c n r f) m (\<lambda>_. at c n r f) stopped"
  unfolding calm_def stage_def by (erule triple_conseq) (auto intro: stoppedI)

lemma calm_then:
  "calm c n r f m \<Longrightarrow> stage c n r \<Longrightarrow> (\<And>x. triple (at c n r f) (k x) Q stopped) \<Longrightarrow> triple (at c n r f) (and_then m k) Q stopped"
  by (rule triple_and_then [OF calm_stops])

lemma wrapped_stop: "at (Suc n) n (file_at (Suc n)) False st \<Longrightarrow> \<not> Suc n < 2 ^ 64 \<Longrightarrow> stopped e st"
  by (rule stoppedI) auto

lemma start_incoming_triple:
  "triple (at (Suc n) n (file_at (Suc n)) (Suc n < 2 ^ 64)) (start_incoming env tpl)
     (\<lambda>_. at (Suc n) (Suc n) (file_at (Suc n)) False) stopped"
  unfolding start_incoming_def
proof (rule calm_then [OF calm_ask stage_simps(3)], rule calm_then [OF calm_basic(3) stage_simps(3)])
  show "triple (at (Suc n) n (file_at (Suc n)) (Suc n < 2 ^ 64)) (and_then (get_state server_config) (\<lambda>cfg.
     case server_start_session tpl cfg params of
       (None, cfg) \<Rightarrow>
         and_then (set_state (\<lambda>st. st\<lparr>server_config := cfg\<rparr>)) (\<lambda>_. halt (Panicked single_use_message))
     | (Some session, cfg) \<Rightarrow>
         set_state (\<lambda>st. st\<lparr>server_config := cfg, sessions := sessions st @ [session]\<rparr>)))
     (\<lambda>_. at (Suc n) (Suc n) (file_at (Suc n)) False) stopped" for params
    unfolding triple_def run_simps
    by (auto simp: at_def epochs_ok_def server_start_session_def session_new_def
        intro!: wrapped_stop [of n] split: prod.splits option.splits)
qed

text \<open>Between two cycles, and after the loop.\<close>

definition in_order :: "('w, 'b, 'tp) bob_run \<Rightarrow> bool" where
  "in_order st \<longleftrightarrow> (\<exists>n. at n n (file_at n) (n = 0) st)"

definition ended :: "('w, 'b, 'tp) bob_run \<Rightarrow> bool" where
  "ended st \<longleftrightarrow> (\<exists>c n r. at c n r False st \<and> stage c n r)"

lemma at_weaken: "at c n r f st \<Longrightarrow> at c n r False st"
  by (simp add: at_def)

lemma endedI: "stage c n r \<Longrightarrow> at c n r f st \<Longrightarrow> ended st"
  unfolding ended_def using at_weaken by blast

lemma in_order_ended: "in_order st \<Longrightarrow> ended st"
  unfolding in_order_def by (auto intro: endedI [OF stage_simps(1)])

abbreviation cycle_post :: "unit control \<Rightarrow> ('w, 'b, 'tp) bob_run \<Rightarrow> bool" where
  "cycle_post c st \<equiv> (case c of Continue \<Rightarrow> in_order st | Break _ \<Rightarrow> ended st)"

lemma in_order_post: "in_order st \<Longrightarrow> cycle_post c st"
  by (cases c) (simp_all add: in_order_ended)

lemma after_start:
  assumes "calm (Suc n) (Suc n) (file_at (Suc n)) False m"
  shows "triple (at (Suc n) (Suc n) (file_at (Suc n)) False) m cycle_post stopped"
proof -
  have "at (Suc n) (Suc n) (file_at (Suc n)) False st \<Longrightarrow> in_order st" for st :: "('a, 'b, 'c) bob_run"
    unfolding in_order_def by (rule exI [of _ "Suc n"]) simp
  then show ?thesis by (intro triple_conseq [OF calm_stops [OF assms]]) (auto intro: in_order_post)
qed

lemma make_server_config_triple:
  "stage c n r \<Longrightarrow> triple (at c n r f) (make_server_config env idle)
     (\<lambda>cfg st. at c n r f st \<and> cfg = server_config_new ()) stopped"
  unfolding make_server_config_def transport_config_def Let_def
  by (rule calm_then [OF calm_basic(4)])
    (auto simp: single_use_message_def triple_def pure_def)

lemma renew_config:
  "triple (at (Suc n) n (file_at n) (n = 0)) (if 1 < (word_of_nat (Suc n) :: u64)
       then and_then (make_server_config env idle) (\<lambda>cfg. set_state (\<lambda>st. st\<lparr>server_config := cfg\<rparr>))
       else pure ())
     (\<lambda>_. at (Suc n) n (file_at n) (Suc n < 2 ^ 64)) stopped"
proof (cases "1 < (word_of_nat (Suc n) :: u64)")
  case True
  have "triple (\<lambda>st. at (Suc n) n (file_at n) (n = 0) st \<and> cfg = server_config_new ())
      (set_state (\<lambda>st. st\<lparr>server_config := cfg\<rparr>)) (\<lambda>_. at (Suc n) n (file_at n) (Suc n < 2 ^ 64)) R" for cfg R
    by (rule triple_set_state) (simp add: at_def epochs_ok_def server_config_new_def)
  from triple_and_then [OF make_server_config_triple [OF stage_simps(2)] this] True show ?thesis by simp
next
  case False
  have "n = 0" if "Suc n < 2 ^ 64"
    using False that unat_u64 [OF that] by (auto simp: word_less_nat_alt)
  then have "triple (at (Suc n) n (file_at n) (n = 0)) (pure ()) (\<lambda>_. at (Suc n) n (file_at n) (Suc n < 2 ^ 64)) stopped"
    by (intro triple_pure) (auto simp: at_def)
  with False show ?thesis by (simp only: if_False)
qed

lemma cycle_begins:
  "triple (at n n (file_at n) (n = 0)) (set_state (\<lambda>st. st\<lparr>b_cycle := b_cycle st + 1\<rparr>))
     (\<lambda>_. at (Suc n) n (file_at n) (n = 0)) R"
  "triple (at (Suc n) n (file_at n) (n = 0)) (get_state b_cycle)
     (\<lambda>cycle st. at (Suc n) n (file_at n) (n = 0) st \<and> cycle = word_of_nat (Suc n)) R"
  "triple (at (Suc n) n (file_at n) f) (set_state (\<lambda>st. st\<lparr>ready_file := Some (decimal (unat (word_of_nat (Suc n) :: u64)))\<rparr>))
     (\<lambda>_. at (Suc n) n (file_at (Suc n)) f) R"
  by (rule triple_set_state triple_get_state, simp add: at_def epochs_ok_def file_at_def)+

lemma cycle_messages:
  "''0-RTT keys not available'' \<noteq> single_use_message" "''called unwrap on an error'' \<noteq> single_use_message"
  by (simp_all add: single_use_message_def)

text \<open>What follows the start of the session.\<close>

lemma session_triple:
  "triple (at (Suc n) (Suc n) (file_at (Suc n)) False)
     (and_then (ask (early_keys env)) (\<lambda>ok.
      and_then (expect ''0-RTT keys not available'' (if ok then Some () else None)) (\<lambda>_.
      and_then (under_timeout (deadline_first env timeout) (await (accept_stream env))) (\<lambda>stream.
      case stream of
        Some (Some is_0rtt) \<Rightarrow> serve_connection env bops args t0 is_0rtt
      | _ \<Rightarrow> and_then (ask (close_stale env)) (\<lambda>_. pure Continue)))))
     cycle_post stopped"
proof (rule after_start)
  have "calm (Suc n) (Suc n) (file_at (Suc n)) False (case stream of
        Some (Some is_0rtt) \<Rightarrow> serve_connection env bops args t0 is_0rtt
      | _ \<Rightarrow> and_then (ask (close_stale env)) (\<lambda>_. pure Continue))" for stream
    by (auto simp: calm_serve calming split: option.split)
  then show "calm (Suc n) (Suc n) (file_at (Suc n)) False (and_then (ask (early_keys env)) (\<lambda>ok.
      and_then (expect ''0-RTT keys not available'' (if ok then Some () else None)) (\<lambda>_.
      and_then (under_timeout (deadline_first env timeout) (await (accept_stream env))) (\<lambda>stream.
      case stream of
        Some (Some is_0rtt) \<Rightarrow> serve_connection env bops args t0 is_0rtt
      | _ \<Rightarrow> and_then (ask (close_stale env)) (\<lambda>_. pure Continue)))))"
    by (intro calm_and_then calm_ask calm_waits calm_basic(4) cycle_messages)
qed

lemma bob_cycle_triple:
  "triple in_order (bob_cycle env bops tpl args start idle) cycle_post stopped"
proof -
  have broke: "triple (at (Suc n) n (file_at (Suc n)) f) (pure (Break ())) cycle_post stopped" for n f
    by (rule triple_pure) (auto intro: endedI [OF stage_simps(3)])
  have "triple (at n n (file_at n) (n = 0)) (bob_cycle env bops tpl args start idle) cycle_post stopped" for n
    unfolding bob_cycle_def Let_def
    by (rule triple_and_then [OF cycle_begins(1)], rule triple_and_then [OF cycle_begins(2)],
        rule triple_given, simp only:, rule triple_and_then [OF renew_config],
        rule calm_then [OF calm_ask stage_simps(2)],
        rule calm_then [OF calm_basic(4) [OF cycle_messages(2)] stage_simps(2)],
        rule triple_and_then [OF cycle_begins(3)],
        (rule calm_then [OF _ stage_simps(3)], rule calm_statements calm_ask calm_waits)+,
        rule triple_if, rule broke, rule triple_and_then [OF start_incoming_triple session_triple])
  then have "triple (\<lambda>st. \<exists>n. at n n (file_at n) (n = 0) st) (bob_cycle env bops tpl args start idle) cycle_post stopped"
    by (rule triple_ex)
  then show ?thesis by (simp only: in_order_def [abs_def])
qed

subsection \<open>The receiver\<close>

lemma bob_loop_triple:
  "triple in_order (repeat fuel (and_then (and_then (elapsed env start) (\<lambda>t. pure (t < duration args))) (\<lambda>go.
     if \<not> go then pure (Break ()) else bob_cycle env bops tpl args start idle))) (\<lambda>_. ended) stopped"
proof (rule triple_repeat)
  have guard: "triple in_order (and_then (elapsed env start) (\<lambda>t. pure (t < duration args))) (\<lambda>_. in_order) stopped"
    unfolding in_order_def
    by (intro triple_ex triple_conseq [OF calm_stops [OF calm_and_then [OF calm_statements(1) calm_basic(1)] stage_simps(1)]]) auto
  have "triple in_order (if \<not> go then pure (Break ()) else bob_cycle env bops tpl args start idle) cycle_post stopped" for go
    using bob_cycle_triple by (cases go) (auto intro!: triple_pure in_order_ended)
  with guard show "triple in_order (and_then (and_then (elapsed env start) (\<lambda>t. pure (t < duration args))) (\<lambda>go.
     if \<not> go then pure (Break ()) else bob_cycle env bops tpl args start idle)) (\<lambda>c st. cycle_post c st) stopped"
    by (rule triple_and_then)
  show "stopped Running st" if "in_order st" for st
    using that unfolding in_order_def by (auto intro: stoppedI)
qed

lemma run_bob_triple:
  "triple (at 0 0 None False) (run_bob fuel env bops tpl args) (\<lambda>_. ended) stopped"
proof -
  have s0: "stage 0 0 None" by (simp add: stage_def file_at_def)
  have configured: "triple (\<lambda>st. at 0 0 None False st \<and> cfg = server_config_new ())
      (set_state (\<lambda>st. st\<lparr>server_config := cfg\<rparr>)) (\<lambda>_. at 0 0 None True) R" for cfg R
    by (rule triple_set_state) (simp add: at_def epochs_ok_def server_config_new_def)
  have first: "at 0 0 None True st \<Longrightarrow> in_order st" for st :: "('a, 'b, 'c) bob_run"
    unfolding in_order_def by (rule exI [of _ 0]) (simp add: file_at_def)
  have "calm c n r False (write_telemetry env ''done'' 0 0 0)" for c n r by (rule calm_row) simp
  then have final: "triple ended (write_telemetry env ''done'' 0 0 0) (\<lambda>_. ended) stopped"
    unfolding ended_def
    by (intro triple_ex triple_given) (rule triple_conseq [OF calm_stops]; fast)
  show ?thesis
    unfolding run_bob_def
    by ((rule calm_then [OF _ s0], rule calm_statements(1,2) calm_ask calm_basic(3))+,
        rule triple_and_then [OF make_server_config_triple [OF s0]],
        rule triple_and_then [OF configured],
        (rule calm_then [OF _ s0], rule calm_ask calm_basic(3))+,
        rule triple_and_then [OF triple_conseq [OF bob_loop_triple first] final])
qed

lemma run_bob_at:
  assumes "run_bob fuel env bops tpl args (bob_run_start w b) = (r, st)"
  shows "\<exists>c n f x. at c n f x st \<and> n \<le> c \<and> c \<le> Suc n \<and> f \<in> {file_at c, file_at n}
     \<and> (Suc n < 2 ^ 64 \<longrightarrow> r \<noteq> Inl (Panicked single_use_message))"
proof -
  have start: "at 0 0 None False (bob_run_start w b)"
    by (simp add: at_def bob_run_start_def epochs_ok_def handshake_epochs_def)
  show ?thesis
  proof (cases r)
    case (Inl e)
    from tripleE [OF run_bob_triple start assms [unfolded Inl]] Inl show ?thesis
      unfolding stopped_def by auto
  next
    case (Inr u)
    from tripleD [OF run_bob_triple start assms [unfolded Inr]] Inr show ?thesis
      unfolding ended_def stage_def by auto
  qed
qed

lemma run_bob_epochs:
  assumes "run_bob fuel env bops tpl args (bob_run_start w b) = (r, st)"
  shows "epochs_ok st"
  using run_bob_at [OF assms] unfolding at_def by blast

text \<open>
  C9: The receiver. In every run of \<open>run_bob\<close>, wherever it stops, the number of sessions is that of the
  cycles begun, up to the one in progress, and below $2^{64}$ no session is ever started on a
  configuration that was used before, which would be a panic; the ready file names the current cycle or, if
  that is being set up, the one before; and the epochs of the handshakes in the telemetry never go back
  and never exceed the receiver's epoch.
\<close>

theorem run_bob_cycles:
  assumes "run_bob fuel env bops tpl args (bob_run_start w b) = (r, st)"
  shows "(\<exists>c. b_cycle st = word_of_nat c \<and> length (sessions st) \<le> c \<and> c \<le> Suc (length (sessions st))
      \<and> ready_file st \<in> {file_at c, file_at (length (sessions st))})
    \<and> (Suc (length (sessions st)) < 2 ^ 64 \<longrightarrow> r \<noteq> Inl (Panicked single_use_message))
    \<and> sorted (handshake_epochs (rows st))
    \<and> (\<forall>e \<in> set (handshake_epochs (rows st)). e \<le> guarded (local_epoch (shared st)))"
  using run_bob_at [OF assms] by (auto simp: at_def epochs_ok_def)

subsection \<open>A concrete run\<close>

text \<open>The clock world of the sender's samples; two connections, and the time is up.\<close>

definition sample_bob_env :: "(duration, string, bytes) bob_env" where
  "sample_bob_env =
     \<lparr>now = (\<lambda>w. (w + 1, w + 1)), sleep = (\<lambda>d w. ((), w + d)), read_ready = (\<lambda>w. (None, w)),
      unix_ms = (\<lambda>w. (0, w)), open_telemetry = (\<lambda>w. (Inr (), w)), write_row = (\<lambda>line w. (Inr (), w)),
      bind_socket = (\<lambda>w. (Inr (), w)), new_endpoint = (\<lambda>w. (Inr (), w)), idle_timeout = (\<lambda>d. Some ()),
      deadline_first = (\<lambda>d w. (False, w)),
      arrivals = (\<lambda>w. ([], w)), write_ready = (\<lambda>s w. (True, w)), accept_connection = (\<lambda>w. (Some True, w)),
      accept_incoming = (\<lambda>w. (Inr [5], w)), early_keys = (\<lambda>w. (True, w)), accept_stream = (\<lambda>w. (Some (Some True), w)),
      zero_rtt_done = (\<lambda>w. (Some (), w)), close_stale = (\<lambda>w. ((), w)), while_open = (\<lambda>w. ([Observe], w)),
      conn_closed = (\<lambda>w. (Some (), w))\<rparr>"

definition sample_bob_args :: "string Args" where
  "sample_bob_args =
     \<lparr>role = Bob, bind_addr = ''b'', peer_addr = None, bootstrap_dir = ''d'', commit_interval = 1,
      duration = 8, out_path = ''o'', blackout_on = 2, blackout_off = 1, report_timeout = 5,
      transcript_max_bytes = 1000\<rparr>"

definition sample_bob_run :: "(string stop + unit) \<times> (duration, nat, bytes) bob_run" where
  "sample_bob_run = run_bob 9 sample_bob_env sample_ops sample_tp sample_bob_args (bob_run_start 0 0)"

lemmas bob_defs = bob_cycle_def make_server_config_def transport_config_def start_incoming_def
  server_start_session_def server_config_new_def serve_connection_def handle_arrivals_def connection_open_def open_step_def lock_epoch_def
  write_telemetry_def duration_add_def duration_MAX_def mutex_lock_def mutex_new_def session_new_def take_group_def

lemma sample_bob_ends: "fst sample_bob_run = Inr () \<and> length (sessions (snd sample_bob_run)) = 2"
  by (simp add: sample_bob_run_def run_bob_def sample_bob_args_def bob_run_start_def bob_new_def run_simps
        sample_bob_env_def from_secs_def bob_defs Let_def)

lemma run_bob_cycles_witness:
  "b_cycle (snd sample_bob_run) \<in> {2, 3} \<and> sorted (handshake_epochs (rows (snd sample_bob_run)))"
proof -
  have run: "run_bob 9 sample_bob_env sample_ops sample_tp sample_bob_args (bob_run_start 0 0)
      = (fst sample_bob_run, snd sample_bob_run)"
    by (simp add: sample_bob_run_def)
  from run_bob_cycles [OF run] obtain c where "b_cycle (snd sample_bob_run) = word_of_nat c" "2 \<le> c" "c \<le> 3"
    and "sorted (handshake_epochs (rows (snd sample_bob_run)))"
    using sample_bob_ends by auto
  moreover from this have "c = 2 \<or> c = 3" by auto
  ultimately show ?thesis by auto
qed

end
