(* ===== verification/Bob_Refines.thy ===== *)
theory Bob_Refines
  imports Runner_Bob
begin

text \<open>
  The receiver of the testbed replays the sender's history. Everything \<open>run_bob\<close> does to the group and
  the epoch it shares with the commit sink is to let the sink handle datagrams. The locale
  \<open>faithful_arrivals\<close> says what a single datagram has to satisfy: then the group is, throughout, the first one
  with as many commits of the history applied as the epoch says, until a panic of the library poisons
  the locks. It is interpreted twice: on datagrams that carry windows of the history, as those of the
  synchronisation protocol do, and on any datagram at all, when the library accepts nobody else's commits.
\<close>

subsection \<open>What reaches the sink\<close>

definition carries :: "bytes list \<Rightarrow> bytes \<Rightarrow> bool" where
  "carries h d \<longleftrightarrow> (\<exists>w. decode_transcript (tl d) = Ret (Inr w) \<and> piece h w)"

lemma network_carries: "sync_inv bops s \<Longrightarrow> d \<in> net s \<Longrightarrow> carries (history s) d"
  using sync_invD(5) [of bops s] unfolding carries_def by blast

text \<open>The group is the replay of the history up to the epoch, or a lock is poisoned.\<close>

definition replays :: "('b, 'f) ExportSecret \<Rightarrow> 'b \<Rightarrow> bytes list \<Rightarrow> 'b Bob \<Rightarrow> bool" where
  "replays bops g0 h b \<longleftrightarrow> unat (guarded (local_epoch b)) \<le> length h \<and> epoch_tx b = guarded (local_epoch b)
     \<and> (bob_ok bops g0 h b \<or> poisoned (bob_group b) \<and> poisoned (local_epoch b))"

lemma replays_new: "replays bops g0 h (bob_new g0)"
  by (simp add: replays_def bob_ok_def bob_new_def mutex_new_def)

text \<open>
  Whatever arrives, when the library is authentic: of all byte strings, the group that has the first commits
  of the history accepts only the next one.
\<close>

definition authentic :: "('b, 'f) ExportSecret \<Rightarrow> 'b \<Rightarrow> bytes list \<Rightarrow> bool" where
  "authentic bops g0 h \<longleftrightarrow> (\<forall>n g b g'. n \<le> length h \<and> apply_commits bops g0 (take n h) = Ret (Inr (), g, n)
     \<and> apply_commit bops g b = Ret (Inr (), g') \<longrightarrow> n < length h \<and> b = h ! n)"

lemma authentic_window:
  assumes "apply_atomic bops" and "authentic bops g0 h" and "length h < 2 ^ 64"
  shows "unat le \<le> length h \<Longrightarrow> apply_commits bops g0 (take (unat le) h) = Ret (Inr (), g, unat le)
    \<Longrightarrow> apply_commit_window bops g w le = Ret (r, g', le')
    \<Longrightarrow> unat le' \<le> length h \<and> apply_commits bops g0 (take (unat le') h) = Ret (Inr (), g', unat le')"
proof (induction w arbitrary: g le)
  case (Cons x w)
  obtain epoch b where x: "x = (epoch, b)" by (cases x)
  consider "epoch \<le> le" | "\<not> epoch \<le> le" "epoch = le + 1" | "\<not> epoch \<le> le" "epoch \<noteq> le + 1" by blast
  then show ?case
  proof cases
    case 2
    with Cons.prems(3) x obtain q g1 where q: "apply_commit bops g b = Ret (q, g1)" by (auto split: bind_splits)
    show ?thesis
    proof (cases q)
      case (Inl e)
      with q apply_atomicD [OF assms(1)] Cons.prems x 2 show ?thesis by auto
    next
      case (Inr u)
      with q assms(2) Cons.prems(1,2) have next_commit: "unat le < length h" "b = h ! unat le"
        unfolding authentic_def by (metis old.unit.exhaust)+
      have len: "unat (le + 1) = Suc (unat le)"
        using next_commit(1) assms(3) by (simp add: unat_word_ariths)
      have "apply_commits bops g [b] = Ret (Inr (), g1, 1)" using q Inr by simp
      with apply_commits_append [OF Cons.prems(2), of "[b]"] next_commit
      have "apply_commits bops g0 (take (unat (le + 1)) h) = Ret (Inr (), g1, unat (le + 1))"
        by (simp add: len take_Suc_conv_app_nth)
      moreover have "apply_commit_window bops g1 w (le + 1) = Ret (r, g', le')"
        using Cons.prems(3) x 2 q Inr by simp
      moreover have "unat (le + 1) \<le> length h" using next_commit(1) len by simp
      ultimately show ?thesis by (intro Cons.IH)
    qed
  qed (use Cons x in auto)
qed simp

lemma received_window:
  "bob_receive bops d b = Ret b' \<Longrightarrow> b' = b \<or> (\<exists>w. commit_sink bops b w = Ret b')"
  by (auto simp: bob_receive_def handle_preamble_datagram_def bob_socket_def preamble_socket_new_def
      split: bind_splits sum.splits)

lemma authentic_arrival:
  assumes "apply_atomic bops" and "authentic bops g0 h" and "length h < 2 ^ 64" and "bob_ok bops g0 h b"
    and "bob_receive bops d b = Ret b'"
  shows "bob_ok bops g0 h b' \<and> epoch_tx b \<le> epoch_tx b'"
  using received_window [OF assms(5)]
proof (elim disjE exE)
  fix w assume run: "commit_sink bops b w = Ret b'"
  from assms(4) have ok: "\<not> poisoned (bob_group b)" "\<not> poisoned (local_epoch b)"
    "guarded (local_epoch b) = epoch_tx b" "unat (epoch_tx b) \<le> length h"
    "apply_commits bops g0 (take (unat (epoch_tx b)) h) = Ret (Inr (), guarded (bob_group b), unat (epoch_tx b))"
    unfolding bob_ok_def by blast+
  from trans [OF commit_sink_eq [OF ok(1-3), of bops w, symmetric] run] obtain r g le where
    a: "apply_commit_window bops (guarded (bob_group b)) w (epoch_tx b) = Ret (r, g, le)" and
    b': "b' = b\<lparr>bob_group := (bob_group b)\<lparr>guarded := g\<rparr>, local_epoch := (local_epoch b)\<lparr>guarded := le\<rparr>, epoch_tx := le\<rparr>"
    by auto
  from authentic_window [OF assms(1-3) ok(4,5) a] apply_commit_window_mono [OF a] ok b' show ?thesis
    by (simp add: bob_ok_def)
qed (use assms(4) in simp)

subsection \<open>Faithful arrivals\<close>

locale faithful_arrivals =
  fixes bops :: "('b, 'f) ExportSecret" and g0 :: 'b and h :: "bytes list" and P :: "bytes \<Rightarrow> bool"
  assumes arrival: "P d \<Longrightarrow> bob_ok bops g0 h b \<Longrightarrow> bob_receive bops d b = Ret b' \<Longrightarrow> bob_ok bops g0 h b'"
begin

lemma handled_replays:
  assumes "P d" and "replays bops g0 h b"
  shows "replays bops g0 h (handle_arrival bops d b)"
proof (cases "bob_receive bops d b")
  case None
  with assms(2) show ?thesis by (simp add: handle_arrival_def replays_def)
next
  case (Some b')
  then have eq: "handle_arrival bops d b = b'" by (simp add: handle_arrival_def)
  show ?thesis
  proof (cases "b' = b")
    case False
    with Some received_window obtain w where "commit_sink bops b w = Ret b'" by blast
    then have "\<not> poisoned (bob_group b)" by (auto simp: commit_sink_def mutex_lock_def split: if_splits)
    with assms(2) have "bob_ok bops g0 h b" unfolding replays_def by blast
    from arrival [OF assms(1) this Some] have ok: "bob_ok bops g0 h b'" .
    then have "unat (guarded (local_epoch b')) \<le> length h" "epoch_tx b' = guarded (local_epoch b')"
      unfolding bob_ok_def by simp_all
    with ok eq show ?thesis by (simp add: replays_def)
  qed (use assms(2) eq in simp)
qed

lemma arrivals_replay:
  "\<forall>d \<in> set ds. P d \<Longrightarrow> replays bops g0 h b \<Longrightarrow> replays bops g0 h (fold (handle_arrival bops) ds b)"
  by (induction ds arbitrary: b) (auto intro: handled_replays)

end

interpretation genuine: faithful_arrivals bops g0 h "\<lambda>d. apply_atomic bops \<and> length h < 2 ^ 64 \<and> carries h d" for bops g0 h
proof
  fix d b b'
  assume d: "apply_atomic bops \<and> length h < 2 ^ 64 \<and> carries h d" and ok: "bob_ok bops g0 h b"
    and run: "bob_receive bops d b = Ret b'"
  then obtain w where w: "decode_transcript (tl d) = Ret (Inr w)" "piece h w" unfolding carries_def by blast
  with run have "commit_sink bops b w = Ret b'" by (simp add: bob_receive_window)
  with sink_keeps_bob_ok [OF _ w(2) _ ok] d show "bob_ok bops g0 h b'" by blast
qed

interpretation anybody: faithful_arrivals bops g0 h "\<lambda>d. apply_atomic bops \<and> length h < 2 ^ 64 \<and> authentic bops g0 h"
  for bops g0 h
  by unfold_locales (elim conjE, rule conjunct1 [OF authentic_arrival])

subsection \<open>The program\<close>

text \<open>
  With it, the shared state is what the handled datagrams make of the first one, and the epochs the
  report tasks observed are epochs the receiver has reached. The arrivals, before
  a lock and while a connection is open, are the only statements that touch what this is about.
\<close>

definition replaying ::
    "('b, 'f) ExportSecret \<Rightarrow> 'b \<Rightarrow> bytes list \<Rightarrow> (bytes \<Rightarrow> bool) \<Rightarrow> ('w, 'b, 'tp) bob_run \<Rightarrow> bool" where
  "replaying bops g0 h P st \<longleftrightarrow> replays bops g0 h (shared st)
     \<and> fold (handle_arrival bops) (handled st) (bob_new g0) = shared st \<and> (\<forall>d \<in> set (handled st). P d)
     \<and> (\<forall>k \<in> set (observed st). k \<le> guarded (local_epoch (shared st)))"

definition hears :: "('w, 'e, 'tp) bob_env \<Rightarrow> (bytes \<Rightarrow> bool) \<Rightarrow> bool" where
  "hears env P \<longleftrightarrow> (\<forall>v. \<forall>d \<in> set (fst (arrivals env v)). P d) \<and> (\<forall>v d. Arrival d \<in> set (fst (while_open env v)) \<longrightarrow> P d)"

named_theorems sharing \<open>statements of the receiver that leave what it shares with the sink alone\<close>

lemma replaying_ask [sharing]: "keeps (replaying bops g0 h P) (ask f)"
  by (rule keeps_ask) (simp add: replaying_def)

lemma replaying_set [sharing]:
  "(\<And>st. shared (f st) = shared st \<and> observed (f st) = observed st \<and> handled (f st) = handled st) \<Longrightarrow> keeps (replaying bops g0 h P) (set_state f)"
  by (rule keeps_set_state) (simp add: replaying_def)

lemma replaying_statements [sharing]:
  "keeps (replaying bops g0 h P) (elapsed env t)" "keeps (replaying bops g0 h P) (duration_add a b)"
  "keeps (replaying bops g0 h P) (make_server_config benv idle)" "keeps (replaying bops g0 h P) (write_telemetry rt ev ep n lat)"
proof -
  show "keeps (replaying bops g0 h P) (elapsed env t)" unfolding elapsed_def by (intro keeping sharing)
  show "keeps (replaying bops g0 h P) (duration_add a b)" unfolding duration_add_def by (intro keeping)
  show "keeps (replaying bops g0 h P) (make_server_config benv idle)"
    unfolding make_server_config_def transport_config_def Let_def by (intro keeping)
  show "keeps (replaying bops g0 h P) (write_telemetry rt ev ep n lat)"
    unfolding write_telemetry_def Let_def by (intro keeping sharing) simp
qed

lemma replaying_start [sharing]: "keeps (replaying bops g0 h P) (start_incoming env tpl)"
  unfolding start_incoming_def by (intro keeping sharing) simp_all

lemma replaying_world: "replaying bops g0 h P (st\<lparr>world := v\<rparr>) = replaying bops g0 h P st"
  by (simp add: replaying_def)

text \<open>What handles arrivals preserves it when the arrivals are faithful.\<close>

context faithful_arrivals
begin

lemma open_steps_replay:
  "\<forall>d. Arrival d \<in> set acts \<longrightarrow> P d \<Longrightarrow> replaying bops g0 h P st \<Longrightarrow> replaying bops g0 h P (fold (open_step bops) acts st)"
proof (induction acts arbitrary: st)
  case (Cons a acts)
  have "replaying bops g0 h P (open_step bops a st)"
  proof (cases a)
    case (Arrival d)
    with Cons.prems handled_replays show ?thesis
      by (auto simp: replaying_def open_step_def intro: order_trans [OF _ arrival_mono])
  next
    case Observe
    with Cons.prems(2) show ?thesis by (auto simp: replaying_def replays_def open_step_def)
  qed
  with Cons show ?case by simp
qed simp

lemma replaying_arrivals:
  assumes "hears env P"
  shows "keeps (replaying bops g0 h P) (handle_arrivals env bops)"
    and "keeps (replaying bops g0 h P) (lock_epoch env bops)"
proof -
  have P: "\<forall>d \<in> set (fst (arrivals env v)). P d" for v using assms unfolding hears_def by blast
  then show arrivals: "keeps (replaying bops g0 h P) (handle_arrivals env bops)"
    using arrivals_replay [OF P]
    by (auto simp: keeps_def handle_arrivals_def replaying_def run_simps case_prod_beta intro: order_trans [OF _ arrivals_mono])
  show "keeps (replaying bops g0 h P) (lock_epoch env bops)"
    unfolding lock_epoch_def by (intro keeping arrivals)
qed

lemma replaying_open:
  assumes "hears env P"
  shows "keeps (replaying bops g0 h P) (connection_open env bops)"
proof -
  have "keeps (replaying bops g0 h P) (and_then (ask (while_open env)) (\<lambda>acts. set_state (fold (open_step bops) acts)))"
    using assms unfolding hears_def
    by (auto simp: keeps_def run_simps case_prod_beta replaying_world intro!: open_steps_replay)
  from keeps_and_then [OF this keeps_await [OF replaying_ask]] show ?thesis
    unfolding connection_open_def by (simp only: and_then_assoc)
qed

lemma replaying_run_bob:
  assumes "hears env P"
  shows "keeps (replaying bops g0 h P) (run_bob fuel env bops tpl args)"
proof -
  note statements = keeping sharing replaying_arrivals [OF assms] replaying_open [OF assms]
  have serve: "keeps (replaying bops g0 h P) (serve_connection env bops args t0 is_0rtt)" for t0 is_0rtt
    unfolding serve_connection_def Let_def by (intro statements)
  have cycle: "keeps (replaying bops g0 h P) (bob_cycle env bops tpl args start idle)" for start idle
    unfolding bob_cycle_def Let_def by (intro statements serve) simp_all
  show ?thesis
    unfolding run_bob_def by (intro statements cycle) simp_all
qed

lemma receiver:
  assumes "hears env P" and "run_bob fuel env bops tpl args (bob_run_start w g0) = (r, st)"
  shows "replaying bops g0 h P st"
  using keepsD [OF replaying_run_bob [OF assms(1)] _ assms(2)]
  by (simp add: replaying_def bob_run_start_def replays_new)

end

lemma run_bob_replays:
  assumes "apply_atomic bops" and "length h < 2 ^ 64" and "hears env (carries h)"
    and "run_bob fuel env bops tpl args (bob_run_start w g0) = (r, st)"
  shows "replaying bops g0 h (carries h) st"
proof -
  have "hears env (\<lambda>d. apply_atomic bops \<and> length h < 2 ^ 64 \<and> carries h d)" using assms(1-3) by (simp add: hears_def)
  from genuine.receiver [OF this assms(4)] show ?thesis by (simp add: replaying_def)
qed

text \<open>The receiver among strangers: whatever datagrams reach him.\<close>

lemma run_bob_withstands:
  assumes "apply_atomic bops" and "length h < 2 ^ 64" and "authentic bops g0 h"
    and "run_bob fuel env bops tpl args (bob_run_start w g0) = (r, st)"
  shows "replaying bops g0 h (\<lambda>_. True) st"
proof -
  have "hears env (\<lambda>d. apply_atomic bops \<and> length h < 2 ^ 64 \<and> authentic bops g0 h)" using assms(1-3) by (simp add: hears_def)
  from anybody.receiver [OF this assms(4)] show ?thesis by (simp add: replaying_def)
qed

end
