(* ===== verification/Bob_Catches_Up.thy ===== *)
theory Bob_Catches_Up
  imports Bob_Refines
begin

text \<open>
  The receiver catches up. If the library accepts the whole history, no arrival of the protocol makes it
  panic, and once he has handled the datagrams of a preamble in order, with whatever else of the protocol
  arriving before, between and after them, his epoch is at least the last one of the preamble, as long as
  it did not begin behind a commit he lacked. The locale \<open>steady_arrivals\<close> says what the other arrivals have to
  satisfy for this; with a library that never panics and accepts nobody else's commits, any datagrams do.
\<close>

subsection \<open>One arrival\<close>

definition accepts :: "('b, 'f) ExportSecret \<Rightarrow> 'b \<Rightarrow> bytes list \<Rightarrow> bool" where
  "accepts bops g0 h \<longleftrightarrow> (\<exists>g. apply_commits bops g0 h = Ret (Inr (), g, length h))"

definition opens :: "window \<Rightarrow> bytes \<Rightarrow> bool" where
  "opens w d \<longleftrightarrow> decode_transcript (tl d) = Ret (Inr w)"

lemma accepted_arrival:
  assumes "apply_atomic bops" and "length h < 2 ^ 64" and "accepts bops g0 h" and "bob_ok bops g0 h b"
    and "opens w d" and "covers h c k w"
  shows "bob_ok bops g0 h (handle_arrival bops d b)"
    and "c \<le> epoch_tx b \<Longrightarrow> k \<le> epoch_tx (handle_arrival bops d b)"
proof -
  from assms(3) obtain g where "apply_commits bops g0 h = Ret (Inr (), g, length h)" unfolding accepts_def by blast
  from sink_catches_up [OF assms(2,4) this assms(6)] obtain b' where
    b': "commit_sink bops b w = Ret b'" "c \<le> epoch_tx b \<longrightarrow> k \<le> epoch_tx b'" by blast
  moreover from b'(1) assms(5) have "handle_arrival bops d b = b'"
    by (simp add: handle_arrival_def opens_def bob_receive_window)
  ultimately show "bob_ok bops g0 h (handle_arrival bops d b)"
    and "c \<le> epoch_tx b \<Longrightarrow> k \<le> epoch_tx (handle_arrival bops d b)"
    using sink_keeps_bob_ok [OF assms(1) covers_piece [OF assms(6)] assms(2,4) b'(1)] by auto
qed

lemma accepted_carried:
  assumes "apply_atomic bops" and "length h < 2 ^ 64" and "accepts bops g0 h" and "bob_ok bops g0 h b"
    and "carries h d"
  shows "bob_ok bops g0 h (handle_arrival bops d b) \<and> epoch_tx b \<le> epoch_tx (handle_arrival bops d b)"
proof -
  from assms(5) obtain w c k where w: "opens w d" "covers h c k w"
    unfolding carries_def opens_def using piece_covers by blast
  note ok = accepted_arrival(1) [OF assms(1-4) w]
  moreover have "epoch_tx b \<le> epoch_tx (handle_arrival bops d b)"
    using arrival_mono [of b bops d] ok assms(4) unfolding bob_ok_def by simp
  ultimately show ?thesis by simp
qed

lemma bob_ok_new: "bob_ok bops g0 h (bob_new g0)"
  by (simp add: bob_ok_def bob_new_def mutex_new_def)

subsection \<open>Steady arrivals\<close>

locale steady_arrivals =
  fixes bops :: "('b, 'f) ExportSecret" and g0 :: 'b and h :: "bytes list" and P :: "bytes \<Rightarrow> bool"
  assumes steady: "P d \<Longrightarrow> bob_ok bops g0 h b \<Longrightarrow>
      bob_ok bops g0 h (handle_arrival bops d b) \<and> epoch_tx b \<le> epoch_tx (handle_arrival bops d b)"
begin

lemma arrivals_ok:
  "\<forall>d \<in> set ds. P d \<Longrightarrow> bob_ok bops g0 h b \<Longrightarrow> bob_ok bops g0 h (fold (handle_arrival bops) ds b)"
  by (induction ds arbitrary: b) (auto simp: steady)

text \<open>
  The datagrams of the buckets among the arrivals, in order. An arrival between them only takes the epoch
  forward, and each bucket begins where the one before it ended.
\<close>

lemma block_arrives:
  assumes "apply_atomic bops" and "length h < 2 ^ 64" and "accepts bops g0 h"
  shows "subseq (map f bs) ds \<Longrightarrow> \<forall>w \<in> set bs. opens w (f w) \<Longrightarrow> \<forall>d \<in> set ds. P d \<Longrightarrow> bob_ok bops g0 h b
    \<Longrightarrow> covers h c k (concat bs) \<Longrightarrow> c \<le> epoch_tx b \<Longrightarrow> k \<le> epoch_tx (fold (handle_arrival bops) ds b)"
proof (induction ds arbitrary: bs b c)
  case Nil
  from list_emb_Nil2 [OF Nil.prems(1)] have "bs = []" by simp
  with Nil.prems(5,6) show ?case using covers_Nil by force
next
  case (Cons d ds)
  then have d: "P d" "\<forall>d \<in> set ds. P d" by simp_all
  note step = steady [OF d(1) Cons.prems(4)]
  show ?case
  proof (cases "\<exists>w ws. bs = w # ws \<and> f w = d")
    case True
    then obtain w ws where w: "bs = w # ws" "f w = d" by blast
    with Cons.prems(5) obtain m where m: "covers h c m w" "covers h m k (concat ws)"
      using covers_append by (metis concat.simps(2))
    have "opens w d" "subseq (map f ws) ds" "\<forall>w \<in> set ws. opens w (f w)" using Cons.prems(1,2) w by simp_all
    from Cons.IH [OF this(2,3) d(2) _ m(2)] accepted_arrival [OF assms Cons.prems(4) this(1) m(1)] Cons.prems(6)
    show ?thesis by simp
  next
    case False
    with Cons.prems(1) have "subseq (map f bs) ds" by (cases bs) auto
    from Cons.IH [OF this Cons.prems(2) d(2) _ Cons.prems(5)] step Cons.prems(6) show ?thesis by auto
  qed
qed

end

interpretation genuine_steady: steady_arrivals bops g0 h
  "\<lambda>d. apply_atomic bops \<and> length h < 2 ^ 64 \<and> accepts bops g0 h \<and> carries h d" for bops g0 h
  by unfold_locales (elim conjE, rule accepted_carried)

lemma unpanicked_window:
  assumes "\<forall>g b. apply_commit bops g b \<noteq> Panic"
  shows "apply_commit_window bops g w le \<noteq> Panic"
proof (induction w arbitrary: g le)
  case (Cons x w)
  obtain r g' where "apply_commit bops g (snd x) = Ret (r, g')" using assms by fastforce
  with Cons show ?case by (cases x) (auto split: sum.split)
qed simp

lemma unpanicked_arrival:
  assumes "\<forall>g b. apply_commit bops g b \<noteq> Panic" and "bob_ok bops g0 h b"
  shows "bob_receive bops d b \<noteq> Panic"
proof -
  have "\<exists>r. decode_transcript (tl d) = Ret r"
    by (cases "length (tl d) < 8") (auto simp: decode_transcript_short decode_transcript_eq)
  moreover have "commit_sink bops b w \<noteq> Panic" for w
    using commit_sink_eq [of b bops w] assms(2) unpanicked_window [OF assms(1)] unfolding bob_ok_def by auto
  ultimately show ?thesis
    by (auto simp: bob_receive_def handle_preamble_datagram_def bob_socket_def preamble_socket_new_def split: sum.split)
qed

interpretation anybody_steady: steady_arrivals bops g0 h
  "\<lambda>d. apply_atomic bops \<and> length h < 2 ^ 64 \<and> authentic bops g0 h \<and> (\<forall>g b. apply_commit bops g b \<noteq> Panic)"
  for bops g0 h
proof
  fix d b
  assume lib: "apply_atomic bops \<and> length h < 2 ^ 64 \<and> authentic bops g0 h \<and> (\<forall>g b. apply_commit bops g b \<noteq> Panic)"
    and ok: "bob_ok bops g0 h b"
  then obtain b' where "bob_receive bops d b = Ret b'" using unpanicked_arrival [of bops g0 h b d] by auto
  moreover from this lib ok have "bob_ok bops g0 h b' \<and> epoch_tx b \<le> epoch_tx b'"
    by (intro authentic_arrival) simp_all
  ultimately show "bob_ok bops g0 h (handle_arrival bops d b) \<and> epoch_tx b \<le> epoch_tx (handle_arrival bops d b)"
    by (simp add: handle_arrival_def)
qed

lemma accepted_arrivals:
  assumes "apply_atomic bops" and "length h < 2 ^ 64" and "accepts bops g0 h"
    and "\<forall>d \<in> set ds. carries h d" and "bob_ok bops g0 h b"
  shows "bob_ok bops g0 h (fold (handle_arrival bops) ds b)"
  by (rule genuine_steady.arrivals_ok [OF _ assms(5)]) (use assms(1-4) in blast)

subsection \<open>A preamble\<close>

text \<open>The datagrams of a preamble open its buckets, which together are the window if all of it fits.\<close>

lemma preamble_opens:
  assumes "w \<in> set (bucket_window window budget (MAX_DATAGRAM_PAYLOAD - 1))"
  shows "opens w (PREAMBLE_MARKER # encode_transcript w usize_MAX)"
  using preamble_bucket_ok(3) [OF assms] by (simp add: opens_def)

text \<open>A window of a history that fits, fits.\<close>

lemma sum_list_part: "sum_list (map g (take m (drop n xs))) \<le> sum_list (map (g :: 'a \<Rightarrow> nat) xs)"
proof -
  have "sum_list (map g (take m ys)) \<le> sum_list (map g ys)" "sum_list (map g (drop m ys)) \<le> sum_list (map g ys)" for m ys
    using arg_cong [OF append_take_drop_id, of "\<lambda>z. sum_list (map g z)" m ys]
    by (simp_all del: append_take_drop_id)
  then show ?thesis using order_trans by blast
qed

lemma covers_fits:
  assumes "covers h c k w" and "\<forall>b \<in> set h. length b \<le> 1179" and "sum_list (map (\<lambda>b. 12 + length b) h) \<le> budget"
  shows "concat (bucket_window w budget (MAX_DATAGRAM_PAYLOAD - 1)) = w"
proof (rule bucket_window_all)
  have w: "map snd w = take (unat k - unat c) (drop (unat c) h)" using assms(1) unfolding covers_def by blast
  show "\<forall>e \<in> set w. length (snd e) \<le> 1179"
  proof
    fix e assume "e \<in> set w"
    then have "snd e \<in> set (map snd w)" by simp
    then have "snd e \<in> set h" unfolding w by (meson in_set_dropD in_set_takeD)
    with assms(2) show "length (snd e) \<le> 1179" by blast
  qed
  have "map entry_wire_len w = map (\<lambda>b. 12 + length b) (map snd w)" by (simp add: entry_wire_len_def)
  then have "sum_list (map entry_wire_len w) \<le> sum_list (map (\<lambda>b. 12 + length b) h)"
    unfolding w by (simp only: sum_list_part)
  with assms(3) show "sum_list (map entry_wire_len w) \<le> budget" by simp
qed

context steady_arrivals
begin

lemma preamble_arrives:
  assumes "apply_atomic bops" and "length h < 2 ^ 64" and "accepts bops g0 h"
    and "\<forall>b \<in> set h. length b \<le> 1179" and "sum_list (map (\<lambda>b. 12 + length b) h) \<le> budget"
    and "covers h c k w" and "subseq (preamble_datagrams w budget) ds" and "\<forall>d \<in> set (before @ ds). P d"
    and "c \<le> guarded (local_epoch (fold (handle_arrival bops) before (bob_new g0)))"
  shows "k \<le> guarded (local_epoch (fold (handle_arrival bops) (before @ ds) (bob_new g0)))"
proof -
  let ?b = "fold (handle_arrival bops) before (bob_new g0)"
  have ok: "bob_ok bops g0 h ?b" "bob_ok bops g0 h (fold (handle_arrival bops) ds ?b)"
    using bob_ok_new [of bops g0 h] arrivals_ok assms(8) by simp_all
  have "covers h c k (concat (bucket_window w budget (MAX_DATAGRAM_PAYLOAD - 1)))"
    using assms(6) covers_fits [OF assms(6,4,5)] by simp
  from block_arrives [OF assms(1-3) assms(7) [unfolded preamble_datagrams_def] _ _ ok(1) this] preamble_opens assms(8,9) ok
  show ?thesis unfolding bob_ok_def by simp
qed

end

lemma accepted_preamble:
  assumes "apply_atomic bops" and "length h < 2 ^ 64" and "accepts bops g0 h"
    and "\<forall>b \<in> set h. length b \<le> 1179" and "sum_list (map (\<lambda>b. 12 + length b) h) \<le> budget"
    and "covers h c k w" and "subseq (preamble_datagrams w budget) ds" and "\<forall>d \<in> set (before @ ds). carries h d"
    and "c \<le> guarded (local_epoch (fold (handle_arrival bops) before (bob_new g0)))"
  shows "k \<le> guarded (local_epoch (fold (handle_arrival bops) (before @ ds) (bob_new g0)))"
  by (rule genuine_steady.preamble_arrives [OF assms(1-7) _ assms(9)]) (use assms(1-3,8) in blast)

end
