(* ===== verification/Telemetry.thy ===== *)
theory Telemetry
  imports Runner_Alice Runner_Bob
begin

text \<open>
  The telemetry file (\<open>Telemetry::open\<close> and \<open>Telemetry::row\<close> in \<open>testbed-runner/src/main.rs\<close>): a header and a
  line of comma-separated fields for each row. The file system and the formatting of a floating-point number
  are parameters. Shown is that a reader that splits at line breaks and commas gets back every row of
  both programs, whose events and mode have neither.
\<close>

record ('w, 'e) file_ops =
  file_create :: "'w \<Rightarrow> ('e + unit) \<times> 'w"
  file_write_all :: "string \<Rightarrow> 'w \<Rightarrow> ('e + unit) \<times> 'w"
  file_flush :: "'w \<Rightarrow> ('e + unit) \<times> 'w"

text \<open>\<open>?\<close> between two calls.\<close>

definition and_next :: "('w \<Rightarrow> ('e + unit) \<times> 'w) \<Rightarrow> ('w \<Rightarrow> ('e + unit) \<times> 'w) \<Rightarrow> 'w \<Rightarrow> ('e + unit) \<times> 'w" where
  "and_next f g w = (case f w of (Inl e, w) \<Rightarrow> (Inl e, w) | (Inr _, w) \<Rightarrow> g w)"

definition newline :: char where
  "newline = CHR 0x0A"

definition telemetry_columns :: string where
  "telemetry_columns = ''timestamp_ms,event,epoch,bytes,latency_ms,mode''"

definition telemetry_open :: "('w, 'e) file_ops \<Rightarrow> 'w \<Rightarrow> ('e + unit) \<times> 'w" where
  "telemetry_open fs =
     and_next (file_create fs)
     (and_next (file_write_all fs (telemetry_columns @ [newline]))
     (file_flush fs))"

text \<open>The latency is in nanoseconds here; \<open>fmt\<close> is its \<open>{:.3}\<close> in milliseconds.\<close>

definition row_line :: "(duration \<Rightarrow> string) \<Rightarrow> row \<Rightarrow> string" where
  "row_line fmt r =
     decimal (timestamp_ms r) @ '','' @ event r @ '','' @ decimal (unat (row_epoch r)) @ '','' @
     decimal (unat (row_bytes r)) @ '','' @ fmt (latency r) @ '','' @ row_mode r"

definition telemetry_row :: "('w, 'e) file_ops \<Rightarrow> (duration \<Rightarrow> string) \<Rightarrow> row \<Rightarrow> 'w \<Rightarrow> ('e + unit) \<times> 'w" where
  "telemetry_row fs fmt r = and_next (file_write_all fs (row_line fmt r @ [newline])) (file_flush fs)"

text \<open>The calls of a program that writes these rows.\<close>

fun telemetry_calls :: "('w, 'e) file_ops \<Rightarrow> (duration \<Rightarrow> string) \<Rightarrow> row list \<Rightarrow> 'w \<Rightarrow> ('e + unit) \<times> 'w" where
  "telemetry_calls fs fmt [] w = (Inr (), w)"
| "telemetry_calls fs fmt (r # rs) w = and_next (telemetry_row fs fmt r) (telemetry_calls fs fmt rs) w"

subsection \<open>The file\<close>

text \<open>What the code relies on of the file system: a created file is empty, and a write that succeeds appends.\<close>

definition file_documented :: "('w, 'e) file_ops \<Rightarrow> ('w \<Rightarrow> string) \<Rightarrow> bool" where
  "file_documented fs contents \<longleftrightarrow>
     (\<forall>w v. file_create fs w = (Inr (), v) \<longrightarrow> contents v = [])
   \<and> (\<forall>s w v. file_write_all fs s w = (Inr (), v) \<longrightarrow> contents v = contents w @ s)
   \<and> (\<forall>w v. file_flush fs w = (Inr (), v) \<longrightarrow> contents v = contents w)"

lemma and_next_Inr: "and_next f g w = (Inr u, v) \<longleftrightarrow> (\<exists>x y. f w = (Inr x, y) \<and> g y = (Inr u, v))"
  by (auto simp: and_next_def split: prod.splits sum.splits)

lemma telemetry_open_contents:
  "file_documented fs contents \<Longrightarrow> telemetry_open fs w = (Inr (), v) \<Longrightarrow> contents v = telemetry_columns @ [newline]"
  by (auto simp: telemetry_open_def and_next_Inr file_documented_def)

lemma telemetry_calls_contents:
  "file_documented fs contents \<Longrightarrow> telemetry_calls fs fmt rs w = (Inr (), v) \<Longrightarrow>
     contents v = contents w @ concat (map (\<lambda>r. row_line fmt r @ [newline]) rs)"
  by (induction rs arbitrary: w)
    (auto simp: and_next_Inr telemetry_row_def file_documented_def)

subsection \<open>Reading it\<close>

fun split_on :: "char \<Rightarrow> string \<Rightarrow> string list" where
  "split_on c [] = [[]]"
| "split_on c (x # xs) =
     (if x = c then [] # split_on c xs
      else case split_on c xs of [] \<Rightarrow> [[x]] | y # ys \<Rightarrow> (x # y) # ys)"

lemma split_on_append: "c \<notin> set xs \<Longrightarrow> split_on c (xs @ c # ys) = xs # split_on c ys"
  by (induction xs) auto

lemma split_on_none: "c \<notin> set xs \<Longrightarrow> split_on c xs = [xs]"
  by (induction xs) auto

definition read_row :: "string \<Rightarrow> (nat \<times> string \<times> nat \<times> nat \<times> string \<times> string) option" where
  "read_row line =
     (case split_on (CHR '','') line of
        [a, ev, b, c, lat, m] \<Rightarrow> do {
          ms \<leftarrow> parse_uint (2 ^ 128) a;
          ep \<leftarrow> parse_uint (2 ^ 64) b;
          n \<leftarrow> parse_uint (2 ^ 64) c;
          Some (ms, ev, ep, n, lat, m)
        }
      | _ \<Rightarrow> None)"

definition read_telemetry :: "string \<Rightarrow> (nat \<times> string \<times> nat \<times> nat \<times> string \<times> string) option list option" where
  "read_telemetry s =
     (case split_on newline s of
        head # rest \<Rightarrow>
          if head = telemetry_columns \<and> rest \<noteq> [] \<and> last rest = [] then Some (map read_row (butlast rest)) else None
      | [] \<Rightarrow> None)"

definition row_fields :: "(duration \<Rightarrow> string) \<Rightarrow> row \<Rightarrow> nat \<times> string \<times> nat \<times> nat \<times> string \<times> string" where
  "row_fields fmt r = (timestamp_ms r, event r, unat (row_epoch r), unat (row_bytes r), fmt (latency r), row_mode r)"

text \<open>No field has a separator.\<close>

definition plain :: "string \<Rightarrow> bool" where
  "plain s \<longleftrightarrow> CHR '','' \<notin> set s \<and> newline \<notin> set s"

definition row_plain :: "row \<Rightarrow> bool" where
  "row_plain r \<longleftrightarrow> plain (event r) \<and> plain (row_mode r) \<and> timestamp_ms r < 2 ^ 128"

lemma decimal_plain: "plain (decimal n)"
proof -
  have "\<not> is_digit (CHR '','')" "\<not> is_digit newline" by (simp_all add: is_digit_def newline_def)
  with decimal_digits [of n] show ?thesis unfolding plain_def by blast
qed

lemma parse_decimal:
  assumes "n < limit"
  shows "parse_uint limit (decimal n) = Some n"
proof -
  have "\<not> is_digit (CHR ''+'')" by (simp add: is_digit_def)
  with decimal_digits [of n] have "hd (decimal n) \<noteq> CHR ''+''" by (metis hd_in_set)
  with decimal_digits [of n] parse_digits_decimal [OF assms] show ?thesis by (simp add: parse_uint_def)
qed

lemma read_row_line:
  assumes "row_plain r" and "plain (fmt (latency r))"
  shows "read_row (row_line fmt r) = Some (row_fields fmt r)"
proof -
  have "split_on (CHR '','') (row_line fmt r) = [decimal (timestamp_ms r), event r, decimal (unat (row_epoch r)),
      decimal (unat (row_bytes r)), fmt (latency r), row_mode r]"
    using assms decimal_plain unfolding row_plain_def plain_def
    by (simp add: row_line_def split_on_append split_on_none)
  moreover have "unat (row_epoch r) < 2 ^ 64" "unat (row_bytes r) < 2 ^ 64"
    using unat_lt2p [of "row_epoch r"] unat_lt2p [of "row_bytes r"] by simp_all
  ultimately show ?thesis
    using assms(1) unfolding row_plain_def by (simp add: read_row_def row_fields_def parse_decimal del: power_numeral)
qed

lemma row_line_newline:
  assumes "row_plain r" and "plain (fmt (latency r))"
  shows "newline \<notin> set (row_line fmt r)"
  using assms decimal_plain unfolding row_plain_def plain_def by (simp add: row_line_def newline_def)

lemma split_lines:
  "\<forall>l \<in> set ls. newline \<notin> set l \<Longrightarrow> split_on newline (concat (map (\<lambda>l. l @ [newline]) ls)) = ls @ [[]]"
  by (induction ls) (auto simp: split_on_append)

lemma read_telemetry_text:
  assumes "\<forall>r \<in> set rs. row_plain r \<and> plain (fmt (latency r))"
  shows "read_telemetry (telemetry_columns @ [newline] @ concat (map (\<lambda>r. row_line fmt r @ [newline]) rs))
    = Some (map (\<lambda>r. Some (row_fields fmt r)) rs)"
proof -
  have "newline \<notin> set telemetry_columns" by (simp add: telemetry_columns_def newline_def)
  moreover have "\<forall>l \<in> set (map (row_line fmt) rs). newline \<notin> set l" using assms row_line_newline by auto
  from split_lines [OF this] have "split_on newline (concat (map (\<lambda>r. row_line fmt r @ [newline]) rs)) = map (row_line fmt) rs @ [[]]"
    by (simp add: comp_def)
  moreover have "map read_row (map (row_line fmt) rs) = map (\<lambda>r. Some (row_fields fmt r)) rs"
    using assms read_row_line by auto
  ultimately show ?thesis by (simp add: read_telemetry_def split_on_append comp_def)
qed

subsection \<open>What the programs write\<close>

definition recorded :: "string set \<Rightarrow> ('w, 'z) runner_scheme \<Rightarrow> bool" where
  "recorded E st \<longleftrightarrow> (\<forall>r \<in> set (rows st). event r \<in> E \<and> row_mode r = mode)"

definition sender_events :: "string set" where
  "sender_events = commit_events \<union> send_events \<union> other_events"

definition receiver_events :: "string set" where
  "receiver_events = {''zero_rtt_available'', ''control_stream_0rtt'', ''control_stream_1rtt'', ''handshake_confirmed'',
     ''reconnect_handshake_confirmed'', ''done''}"

lemma plain_events: "ev \<in> sender_events \<union> receiver_events \<Longrightarrow> plain ev" "plain mode"
  by (auto simp: plain_def newline_def mode_def sender_events_def commit_events_def send_events_def other_events_def receiver_events_def)

lemma recorded_rows: "rows st' = rows st \<Longrightarrow> recorded E st' = recorded E st"
  by (simp add: recorded_def)

named_theorems recording_rules \<open>statements that write only rows of the given events\<close>

lemma recorded_ask [recording_rules]: "keeps (recorded E) (ask f)"
  by (rule keeps_ask) (simp add: recorded_def)

lemma recorded_set [recording_rules]: "(\<And>st. rows (f st) = rows st) \<Longrightarrow> keeps (recorded E) (set_state f)"
  by (rule keeps_set_state) (simp add: recorded_def)

lemma recorded_elapsed [recording_rules]: "keeps (recorded E) (elapsed env t)"
  unfolding elapsed_def by (intro keeping recording_rules)

lemma recorded_write [recording_rules]: "ev \<in> E \<Longrightarrow> keeps (recorded E) (write_telemetry env ev ep n lat)"
  unfolding write_telemetry_def Let_def
  by (intro keeping recording_rules keeps_set_state) (simp add: recorded_def)

lemma others_rows: "rows (fold (other_step bops) acts st) = rows st"
  by (induction acts arbitrary: st) (simp_all add: other_step_def split: other.split option.split)

lemma recorded_lock [recording_rules]: "keeps (recorded E) (lock_log env bops)"
  unfolding lock_log_def by (intro keeping recording_rules) (rule others_rows)

lemma recorded_send [recording_rules]: "keeps (recorded E) (alice_send_preamble env addr w budget)"
  by (auto simp: keeps_def alice_send_preamble_def Let_def recorded_def split: prod.split)

lemma recorded_create [recording_rules]: "keeps (recorded E) (unwrap_create_commit env aops bops)"
  unfolding keeps_triple
  by (rule triple_unwrap_create_commit) (simp_all add: recorded_def others_rows)

lemma recorded_commits:
  "keeps (recorded sender_events) (online_commit env aops bops args addr)"
  "keeps (recorded sender_events) (offline_commit env aops bops)"
  "keeps (recorded sender_events) (embed_transcript env bops args addr)"
  unfolding online_commit_def offline_commit_def embed_transcript_def lock_window_bytes_def
  by (intro keeping recording_rules; simp add: sender_events_def commit_events_def send_events_def)+

interpretation written: alice_invariant env aops bops args "recorded sender_events" "recorded sender_events"
  for env aops bops args
  by unfold_locales (auto simp: recorded_commits recording_rules simp flip: keeps_upholds,
      auto simp: recorded_def sender_events_def)

lemma run_alice_recorded:
  assumes "run_alice fuel env aops bops no_peer args (alice_start w g b) = (r, st)"
  shows "recorded sender_events st"
  by (rule keepsD [OF written.sender [folded keeps_upholds] _ assms]) (simp add: recorded_def alice_start_def)

lemma open_steps_rows: "rows (fold (open_step bops) acts st) = rows st"
  by (induction acts arbitrary: st) (simp_all add: open_step_def split: activity.split)

lemma run_bob_recorded:
  assumes "run_bob fuel env bops tpl args (bob_run_start w b) = (r, st)"
  shows "recorded receiver_events st"
proof -
  let ?I = "recorded receiver_events"
  note rules = keeping recording_rules
  have config: "keeps ?I (make_server_config env idle)" "keeps ?I (duration_add d d')" for idle d d'
    unfolding make_server_config_def transport_config_def duration_add_def Let_def by (intro keeping)+
  have arrivals: "keeps ?I (handle_arrivals env bops)" unfolding handle_arrivals_def by (intro rules) simp
  then have lock: "keeps ?I (lock_epoch env bops)" unfolding lock_epoch_def by (intro rules)
  have opened: "keeps ?I (connection_open env bops)" unfolding connection_open_def by (intro rules open_steps_rows)
  have start: "keeps ?I (start_incoming env tpl)" unfolding start_incoming_def by (intro rules) simp_all
  have serve: "keeps ?I (serve_connection env bops args t0 is_0rtt)" for t0 is_0rtt
    unfolding serve_connection_def Let_def by (intro rules lock opened; simp add: receiver_events_def)
  have cycle: "keeps ?I (bob_cycle env bops tpl args s0 idle)" for s0 idle
    unfolding bob_cycle_def Let_def by (intro rules serve config start) simp_all
  have "keeps ?I (run_bob fuel env bops tpl args)"
    unfolding run_bob_def by (intro rules cycle config) (simp_all add: receiver_events_def)
  from keepsD [OF this _ assms] show ?thesis by (simp add: recorded_def bob_run_start_def)
qed

text \<open>
  C16: The telemetry can be read back. Let the file system do what it documents, the formatting of a latency
  contain no separator, and the rows be those of any run of the sender or of the receiver, wherever it
  stopped, with timestamps of 128 bits. If opening the file and writing the rows succeeds, then a reader that
  splits the file at line breaks and commas finds the header and in every line the six fields of the row:
  its numbers, its event, its latency as formatted, and its mode.
\<close>

theorem telemetry_readable:
  assumes "file_documented fs contents" and "\<forall>d. plain (fmt d)"
    and "rs = rows sa \<and> run_alice fuel aenv aops bops no_peer args (alice_start w g b) = (ra, sa)
       \<or> rs = rows sb \<and> run_bob fuel benv bops tpl args (bob_run_start v b) = (rb, sb)"
    and "\<forall>r \<in> set rs. timestamp_ms r < 2 ^ 128"
    and "telemetry_open fs f0 = (Inr (), f1)" and "telemetry_calls fs fmt rs f1 = (Inr (), f2)"
  shows "read_telemetry (contents f2) = Some (map (\<lambda>r. Some (row_fields fmt r)) rs)"
proof -
  have "\<forall>r \<in> set rs. event r \<in> sender_events \<union> receiver_events \<and> row_mode r = mode"
    using assms(3)
  proof (elim disjE conjE)
    assume "rs = rows sa" and run: "run_alice fuel aenv aops bops no_peer args (alice_start w g b) = (ra, sa)"
    with run_alice_recorded [OF run] show ?thesis by (simp add: recorded_def)
  next
    assume "rs = rows sb" and run: "run_bob fuel benv bops tpl args (bob_run_start v b) = (rb, sb)"
    with run_bob_recorded [OF run] show ?thesis by (simp add: recorded_def)
  qed
  then have "\<forall>r \<in> set rs. row_plain r \<and> plain (fmt (latency r))"
    using assms(2,4) plain_events unfolding row_plain_def by metis
  from read_telemetry_text [OF this] show ?thesis
    by (simp add: telemetry_calls_contents [OF assms(1,6)] telemetry_open_contents [OF assms(1,5)])
qed

definition sample_fs :: "(string, string) file_ops" where
  "sample_fs = \<lparr>file_create = (\<lambda>w. (Inr (), [])), file_write_all = (\<lambda>s w. (Inr (), w @ s)), file_flush = (\<lambda>w. (Inr (), w))\<rparr>"

lemma sample_file:
  "\<exists>f. telemetry_open sample_fs [] = (Inr (), telemetry_columns @ [newline])
     \<and> telemetry_calls sample_fs decimal rs (telemetry_columns @ [newline]) = (Inr (), f)"
proof -
  have "\<exists>f. telemetry_calls sample_fs decimal rs w = (Inr (), f)" for w
    by (induction rs arbitrary: w) (simp_all add: and_next_def telemetry_row_def sample_fs_def)
  then show ?thesis by (simp add: telemetry_open_def and_next_def sample_fs_def)
qed

lemma sample_alice_times:
  "(\<forall>r \<in> set (rows (snd sample_alice_run)). timestamp_ms r = 0)
   \<and> \<lparr>timestamp_ms = 0, event = ''done'', row_epoch = 1, row_bytes = 0, latency = 0, row_mode = mode\<rparr>
      \<in> set (rows (snd sample_alice_run))"
  by (simp add: sample_alice_run_def run_alice_def sample_args_def alice_start_def commit_log_new_def btree_new_def bob_new_def run_simps sample_alice_env_def duration_add_def duration_MAX_def from_secs_def mutex_new_def)
    (simp add: alice_defs run_simps instant_add_def instant_END_def sample_ready [simplified] Let_def sample_log_simps(2-) sample_send)

lemma decimal_0: "decimal 0 = ''0''"
proof -
  have "(char_of (48 :: nat) :: char) = CHR ''0''" by code_simp
  then show ?thesis by (simp add: decimal.simps [of 0])
qed

lemma telemetry_readable_witness:
  "\<exists>f. telemetry_calls sample_fs decimal (rows (snd sample_alice_run)) (telemetry_columns @ [newline]) = (Inr (), f)
     \<and> (\<exists>ls. read_telemetry f = Some ls \<and> Some (0, ''done'', 1, 0, ''0'', ''0rtt'') \<in> set ls)"
proof -
  have fs: "file_documented sample_fs (\<lambda>w. w)" by (simp add: file_documented_def sample_fs_def)
  have fmt: "\<forall>d. plain (decimal d)" by (simp add: decimal_plain)
  obtain f where f: "telemetry_open sample_fs [] = (Inr (), telemetry_columns @ [newline])"
    "telemetry_calls sample_fs decimal (rows (snd sample_alice_run)) (telemetry_columns @ [newline]) = (Inr (), f)"
    using sample_file by blast
  have "\<forall>r \<in> set (rows (snd sample_alice_run)). timestamp_ms r < 2 ^ 128" using sample_alice_times by simp
  from telemetry_readable [OF fs fmt disjI1 [OF conjI [OF refl sample_alice_eq]] this f]
  have "read_telemetry f = Some (map (\<lambda>r. Some (row_fields decimal r)) (rows (snd sample_alice_run)))" .
  moreover have "Some (0, ''done'', 1, 0, ''0'', ''0rtt'') \<in> set (map (\<lambda>r. Some (row_fields decimal r)) (rows (snd sample_alice_run)))"
    using imageI [OF conjunct2 [OF sample_alice_times], of "\<lambda>r. Some (row_fields decimal r)"]
    by (simp add: row_fields_def mode_def decimal_0)
  ultimately show ?thesis using f(2) by blast
qed

end
