(* ===== verification/Runners_Terminate.thy ===== *)
theory Runners_Terminate
  imports Runner_Alice Runner_Bob "HOL-Library.Product_Order"
begin

text \<open>
  Both runners of the testbed come to an end. Every wait of the code is a future that may never complete
  (\<open>await\<close>, in \<open>Runtime\<close>); those of the reconnections, of \<open>accept\<close> and of \<open>accept_bi\<close> do so under a timeout and are
  left free, the others are assumed to complete: the first handshake of Alice, the handshake and the end
  of an accepted connection, which QUIC bounds by its idle timeout, and the calls into the file system and the socket.

  No hypothesis makes time pass between two readings. What takes the sender to the end of its scenario are the ticks of its
  ticker, each due a period after the one before, and the waits for the ready file, each of which takes the
  report timeout or finds a later cycle. What takes the receiver there is that a connection is needed for each
  cycle, and the timeout of \<open>accept\<close> when no further one comes.
\<close>

subsection \<open>The sender\<close>

text \<open>
  Calls that do not turn back a measure of the world, for the time and, but for a new ticker, for the instant
  at which the next tick is due.
\<close>

definition quiet :: "('w, 'e, 'a) alice_env \<Rightarrow> ('w \<Rightarrow> 'm :: order) \<Rightarrow> bool" where
  "quiet env \<tau> \<longleftrightarrow> advances \<tau> (now env) \<and> (\<forall>d. advances \<tau> (sleep env d)) \<and> advances \<tau> (read_ready env)
     \<and> advances \<tau> (unix_ms env) \<and> advances \<tau> (open_telemetry env) \<and> (\<forall>line. advances \<tau> (write_row env line))
     \<and> advances \<tau> (bind_socket env) \<and> advances \<tau> (new_endpoint env) \<and> (\<forall>d. advances \<tau> (deadline_first env d))
     \<and> advances \<tau> (others env) \<and> (\<forall>first cfg. advances \<tau> (connect env first cfg))
     \<and> (\<forall>first. advances \<tau> (zero_rtt_accepted env first)) \<and> (\<forall>d. advances \<tau> (tick_first env d))
     \<and> (\<forall>d addr. advances \<tau> (\<lambda>w. send_to env w d addr)) \<and> advances \<tau> (force_key_update env)
     \<and> advances \<tau> (close_connection env)"

lemma quietD:
  assumes "quiet env \<tau>"
  shows "advances \<tau> (now env)" "advances \<tau> (sleep env d)" "advances \<tau> (read_ready env)" "advances \<tau> (unix_ms env)"
    "advances \<tau> (open_telemetry env)" "advances \<tau> (write_row env line)" "advances \<tau> (bind_socket env)"
    "advances \<tau> (new_endpoint env)" "advances \<tau> (deadline_first env d)" "advances \<tau> (others env)"
    "advances \<tau> (connect env first cfg)" "advances \<tau> (zero_rtt_accepted env first)" "advances \<tau> (tick_first env d)"
    "advances \<tau> (\<lambda>w. send_to env w dg addr)" "advances \<tau> (force_key_update env)" "advances \<tau> (close_connection env)"
  using assms unfolding quiet_def by blast+

text \<open>
  The environment of the sender. \<open>time\<close> is the clock and \<open>due\<close> the instant of the ticker's next tick. A ticker of period \<open>p\<close> is
  due at once or later when it is made, and a tick comes no earlier than it is due and leaves the next one due a period after that,
  or later (\<open>tokio::time::interval\<close>, with \<open>MissedTickBehavior::Delay\<close>).
\<close>

definition ticks :: "('w, 'e, 'a) alice_env \<Rightarrow> duration \<Rightarrow> ('w \<Rightarrow> duration) \<Rightarrow> ('w \<Rightarrow> duration) \<Rightarrow> bool" where
  "ticks env p time due \<longleftrightarrow>
     (\<forall>w r w'. new_interval env p w = (r, w') \<longrightarrow> time w \<le> time w' \<and> (r \<noteq> None \<longrightarrow> 0 < p \<and> time w \<le> due w'))
     \<and> (\<forall>d w w'. tick_first env d w = (True, w') \<longrightarrow> due w \<le> time w' \<and> due w + p \<le> due w')"

definition timely :: "('w, 'e, 'a) alice_env \<Rightarrow> duration \<Rightarrow> ('w \<Rightarrow> duration) \<Rightarrow> ('w \<Rightarrow> duration) \<Rightarrow> bool" where
  "timely env p time due \<longleftrightarrow> clock_documented env time \<and> quiet env time \<and> quiet env due \<and> ticks env p time due
     \<and> (\<forall>cfg. completes (connect env True cfg)) \<and> completes (zero_rtt_accepted env True)"

lemma timelyD:
  assumes "timely env p time due"
  shows "clock_documented env time" "quiet env time" "quiet env due" "ticks env p time due"
    "completes (connect env True cfg)" "completes (zero_rtt_accepted env True)"
  using assms unfolding timely_def by blast+

lemma advances_pair: "advances \<tau> f \<Longrightarrow> advances \<sigma> f \<Longrightarrow> advances (\<lambda>w. (\<tau> w, \<sigma> w)) f"
  by (simp add: advances_def less_eq_prod_def)

lemma quiet_pair: "quiet env \<tau> \<Longrightarrow> quiet env \<sigma> \<Longrightarrow> quiet env (\<lambda>w. (\<tau> w, \<sigma> w))"
  unfolding quiet_def by (blast intro: advances_pair)

text \<open>The measure of a state: that of the world, and the cycle last seen in the ready file.\<close>

definition gauge :: "('w \<Rightarrow> 'm) \<Rightarrow> ('w, 'g, 'b) alice_run \<Rightarrow> 'm \<times> u64" where
  "gauge \<tau> s = (\<tau> (world s), last_ready_seen s)"

lemma gauge_le [simp]:
  "(gauge \<tau> s \<le> gauge \<tau> t) = (\<tau> (world s) \<le> \<tau> (world t) \<and> last_ready_seen s \<le> last_ready_seen t)"
  "((x, c) \<le> gauge \<tau> s) = (x \<le> \<tau> (world s) \<and> c \<le> last_ready_seen s)"
  by (simp_all add: gauge_def)

lemma gauge_ask: "advances \<tau> f \<Longrightarrow> passes (gauge \<tau>) t0 (ask f)"
  by (rule passes_ask) simp_all

lemma gauge_keeps: "advances \<tau> f \<Longrightarrow> keeps (\<lambda>s. k \<le> gauge \<tau> s) (ask f)"
  by (auto simp: keeps_def run_simps advances_def intro: order_trans split: prod.split)

text \<open>The statements.\<close>

lemma others_apart [simp]:
  "world (fold (other_step bops) acts s) = world s" (is ?w)
  "last_ready_seen (fold (other_step bops) acts s) = last_ready_seen s" (is ?c)
proof -
  have *: "world (other_step bops a s) = world s \<and> last_ready_seen (other_step bops a s) = last_ready_seen s" for a s
    by (simp add: other_step_def split: other.split option.split)
  have "?w \<and> ?c" by (induction acts arbitrary: s) (simp_all add: *)
  then show ?w ?c by simp_all
qed

lemma sends_quiet:
  "quiet env \<tau> \<Longrightarrow> sends (recording (send_to env)) addr u ds = (ds', r, v) \<Longrightarrow> \<tau> (fst u) \<le> \<tau> (fst v)"
proof (induction ds arbitrary: u ds')
  case (Cons d ds)
  obtain q w where q: "send_to env (fst u) d addr = (q, w)" by (cases "send_to env (fst u) d addr")
  with quietD(14) [OF Cons.prems(1)] have le: "\<tau> (fst u) \<le> \<tau> w" by (simp add: advances_def)
  show ?case
  proof (cases q)
    case (Inr n)
    with Cons.prems(2) q obtain es where "sends (recording (send_to env)) addr (w, snd u @ [d]) ds = (es, r, v)"
      by (auto simp: recording_def [of _ u] split: prod.splits)
    from Cons.IH [OF Cons.prems(1) this] le show ?thesis by (auto intro: order_trans)
  qed (use Cons.prems(2) q le in \<open>auto simp: recording_def\<close>)
qed simp

lemma passes_send:
  assumes "quiet env \<tau>"
  shows "passes (gauge \<tau>) t0 (alice_send_preamble env addr window budget)"
proof (rule passesI)
  fix s x t
  assume run: "alice_send_preamble env addr window budget s = (Inr x, t)"
  obtain ds q u where s: "sends (recording (send_to env)) addr (world s, wire s) (preamble_datagrams window budget) = (ds, q, u)"
    by (metis prod_cases3)
  from sends_quiet [OF assms s] run show "gauge \<tau> s \<le> gauge \<tau> t"
    by (auto simp: alice_send_preamble_eq s)
qed (simp add: alice_send_preamble_def Let_def split: prod.splits)

lemma passes_durations: "passes \<mu> t0 (duration_add a b)" "passes \<mu> t0 (instant_add a b)"
  unfolding duration_add_def instant_add_def by (intro passing)+

lemma passes_client_config: "passes \<mu> t0 (make_client_config env idle)"
  unfolding transport_config_def make_client_config_def Let_def by (intro passing)

lemma keeps_config: "keeps I (make_client_config env idle)"
  unfolding transport_config_def make_client_config_def Let_def by (intro keeping)

lemma passes_statements:
  assumes "quiet env \<tau>"
  shows "passes (gauge \<tau>) t0 (elapsed env t)" "passes (gauge \<tau>) t0 (write_telemetry env ev ep n lat)"
    "passes (gauge \<tau>) t0 (lock_log env bops)" "passes (gauge \<tau>) t0 (unwrap_create_commit env aops bops)"
proof -
  note statements = passing gauge_ask quietD [OF assms]
  show "passes (gauge \<tau>) t0 (elapsed env t)" unfolding elapsed_def by (intro statements)
  show "passes (gauge \<tau>) t0 (write_telemetry env ev ep n lat)"
    unfolding write_telemetry_def Let_def by (intro statements passes_set_state) simp
  show lock: "passes (gauge \<tau>) t0 (lock_log env bops)" for t0
    unfolding lock_log_def by (intro statements passes_set_state) simp
  show "passes (gauge \<tau>) t0 (unwrap_create_commit env aops bops)"
    unfolding unwrap_create_commit_def by (intro statements lock passes_set_state) simp_all
qed

lemma passes_open_control:
  assumes "quiet env \<tau>" and "\<And>cfg. completes (connect env first cfg)"
  shows "passes (gauge \<tau>) t0 (open_control env first idle)"
  unfolding open_control_def
proof (intro passing passes_client_config gauge_ask quietD(11) [OF assms(1)] assms(2))
  show "passes (gauge \<tau>) t0 (case r of Opened \<Rightarrow> pure (Inr ()) | OpenError e \<Rightarrow> pure (Inl e)
      | NoEarlyKeys \<Rightarrow> halt (Panicked ''0-RTT keys not available''))" for r
    by (cases r) (simp_all add: passing)
qed

lemma keeps_open_control:
  assumes "quiet env \<tau>"
  shows "keeps (\<lambda>s. k \<le> gauge \<tau> s) (open_control env first idle)"
  unfolding open_control_def
proof (intro keeping keeps_config gauge_keeps quietD(11) [OF assms])
  show "keeps I (case r of Opened \<Rightarrow> pure (Inr ()) | OpenError e \<Rightarrow> pure (Inl e)
      | NoEarlyKeys \<Rightarrow> halt (Panicked ''0-RTT keys not available''))" for I r
    by (cases r) (simp_all add: keeping)
qed

lemma passes_connection:
  assumes "quiet env \<tau>" and "\<And>cfg. completes (connect env True cfg)" and "completes (zero_rtt_accepted env True)"
  shows "passes (gauge \<tau>) t0 (first_connection env idle t)"
    "passes (gauge \<tau>) t0 (reconnection env bops args addr idle t)"
proof -
  note statements = passing gauge_ask quietD [OF assms(1)] passes_statements [OF assms(1)] passes_send [OF assms(1)]
    passes_open_control [OF assms(1)] assms(2,3)
  show "passes (gauge \<tau>) t0 (first_connection env idle t)"
    unfolding first_connection_def Let_def by (intro statements)
  have "passes (gauge \<tau>) t0 (connect_under_timeout env d idle)" for d
    unfolding connect_under_timeout_def
    by (intro statements keeping keeps_open_control [OF assms(1)] gauge_keeps)
  then show "passes (gauge \<tau>) t0 (reconnection env bops args addr idle t)"
    unfolding reconnection_def embed_transcript_def lock_window_bytes_def Let_def by (intro statements)
qed

lemma passes_commits:
  assumes "quiet env \<tau>"
  shows "passes (gauge \<tau>) t0 (online_commit env aops bops args addr)"
    "passes (gauge \<tau>) t0 (offline_commit env aops bops)" "passes (gauge \<tau>) t0 (phase_open env args start phase_start len)"
proof -
  note statements = passing gauge_ask quietD [OF assms] passes_statements [OF assms] passes_send [OF assms]
  show "passes (gauge \<tau>) t0 (online_commit env aops bops args addr)"
    unfolding online_commit_def lock_window_bytes_def by (intro statements passes_set_state) simp
  show "passes (gauge \<tau>) t0 (offline_commit env aops bops)"
    unfolding offline_commit_def by (intro statements passes_set_state) simp
  show "passes (gauge \<tau>) t0 (phase_open env args start phase_start len)"
    unfolding phase_open_def by (intro statements)
qed

subsection \<open>A phase of commits\<close>

text \<open>After the condition of a phase the scenario is not over.\<close>

lemma phase_open_in_scenario:
  assumes "clock_documented env time"
  shows "triple (\<lambda>_. True) (phase_open env args start phase_start len)
    (\<lambda>go s. go \<longrightarrow> time (world s) < start + duration args) (\<lambda>_ _. True)"
  unfolding triple_def phase_open_def run_simps
  by (auto split: prod.split dest!: clock_documentedD(1) [OF assms])

text \<open>What is known of the next tick: no later than \<open>d\<close>, and after a tick at \<open>d\<close> a period later.\<close>

lemma tick_triple:
  assumes "ticks env p time due" and "quiet env due"
  shows "triple (\<lambda>s. until - due (world s) \<le> k) (ask (tick_first env deadline))
    (\<lambda>tick s. tick \<longrightarrow> (\<exists>d. d \<le> time (world s) \<and> d + p \<le> due (world s) \<and> until - d \<le> k)) (\<lambda>_ _. True)"
proof -
  have "\<exists>d. d \<le> time w' \<and> d + p \<le> due w' \<and> until - d \<le> k"
    if "until - due w \<le> k" and "tick_first env deadline w = (True, w')" for w w'
    using assms(1) that unfolding ticks_def by blast
  then show ?thesis unfolding triple_def run_simps by (auto split: prod.split)
qed

lemma passes_ticking:
  assumes clock: "clock_documented env time" and quiet: "quiet env time" "quiet env due" and ticks: "ticks env p time due"
    and p: "0 < p" and commit: "\<And>t0. passes (gauge (\<lambda>w. (time w, due w))) t0 commit" and fuel: "duration args < fuel"
  shows "passes (gauge (\<lambda>w. (time w, due w))) ((start, start), c) (repeat fuel (
       and_then (phase_open env args start phase_start len) (\<lambda>go.
       if \<not> go then pure (Break ())
       else
         and_then (ask (tick_first env deadline)) (\<lambda>tick.
         if \<not> tick then pure (Break ())
         else
           and_then (phase_open env args start phase_start len) (\<lambda>go.
           if \<not> go then pure (Break ())
           else and_then commit (\<lambda>_. pure Continue))))))"
    (is "passes ?\<mu> ?t0 (repeat fuel ?body)")
proof (rule passes_repeat)
  note both = quiet_pair [OF quiet]
  let ?until = "start + duration args"
  let ?\<delta> = "\<lambda>s. ?until - due (world s)"
  show "passes ?\<mu> ?t0 ?body"
    by (intro passing gauge_ask quietD(13) [OF both] passes_commits(3) [OF both] commit)
  show "?t0 \<le> ?\<mu> s \<Longrightarrow> ?\<delta> s < fuel" for s using fuel by simp linarith
  show "triple (\<lambda>s. ?t0 \<le> ?\<mu> s \<and> ?\<delta> s = k) ?body (\<lambda>c s. c = Continue \<longrightarrow> ?\<delta> s < k) (\<lambda>_ _. True)" for k
  proof -
    let ?T = "\<lambda>s. \<exists>d. d \<le> time (world s) \<and> d + p \<le> due (world s) \<and> ?until - d \<le> k"
    have stop: "triple P (pure (Break ())) (\<lambda>c s. c = Continue \<longrightarrow> ?\<delta> s < k) (\<lambda>_ _. True)" for P
      by (rule triple_pure) simp
    have open_phase: "triple U (phase_open env args start phase_start len)
        (\<lambda>go s. U s \<and> (go \<longrightarrow> time (world s) < ?until)) (\<lambda>_ _. True)"
      if "\<And>s t. U s \<Longrightarrow> ?\<mu> s \<le> ?\<mu> t \<Longrightarrow> U t" for U
      using triple_both [OF passes_stable [OF passes_commits(3) [OF both] that]
          phase_open_in_scenario [OF clock, of args start phase_start len]]
      by simp
    have commits: "triple (\<lambda>s. ?T s \<and> time (world s) < ?until) (and_then commit (\<lambda>_. pure Continue))
        (\<lambda>c s. c = Continue \<longrightarrow> ?\<delta> s < k) (\<lambda>_ _. True)"
    proof (rule triple_conseq)
      show "triple (\<lambda>s. ?\<delta> s < k) (and_then commit (\<lambda>_. pure Continue)) (\<lambda>_ s. ?\<delta> s < k) (\<lambda>_ _. True)"
        by (rule triple_and_then [OF passes_stable [OF commit]]) (auto intro: triple_pure)
    qed (use p in auto)
    have second: "triple ?T (and_then (phase_open env args start phase_start len) (\<lambda>go.
           if \<not> go then pure (Break ()) else and_then commit (\<lambda>_. pure Continue)))
        (\<lambda>c s. c = Continue \<longrightarrow> ?\<delta> s < k) (\<lambda>_ _. True)"
    proof (rule triple_and_then [OF open_phase], goal_cases)
      case (1 s t)
      then obtain d where "d \<le> time (world s)" "d + p \<le> due (world s)" "?until - d \<le> k" by blast
      with 1(2) show ?case by (auto intro!: exI [of _ d])
    next
      case (2 go)
      show ?case using commits stop by (cases go) auto
    qed
    show ?thesis
    proof (rule triple_and_then [of _ _ "\<lambda>_ s. ?\<delta> s \<le> k"], goal_cases)
      case 1
      show ?case by (rule triple_conseq [OF open_phase [of "\<lambda>s. ?\<delta> s \<le> k"]]) auto
    next
      case (2 go)
      have "triple (\<lambda>s. ?\<delta> s \<le> k) (and_then (ask (tick_first env deadline)) (\<lambda>tick.
         if \<not> tick then pure (Break ())
         else and_then (phase_open env args start phase_start len) (\<lambda>go.
           if \<not> go then pure (Break ()) else and_then commit (\<lambda>_. pure Continue))))
        (\<lambda>c s. c = Continue \<longrightarrow> ?\<delta> s < k) (\<lambda>_ _. True)"
      proof (rule triple_and_then [OF tick_triple [OF ticks quiet(2)]])
        show "triple (\<lambda>s. tick \<longrightarrow> ?T s) (if \<not> tick then pure (Break ())
         else and_then (phase_open env args start phase_start len) (\<lambda>go.
           if \<not> go then pure (Break ()) else and_then commit (\<lambda>_. pure Continue)))
         (\<lambda>c s. c = Continue \<longrightarrow> ?\<delta> s < k) (\<lambda>_ _. True)" for tick
          using second stop by (cases tick) simp_all
      qed
      then show ?case using stop by (cases go) simp_all
    qed
  qed
qed

lemma passes_commit_phase:
  assumes "timely env (commit_interval args) time due"
    and commit: "\<And>t0. passes (gauge (\<lambda>w. (time w, due w))) t0 commit" and fuel: "duration args < fuel"
  shows "passes (gauge time) (start, c) (commit_phase fuel env args start phase_start len commit)"
proof (rule passes_triples)
  fix x :: "duration \<times> u64"
  obtain xt xc where x: "x = (xt, xc)" by (cases x)
  note env = timelyD [OF assms(1)]
  let ?p = "commit_interval args"
  let ?\<mu> = "gauge (\<lambda>w. (time w, due w))"
  let ?U = "\<lambda>s. ((start, start), c) \<le> ?\<mu> s \<and> x \<le> gauge time s"
  let ?rest = "and_then (instant_add start (duration args)) (\<lambda>end_of_scenario.
     and_then (instant_add phase_start len) (\<lambda>end_of_phase.
     let deadline = min end_of_scenario end_of_phase in
     repeat fuel (
       and_then (phase_open env args start phase_start len) (\<lambda>go.
       if \<not> go then pure (Break ())
       else
         and_then (ask (tick_first env deadline)) (\<lambda>tick.
         if \<not> tick then pure (Break ())
         else
           and_then (phase_open env args start phase_start len) (\<lambda>go.
           if \<not> go then pure (Break ())
           else and_then commit (\<lambda>_. pure Continue)))))))"
  have "(r \<noteq> None \<longrightarrow> 0 < ?p \<and> time w \<le> due w') \<and> time w \<le> time w'" if "new_interval env ?p w = (r, w')" for w r w'
    using env(4) that unfolding ticks_def by blast
  then have ticker: "triple (\<lambda>s. (start, c) \<le> gauge time s \<and> x \<le> gauge time s) (ask (new_interval env ?p))
      (\<lambda>r s. r \<noteq> None \<longrightarrow> 0 < ?p \<and> ?U s) (\<lambda>e _. e \<noteq> Running)"
    by (fastforce simp: x triple_def run_simps split: prod.split)
  have rest: "triple ?U ?rest (\<lambda>_. ?U) (\<lambda>e _. e \<noteq> Running)" if "0 < ?p"
    by (rule passes_triple [of ?\<mu> "((start, start), c)"], unfold Let_def,
        intro passing passes_durations passes_ticking [OF env(1-4) that commit fuel])
      (auto simp: x)
  show "triple (\<lambda>s. (start, c) \<le> gauge time s \<and> x \<le> gauge time s)
      (commit_phase fuel env args start phase_start len commit) (\<lambda>_ s. x \<le> gauge time s) (\<lambda>e _. e \<noteq> Running)"
    unfolding commit_phase_def
  proof (rule triple_and_then [OF ticker])
    fix r :: "unit option"
    have expected: "triple (\<lambda>s. r \<noteq> None \<longrightarrow> 0 < ?p \<and> ?U s) (expect ''period must be non-zero'' r)
        (\<lambda>_ s. ?U s \<and> 0 < ?p) (\<lambda>e _. e \<noteq> Running)"
      by (auto simp: triple_def run_simps split: option.split)
    show "triple (\<lambda>s. r \<noteq> None \<longrightarrow> 0 < ?p \<and> ?U s) (and_then (expect ''period must be non-zero'' r) (\<lambda>_. ?rest))
        (\<lambda>_ s. x \<le> gauge time s) (\<lambda>e _. e \<noteq> Running)"
      by (rule triple_and_then [OF expected], rule triple_given, rule triple_conseq [OF rest]) auto
  qed
qed

subsection \<open>The wait for the ready file, and the cycles\<close>

abbreviation await_ready ::
    "nat \<Rightarrow> ('w, 'e, 'a) alice_env \<Rightarrow> 'a Args \<Rightarrow> ('w, 'g, 'b, 'e, unit) alice_program" where
  "await_ready fuel env args \<equiv>
     and_then (get_state last_ready_seen) (\<lambda>seen.
     and_then (zoom_world (wait_for_ready fuel env seen 20000000 (report_timeout args))) (\<lambda>seen.
     set_state (\<lambda>st. st\<lparr>last_ready_seen := seen, a_cycle := a_cycle st + 1\<rparr>)))"

lemma await_ready_progress:
  fixes env :: "('w, 'e, 'a) alice_env" and s :: "('w, 'g, 'b) alice_run"
  assumes "clock_documented env time" and "report_timeout args < fuel"
  shows "\<exists>t. await_ready fuel env args s = (Inr (), t) \<and> time (world s) \<le> time (world t) \<and>
    (last_ready_seen s < last_ready_seen t
     \<or> last_ready_seen t = last_ready_seen s \<and> time (world s) + report_timeout args \<le> time (world t))"
proof -
  let ?wait = "wait_for_ready fuel env (last_ready_seen s) 20000000 (report_timeout args) (world s) :: ('e stop + u64) \<times> 'w"
  obtain r w where wait: "?wait = (r, w)" by (cases ?wait)
  have "case r of Inr c \<Rightarrow> time (world s) \<le> time w \<and> (last_ready_seen s < c
      \<or> c = last_ready_seen s \<and> time (world s) + report_timeout args \<le> time w) | Inl e \<Rightarrow> False"
  proof (cases r)
    case (Inr c)
    from tripleD [OF wait_for_ready_ends [OF assms(1), of 20000000 "report_timeout args" fuel "time (world s)"] _ wait [unfolded Inr]]
    show ?thesis using assms(2) Inr by simp
  next
    case (Inl e)
    from tripleE [OF wait_for_ready_ends [OF assms(1), of 20000000 "report_timeout args" fuel "time (world s)"] _ wait [unfolded Inl]]
    show ?thesis using assms(2) by simp
  qed
  with wait show ?thesis by (auto simp: run_simps split: sum.splits)
qed

lemma passes_await_ready:
  assumes "clock_documented env time" and "report_timeout args < fuel"
  shows "passes (gauge time) t0 (await_ready fuel env args)"
proof (rule passesI)
  fix s :: "('a, 'd, 'e) alice_run" and x t
  assume "await_ready fuel env args s = (Inr x, t)"
  then show "gauge time s \<le> gauge time t" using await_ready_progress [OF assms, of s] by auto
next
  fix s :: "('a, 'd, 'e) alice_run" and e t
  assume "await_ready fuel env args s = (Inl e, t)"
  then show "e \<noteq> Running" using await_ready_progress [OF assms, of s] by auto
qed

text \<open>
  Each cycle begins within the scenario and then takes the report timeout or sees a later cycle in the ready file.
\<close>

lemma passes_alice_cycle:
  assumes "timely env (commit_interval args) time due" and "0 < report_timeout args"
    and fuel: "duration args + report_timeout args + 2 ^ 64 < fuel"
  shows "passes (gauge time) (start, c) (repeat fuel (alice_cycle fuel env aops bops args addr start idle))"
proof (rule passes_repeat)
  note env = timelyD [OF assms(1)]
  note both = quiet_pair [OF env(2,3)]
  have bounds: "duration args < fuel" "report_timeout args < fuel" using fuel by simp_all
  let ?\<mu> = "gauge time" and ?t0 = "(start, c)"
  let ?until = "start + duration args"
  let ?\<delta> = "\<lambda>s. ?until + 2 ^ 64 - (time (world s) + unat (last_ready_seen s))"
  let ?rest = "and_then (ask (now env)) (\<lambda>t0.
     and_then (get_state a_cycle) (\<lambda>cycle.
     and_then (if cycle = 1
               then and_then (first_connection env idle t0) (\<lambda>_. pure True)
               else reconnection env bops args addr idle t0) (\<lambda>connected.
     if connected then contact_and_blackout fuel env aops bops args addr start
     else pure Continue)))"
  have window: "alice_window fuel env aops bops args addr start idle = and_then (await_ready fuel env args) (\<lambda>_. ?rest)"
    by (simp only: alice_window_def and_then_assoc)
  note statements = passing gauge_ask quietD [OF env(2)] passes_statements [OF env(2)] passes_connection [OF env(2,5,6)]
    passes_commit_phase [OF assms(1) _ bounds(1)] passes_commits [OF both]
  have rest: "passes ?\<mu> ?t0 ?rest"
    unfolding contact_and_blackout_def by (intro statements)
  show "passes ?\<mu> ?t0 (alice_cycle fuel env aops bops args addr start idle)"
    unfolding alice_cycle_def window by (intro statements rest passes_await_ready [OF env(1) bounds(2)])
  show "?t0 \<le> ?\<mu> s \<Longrightarrow> ?\<delta> s < fuel" for s using fuel by simp linarith
  show "triple (\<lambda>s. ?t0 \<le> ?\<mu> s \<and> ?\<delta> s = k) (alice_cycle fuel env aops bops args addr start idle)
      (\<lambda>c s. c = Continue \<longrightarrow> ?\<delta> s < k) (\<lambda>_ _. True)" for k
    unfolding alice_cycle_def window
  proof (rule triple_and_then)
    let ?U = "\<lambda>s. ?t0 \<le> ?\<mu> s \<and> ?\<delta> s \<le> k"
    show "triple (\<lambda>s. ?t0 \<le> ?\<mu> s \<and> ?\<delta> s = k) (elapsed env start)
        (\<lambda>t s. ?U s \<and> (t < duration args \<longrightarrow> time (world s) < ?until)) (\<lambda>_ _. True)"
      by (fastforce simp: triple_def run_simps split: prod.split dest!: clock_documentedD(1) [OF env(1)])
    have ready: "triple (\<lambda>s. ?U s \<and> time (world s) < ?until) (await_ready fuel env args)
        (\<lambda>_ s. ?t0 \<le> ?\<mu> s \<and> ?\<delta> s < k) (\<lambda>_ _. True)"
      unfolding triple_def
    proof (intro allI impI, elim conjE)
      fix s
      assume t0: "?t0 \<le> ?\<mu> s" and k: "?\<delta> s \<le> k" and in_scenario: "time (world s) < ?until"
      from await_ready_progress [OF env(1) bounds(2), of s] obtain t where run: "await_ready fuel env args s = (Inr (), t)"
        and forward: "time (world s) \<le> time (world t)" and progress: "last_ready_seen s < last_ready_seen t
          \<or> last_ready_seen t = last_ready_seen s \<and> time (world s) + report_timeout args \<le> time (world t)" by blast
      have "unat (last_ready_seen s) < 2 ^ 64" using unat_lt2p [of "last_ready_seen s"] by simp
      moreover have "time (world s) + unat (last_ready_seen s) < time (world t) + unat (last_ready_seen t)"
        using forward progress assms(2) by (auto simp: word_less_nat_alt)
      ultimately have "?\<delta> t < k" using k in_scenario by linarith
      moreover have "?t0 \<le> ?\<mu> t" using t0 forward progress by auto
      ultimately show "case await_ready fuel env args s of (Inr _, t) \<Rightarrow> ?t0 \<le> ?\<mu> t \<and> ?\<delta> t < k | (Inl _, _) \<Rightarrow> True"
        using run by simp
    qed
    have after: "triple (\<lambda>s. ?t0 \<le> ?\<mu> s \<and> ?\<delta> s < k) ?rest (\<lambda>_ s. ?\<delta> s < k) (\<lambda>_ _. True)"
      by (rule triple_conseq [OF passes_triple [OF rest, of "\<lambda>s. ?t0 \<le> ?\<mu> s \<and> ?\<delta> s < k"]])
        (auto simp: word_le_nat_alt)
    have "triple (\<lambda>s. ?U s \<and> time (world s) < ?until) (and_then (await_ready fuel env args) (\<lambda>_. ?rest))
        (\<lambda>c s. c = Continue \<longrightarrow> ?\<delta> s < k) (\<lambda>_ _. True)"
      by (rule triple_and_then [OF ready], rule triple_conseq [OF after]) auto
    then show "triple (\<lambda>s. ?U s \<and> (t < duration args \<longrightarrow> time (world s) < ?until))
        (if \<not> t < duration args then pure (Break ()) else and_then (await_ready fuel env args) (\<lambda>_. ?rest))
        (\<lambda>c s. c = Continue \<longrightarrow> ?\<delta> s < k) (\<lambda>_ _. True)" for t
      by (cases "t < duration args") (auto intro: triple_pure)
  qed
qed

text \<open>Up to the loop the sender has only read the clock.\<close>

lemma passes_now:
  assumes "clock_documented env time" and "\<And>start. passes (gauge time) (start, 0) (k start)"
  shows "passes (gauge time) t0 (and_then (ask (now env)) k)"
proof (rule passes_triples)
  fix x :: "duration \<times> u64"
  have "triple (\<lambda>s. (t, 0) \<le> gauge time s \<and> x \<le> gauge time s) (k t) (\<lambda>_ s. (t, 0) \<le> gauge time s \<and> x \<le> gauge time s)
      (\<lambda>e _. e \<noteq> Running)" for t
    by (rule passes_triple [OF assms(2)]) (auto intro: order_trans)
  then have later: "triple (\<lambda>s. (t, 0) \<le> gauge time s \<and> x \<le> gauge time s) (k t) (\<lambda>_ s. x \<le> gauge time s)
      (\<lambda>e _. e \<noteq> Running)" for t
    by (rule triple_conseq) auto
  obtain xt xc where x: "x = (xt, xc)" by (cases x)
  show "triple (\<lambda>s. t0 \<le> gauge time s \<and> x \<le> gauge time s) (and_then (ask (now env)) k) (\<lambda>_ s. x \<le> gauge time s)
      (\<lambda>e _. e \<noteq> Running)"
    by (rule triple_and_then [OF _ later])
      (fastforce simp: x triple_def run_simps split: prod.split dest!: clock_documentedD(1) [OF assms(1)])
qed

lemma passes_run_alice:
  assumes "timely env (commit_interval args) time due" and "0 < report_timeout args"
    and "duration args + report_timeout args + 2 ^ 64 < fuel"
  shows "passes (gauge time) t0 (run_alice fuel env aops bops no_peer args)"
proof (cases "peer_addr args")
  case (Some addr)
  note env = timelyD [OF assms(1)]
  show ?thesis
    unfolding run_alice_def Some option.case
    by (intro passing gauge_ask quietD [OF env(2)] passes_statements [OF env(2)] passes_durations passes_now [OF env(1)])
      (rule passes_alice_cycle [OF assms])
qed (simp add: run_alice_def passing)

subsection \<open>The receiver\<close>

text \<open>
  The environment of the receiver: at most \<open>n\<close> connections come in (\<open>served\<close> counts those accepted so far), of a connection that was
  accepted the handshake and the end come at some time, and the rest is free. \<open>accept\<close> and \<open>accept_bi\<close> need not complete.
\<close>

definition visited :: "('w, 'e, 'tp) bob_env \<Rightarrow> nat \<Rightarrow> ('w \<Rightarrow> nat) \<Rightarrow> bool" where
  "visited env n served \<longleftrightarrow> advances served (now env) \<and> advances served (unix_ms env) \<and> advances served (open_telemetry env)
     \<and> (\<forall>line. advances served (write_row env line)) \<and> advances served (bind_socket env) \<and> advances served (new_endpoint env)
     \<and> (\<forall>d. advances served (deadline_first env d)) \<and> advances served (arrivals env)
     \<and> (\<forall>s. advances served (write_ready env s)) \<and> advances served (accept_connection env)
     \<and> advances served (accept_incoming env) \<and> advances served (early_keys env) \<and> advances served (accept_stream env)
     \<and> advances served (zero_rtt_done env) \<and> advances served (close_stale env) \<and> advances served (while_open env)
     \<and> advances served (conn_closed env)
     \<and> (\<forall>w w'. accept_connection env w = (Some True, w') \<longrightarrow> served w < served w' \<and> served w' \<le> n)
     \<and> completes (zero_rtt_done env) \<and> completes (conn_closed env)"

lemma visitedD:
  assumes "visited env n served"
  shows "advances served (now env)" "advances served (unix_ms env)" "advances served (open_telemetry env)"
    "advances served (write_row env line)" "advances served (bind_socket env)" "advances served (new_endpoint env)"
    "advances served (deadline_first env d)" "advances served (arrivals env)" "advances served (write_ready env s)"
    "advances served (accept_connection env)" "advances served (accept_incoming env)" "advances served (early_keys env)"
    "advances served (accept_stream env)" "advances served (zero_rtt_done env)" "advances served (close_stale env)"
    "advances served (while_open env)" "advances served (conn_closed env)"
    "completes (zero_rtt_done env)" "completes (conn_closed env)"
  using assms unfolding visited_def by blast+

lemma visited_accept:
  "visited env n served \<Longrightarrow> accept_connection env w = (Some True, w') \<Longrightarrow> served w < served w' \<and> served w' \<le> n"
  unfolding visited_def by blast

abbreviation visits :: "('w \<Rightarrow> nat) \<Rightarrow> ('w, 'b, 'tp) bob_run \<Rightarrow> nat" where
  "visits served s \<equiv> served (world s)"

lemma visits_ask: "advances served f \<Longrightarrow> passes (visits served) t0 (ask f)"
  by (rule passes_ask) simp_all

lemma visits_wait: "advances served f \<Longrightarrow> keeps (\<lambda>s. k \<le> visits served s) (await f)"
  by (rule keeps_await) (auto simp: keeps_def run_simps advances_def intro: order_trans split: prod.split)

lemma world_open [simp]: "world (fold (open_step bops) acts s) = world s"
proof (induction acts arbitrary: s)
  case (Cons a acts)
  have "world (open_step bops a s) = world s" by (simp add: open_step_def split: activity.split)
  with Cons show ?case by simp
qed simp

lemma passes_receiving:
  assumes "visited env n served"
  shows "passes (visits served) t0 (elapsed env t)" "passes (visits served) t0 (write_telemetry env ev ep k lat)"
    "passes (visits served) t0 (lock_epoch env bops)" "passes (visits served) t0 (make_server_config env idle)"
    "passes (visits served) t0 (start_incoming env tpl)" "passes (visits served) t0 (connection_open env bops)"
proof -
  note statements = passing visits_ask visitedD [OF assms]
  show "passes (visits served) t0 (elapsed env t)" unfolding elapsed_def by (intro statements)
  show "passes (visits served) t0 (write_telemetry env ev ep k lat)"
    unfolding write_telemetry_def Let_def by (intro statements passes_set_state) simp
  show "passes (visits served) t0 (lock_epoch env bops)"
    unfolding lock_epoch_def handle_arrivals_def by (intro statements passes_set_state) simp
  show "passes (visits served) t0 (make_server_config env idle)"
    unfolding make_server_config_def transport_config_def Let_def by (intro passing)
  show "passes (visits served) t0 (start_incoming env tpl)"
    unfolding start_incoming_def by (intro statements passes_set_state) simp_all
  show "passes (visits served) t0 (connection_open env bops)"
    unfolding connection_open_def by (intro statements passes_set_state) simp
qed

lemma passes_bob_cycle:
  assumes "visited env n served"
  shows "passes (visits served) t0 (bob_cycle env bops tpl args start idle)"
proof -
  note statements = passing visits_ask visits_wait visitedD [OF assms] passes_receiving [OF assms] passes_durations passes_set_state
  have "passes (visits served) t0 (serve_connection env bops args t b)" for t b
    unfolding serve_connection_def Let_def by (intro statements)
  then show ?thesis unfolding bob_cycle_def Let_def by (intro statements) simp_all
qed

text \<open>A further cycle takes a further connection; without one the timeout of \<open>accept\<close> ends the loop.\<close>

lemma accept_triple:
  assumes "visited env n served"
  shows "triple (\<lambda>s. n - visits served s \<le> k) (under_timeout (deadline_first env limit) (await (accept_connection env)))
    (\<lambda>r s. r = Some True \<longrightarrow> n - visits served s < k) (\<lambda>_ _. True)"
proof -
  have "n - served v < k"
    if "n - served w \<le> k" and "deadline_first env limit w = (b, u)" and "accept_connection env u = (Some True, v)" for w b u v
    using that(1) visited_accept [OF assms that(3)] visitedD(7) [OF assms] that(2) unfolding advances_def by fastforce
  then show ?thesis unfolding triple_def run_simps by (auto split: prod.split option.split)
qed

lemma bob_cycle_visits:
  assumes "visited env n served"
  shows "triple (\<lambda>s. n - visits served s \<le> k) (bob_cycle env bops tpl args start idle)
    (\<lambda>c s. c = Continue \<longrightarrow> n - visits served s < k) (\<lambda>_ _. True)"
proof -
  let ?U = "\<lambda>s. n - visits served s \<le> k" and ?V = "\<lambda>s. n - visits served s < k"
  note statements = passing visits_ask visits_wait visitedD [OF assms] passes_receiving [OF assms] passes_durations passes_set_state
  have forward: "triple ?U (and_then m f) Q (\<lambda>_ _. True)"
    if "\<And>t0. passes (visits served) t0 m" and "\<And>x. triple ?U (f x) Q (\<lambda>_ _. True)" for m f Q
    by (rule triple_and_then [OF passes_stable [OF that(1)] that(2)]) auto
  have onward: "triple ?V m (\<lambda>c s. c = Continue \<longrightarrow> n - visits served s < k) (\<lambda>_ _. True)"
    if "\<And>t0. passes (visits served) t0 m" for m :: "(('a, 'd, 'c) bob_run, 'b, unit control) program"
    by (rule triple_conseq [OF passes_stable [OF that, where U = ?V]]) auto
  have serve: "passes (visits served) t0 (serve_connection env bops args t b)" for t0 t b
    unfolding serve_connection_def Let_def by (intro statements)
  have accepted: "triple (\<lambda>s. r = Some True \<longrightarrow> ?V s) (if r \<noteq> Some True then pure (Break ()) else m)
      (\<lambda>c s. c = Continue \<longrightarrow> n - visits served s < k) (\<lambda>_ _. True)"
    if "\<And>t0. passes (visits served) t0 m" for r and m :: "(('a, 'd, 'c) bob_run, 'b, unit control) program"
    by (rule triple_if) (rule triple_pure, simp, rule triple_conseq [OF onward [OF that]], auto)
  show ?thesis
    unfolding bob_cycle_def Let_def
    apply (rule forward, intro statements, simp)
    apply (rule forward, intro statements)
    apply (rule forward, intro statements, simp)
    apply (rule forward, intro statements)
    apply (rule forward, intro statements)
    apply (rule forward, intro statements, simp)
    apply (rule forward, intro statements)
    apply (rule forward, intro statements)
    apply (rule forward, intro statements)
    apply (rule triple_and_then [OF accept_triple [OF assms]])
    apply (rule accepted)
    apply (intro statements serve)
    done
qed

lemma passes_run_bob:
  assumes "visited env n served" and "n < fuel"
  shows "passes (visits served) t0 (run_bob fuel env bops tpl args)"
proof -
  note statements = passing visits_ask visitedD [OF assms(1)] passes_receiving [OF assms(1)] passes_durations passes_set_state
  let ?body = "\<lambda>start idle. and_then (and_then (elapsed env start) (\<lambda>t. pure (t < duration args))) (\<lambda>go.
       if \<not> go then pure (Break ()) else bob_cycle env bops tpl args start idle)"
  have "passes (visits served) t0 (repeat fuel (?body start idle))" for t0 start idle
  proof (rule passes_repeat)
    show "passes (visits served) t0 (?body start idle)" by (intro statements passes_bob_cycle [OF assms(1)])
    show "n - visits served s < fuel" for s :: "('a, 'd, 'c) bob_run" using assms(2) by simp
    let ?Q = "\<lambda>k c s. c = Continue \<longrightarrow> n - visits served s < k"
    have check: "triple (\<lambda>s. n - visits served s \<le> k) (and_then (elapsed env start) (\<lambda>t. pure (t < duration args)))
        (\<lambda>_ s. n - visits served s \<le> k) (\<lambda>_ _. True)" for k
      by (rule passes_stable [where \<mu> = "visits served"]) (intro statements, simp)
    have "triple (\<lambda>s. n - visits served s \<le> k) (if \<not> go then pure (Break ()) else bob_cycle env bops tpl args start idle)
        (?Q k) (\<lambda>_ _. True)" for k go
      by (rule triple_if) (rule triple_pure, simp, rule bob_cycle_visits [OF assms(1)])
    from triple_and_then [OF check this]
    show "triple (\<lambda>s. t0 \<le> visits served s \<and> n - visits served s = k) (?body start idle) (?Q k) (\<lambda>_ _. True)" for k
      by (rule triple_conseq) auto
  qed
  then show ?thesis
    unfolding run_bob_def by (intro statements) simp_all
qed

subsection \<open>Both end\<close>

lemma passes_ends: "(\<And>t0. passes \<mu> t0 m) \<Longrightarrow> fst (m s) \<noteq> Inl Running"
proof
  assume passes: "\<And>t0. passes \<mu> t0 m" and "fst (m s) = Inl Running"
  then obtain t where "m s = (Inl Running, t)" by (cases "m s") auto
  from passesE [OF passes order_refl this] show False by simp
qed

text \<open>
  C11: The runners end, both of them. Assumed of Alice's environment is that readings of the clock do
  not go back, that a sleep lasts as long as asked, that her ticker is not early, that the report timeout is not zero, and
  that the first connection, which she opens without a timeout, is made or fails; of Bob's, that only finitely many
  connections come in and that the handshake and the end of an accepted one come. A reconnection, an \<open>accept\<close>
  and an \<open>accept_bi\<close> may never complete: the code gives them a timeout. Then \<open>run_alice\<close> and \<open>run_bob\<close> end with a
  result, an error or a panic, from every state and whatever else the environment does. No loop of Alice goes round
  more often than the duration and the report timeout have nanoseconds and the ready file has cycles, \<open>2 ^ 64\<close>,
  together; no loop of Bob more often than connections come in, and once more.
\<close>

theorem runners_terminate:
  assumes "timely env (commit_interval args) time due" and "0 < report_timeout args"
    and "duration args + report_timeout args + 2 ^ 64 < fuel"
    and "visited benv n served" and "n < bfuel"
  shows "fst (run_alice fuel env aops bops no_peer args s) \<noteq> Inl Running
    \<and> fst (run_bob bfuel benv bops tpl bargs t) \<noteq> Inl Running"
  by (rule conjI passes_ends [OF passes_run_alice [OF assms(1-3)]] passes_ends [OF passes_run_bob [OF assms(4,5)]])+

text \<open>
  A clock that stands still between sleeps and ticks, a ready file that never changes, and a network on which no
  connection is made after the first; and a receiver that three connections reach.
\<close>

definition still_env :: "(duration \<times> duration, string, string) alice_env" where
  "still_env =
     \<lparr>now = (\<lambda>w. (fst w, w)), sleep = (\<lambda>d w. ((), (fst w + d, snd w))), read_ready = (\<lambda>w. (Some ''1'', w)),
      unix_ms = (\<lambda>w. (0, w)), open_telemetry = (\<lambda>w. (Inr (), w)), write_row = (\<lambda>line w. (Inr (), w)),
      bind_socket = (\<lambda>w. (Inr (), w)), new_endpoint = (\<lambda>w. (Inr (), w)), idle_timeout = (\<lambda>d. Some ()),
      deadline_first = (\<lambda>d w. (False, w)), others = (\<lambda>w. ([Reported, Trimmed 0], w)),
      connect = (\<lambda>first cfg w. (if first then Some Opened else None, w)),
      zero_rtt_accepted = (\<lambda>first w. (Some True, w)),
      new_interval = (\<lambda>d w. (if d = 0 then None else Some (), (fst w, fst w))),
      tick_first = (\<lambda>d w. (True, (max (fst w) (snd w), snd w + 1))), send_to = (\<lambda>w d a. (Inr (length d), w)),
      force_key_update = (\<lambda>w. ((), w)), close_connection = (\<lambda>w. ((), w))\<rparr>"

definition visited_env :: "(nat, string, bytes) bob_env" where
  "visited_env =
     \<lparr>now = (\<lambda>w. (0, w)), sleep = (\<lambda>d w. ((), w)), read_ready = (\<lambda>w. (None, w)),
      unix_ms = (\<lambda>w. (0, w)), open_telemetry = (\<lambda>w. (Inr (), w)), write_row = (\<lambda>line w. (Inr (), w)),
      bind_socket = (\<lambda>w. (Inr (), w)), new_endpoint = (\<lambda>w. (Inr (), w)), idle_timeout = (\<lambda>d. Some ()),
      deadline_first = (\<lambda>d w. (False, w)),
      arrivals = (\<lambda>w. ([], w)), write_ready = (\<lambda>s w. (True, w)),
      accept_connection = (\<lambda>w. if w < 3 then (Some True, w + 1) else (None, w)),
      accept_incoming = (\<lambda>w. (Inr [5], w)), early_keys = (\<lambda>w. (True, w)), accept_stream = (\<lambda>w. (None, w)),
      zero_rtt_done = (\<lambda>w. (Some (), w)), close_stale = (\<lambda>w. ((), w)), while_open = (\<lambda>w. ([Observe], w)),
      conn_closed = (\<lambda>w. (Some (), w))\<rparr>"

lemma runners_terminate_witness:
  "fst (run_alice (2 ^ 65) still_env sample_ops sample_ops ''no peer'' sample_args (alice_start (0, 0) 0 0)) \<noteq> Inl Running
   \<and> fst (run_bob 4 visited_env sample_ops sample_tp sample_bob_args (bob_run_start 0 (0 :: nat))) \<noteq> Inl Running"
proof -
  have "timely still_env (commit_interval sample_args) fst snd"
    by (auto simp: timely_def clock_documented_def quiet_def ticks_def completes_def advances_def still_env_def sample_args_def)
  moreover have "visited visited_env 3 (\<lambda>w. w)"
    by (auto simp: visited_def completes_def advances_def visited_env_def)
  ultimately show ?thesis
    by (intro runners_terminate [where n = 3]) (simp_all add: sample_args_def)
qed

end
