(* ===== verification/Bootstrap.thy ===== *)
theory Bootstrap
  imports Prelude
begin

text \<open>
  The bootstrap of the MLS group (\<open>make_client\<close>, \<open>wait_for_file\<close>, \<open>bootstrap_bob\<close> and
  \<open>bootstrap_alice\<close> in \<open>testbed-runner/src/main.rs\<close>). The two programs exchange a key package and a
  welcome message through files of a shared directory, each polling for the file of the other. They are
  modelled as two processes over that directory; \<open>std::fs::write\<close> is what it is, the creation of an
  empty file followed by writes of pieces, and the other process may read between any two of them.
  The library is a parameter of each process, with the randomness it draws there; input and output
  are assumed to succeed.

  Shown are that two processes that end without a panic have exactly the groups of the sequential
  exchange, that they always can, and that the polling has a race: a process that reads the file
  between its creation and its last write panics.
\<close>

record ('p, 'k, 'c, 'm, 'g, 'n, 'b, 'e) boot_lib =
  cipher_suite_provider :: "'p option"
  signature_key_generate :: "'p \<Rightarrow> 'e + 'k"
  build_client :: "string \<Rightarrow> 'k \<Rightarrow> 'c"
  generate_key_package_message :: "'c \<Rightarrow> 'e + 'm"
  to_bytes :: "'m \<Rightarrow> 'e + bytes"
  from_bytes :: "bytes \<Rightarrow> 'e + 'm"
  create_group :: "'c \<Rightarrow> 'e + 'g"
  add_member :: "'g \<Rightarrow> 'm \<Rightarrow> 'e + 'n"
  build_commit :: "'n \<Rightarrow> 'e + 'g \<times> 'm list"
  apply_pending_commit :: "'g \<Rightarrow> 'e + 'g"
  join_group :: "'c \<Rightarrow> 'm \<Rightarrow> 'e + 'b"

text \<open>\<open>Result::unwrap\<close>\<close>

definition unwrap :: "'e + 'x \<Rightarrow> 'x panics" where
  "unwrap r = (case r of Inl e \<Rightarrow> Panic | Inr x \<Rightarrow> Ret x)"

lemma unwrap_simps [simp]: "unwrap (Inl e) = Panic" "unwrap (Inr x) = Ret x"
  by (simp_all add: unwrap_def)

lemma unwrap_Ret: "unwrap r = Ret x \<longleftrightarrow> r = Inr x"
  by (cases r) simp_all

definition make_client :: "('p, 'k, 'c, 'm, 'g, 'n, 'b, 'e) boot_lib \<Rightarrow> string \<Rightarrow> 'c panics" where
  "make_client lib name = do {
     cs_provider \<leftarrow> cipher_suite_provider lib;
     keys \<leftarrow> unwrap (signature_key_generate lib cs_provider);
     Ret (build_client lib name keys)
   }"

subsection \<open>The straight parts of the two functions\<close>

text \<open>Bob up to the file he writes, and from the file he waits for.\<close>

definition bob_offer :: "('p, 'k, 'c, 'm, 'g, 'n, 'b, 'e) boot_lib \<Rightarrow> ('c \<times> bytes) panics" where
  "bob_offer lib = do {
     bob \<leftarrow> make_client lib ''bob'';
     bob_kp \<leftarrow> unwrap (generate_key_package_message lib bob);
     bs \<leftarrow> unwrap (to_bytes lib bob_kp);
     Ret (bob, bs)
   }"

definition bob_join :: "('p, 'k, 'c, 'm, 'g, 'n, 'b, 'e) boot_lib \<Rightarrow> 'c \<Rightarrow> bytes \<Rightarrow> 'b panics" where
  "bob_join lib bob welcome_bytes = do {
     welcome \<leftarrow> unwrap (from_bytes lib welcome_bytes);
     unwrap (join_group lib bob welcome)
   }"

text \<open>Alice before and after the file she waits for, up to the file she writes.\<close>

definition alice_begin :: "('p, 'k, 'c, 'm, 'g, 'n, 'b, 'e) boot_lib \<Rightarrow> 'g panics" where
  "alice_begin lib = do {
     alice \<leftarrow> make_client lib ''alice'';
     unwrap (create_group lib alice)
   }"

definition alice_reply :: "('p, 'k, 'c, 'm, 'g, 'n, 'b, 'e) boot_lib \<Rightarrow> 'g \<Rightarrow> bytes \<Rightarrow> ('g \<times> bytes) panics" where
  "alice_reply lib alice_group bob_kp_bytes = do {
     bob_kp \<leftarrow> unwrap (from_bytes lib bob_kp_bytes);
     builder \<leftarrow> unwrap (add_member lib alice_group bob_kp);
     (alice_group, welcome_messages) \<leftarrow> unwrap (build_commit lib builder);
     alice_group \<leftarrow> unwrap (apply_pending_commit lib alice_group);
     welcome \<leftarrow> index welcome_messages 0;
     welcome_bytes \<leftarrow> unwrap (to_bytes lib welcome);
     Ret (alice_group, welcome_bytes)
   }"

text \<open>The exchange without files.\<close>

definition bootstrap ::
    "('p, 'k, 'c, 'm, 'g, 'n, 'b, 'e) boot_lib \<Rightarrow> ('p, 'k, 'c, 'm, 'g, 'n, 'b, 'e) boot_lib \<Rightarrow> ('g \<times> 'b) panics" where
  "bootstrap la lb = do {
     (bob, kp) \<leftarrow> bob_offer lb;
     alice_group \<leftarrow> alice_begin la;
     (alice_group, welcome) \<leftarrow> alice_reply la alice_group kp;
     bob_group \<leftarrow> bob_join lb bob welcome;
     Ret (alice_group, bob_group)
   }"

subsection \<open>The processes\<close>

record files =
  kp_file :: "bytes option"
  welcome_file :: "bytes option"

datatype 'g alice_at = A_Start | A_Waiting 'g | A_Opening 'g bytes | A_Writing 'g bytes | A_Done 'g | A_Panicked

datatype ('c, 'b) bob_at = B_Start | B_Opening 'c bytes | B_Writing 'c bytes | B_Waiting 'c | B_Done 'b | B_Panicked

text \<open>\<open>write_all\<close> writes a piece that is not empty, and goes on with the rest.\<close>

definition grow :: "bytes option \<Rightarrow> nat \<Rightarrow> bytes \<Rightarrow> bytes option" where
  "grow file k rest = (case file of None \<Rightarrow> None | Some d \<Rightarrow> Some (d @ take (Suc k) rest))"

text \<open>One step of each process; \<open>wait_for_file\<close> polls, and goes on with what it read.\<close>

fun alice_step ::
    "('p, 'k, 'c, 'm, 'g, 'n, 'b, 'e) boot_lib \<Rightarrow> nat \<Rightarrow> 'g alice_at \<Rightarrow> files \<Rightarrow> 'g alice_at \<times> files" where
  "alice_step lib k A_Start fs =
     ((case alice_begin lib of None \<Rightarrow> A_Panicked | Some g \<Rightarrow> A_Waiting g), fs)"
| "alice_step lib k (A_Waiting g) fs =
     ((case kp_file fs of
         None \<Rightarrow> A_Waiting g
       | Some bs \<Rightarrow> (case alice_reply lib g bs of None \<Rightarrow> A_Panicked | Some (g, w) \<Rightarrow> A_Opening g w)), fs)"
| "alice_step lib k (A_Opening g w) fs = (A_Writing g w, fs\<lparr>welcome_file := Some []\<rparr>)"
| "alice_step lib k (A_Writing g rest) fs =
     (if rest = [] then (A_Done g, fs)
      else (A_Writing g (drop (Suc k) rest), fs\<lparr>welcome_file := grow (welcome_file fs) k rest\<rparr>))"
| "alice_step lib k (A_Done g) fs = (A_Done g, fs)"
| "alice_step lib k A_Panicked fs = (A_Panicked, fs)"

fun bob_step ::
    "('p, 'k, 'c, 'm, 'g, 'n, 'b, 'e) boot_lib \<Rightarrow> nat \<Rightarrow> ('c, 'b) bob_at \<Rightarrow> files \<Rightarrow> ('c, 'b) bob_at \<times> files" where
  "bob_step lib k B_Start fs =
     ((case bob_offer lib of None \<Rightarrow> B_Panicked | Some (c, kp) \<Rightarrow> B_Opening c kp), fs)"
| "bob_step lib k (B_Opening c kp) fs = (B_Writing c kp, fs\<lparr>kp_file := Some []\<rparr>)"
| "bob_step lib k (B_Writing c rest) fs =
     (if rest = [] then (B_Waiting c, fs)
      else (B_Writing c (drop (Suc k) rest), fs\<lparr>kp_file := grow (kp_file fs) k rest\<rparr>))"
| "bob_step lib k (B_Waiting c) fs =
     ((case welcome_file fs of
         None \<Rightarrow> B_Waiting c
       | Some bs \<Rightarrow> (case bob_join lib c bs of None \<Rightarrow> B_Panicked | Some b \<Rightarrow> B_Done b)), fs)"
| "bob_step lib k (B_Done b) fs = (B_Done b, fs)"
| "bob_step lib k B_Panicked fs = (B_Panicked, fs)"

type_synonym ('c, 'g, 'b) exchange = "'g alice_at \<times> ('c, 'b) bob_at \<times> files"

inductive boot_step ::
    "('p, 'k, 'c, 'm, 'g, 'n, 'b, 'e) boot_lib \<Rightarrow> ('p, 'k, 'c, 'm, 'g, 'n, 'b, 'e) boot_lib
      \<Rightarrow> ('c, 'g, 'b) exchange \<Rightarrow> ('c, 'g, 'b) exchange \<Rightarrow> bool" for la lb where
  by_alice: "alice_step la k a fs = (a', fs') \<Longrightarrow> boot_step la lb (a, b, fs) (a', b, fs')"
| by_bob: "bob_step lb k b fs = (b', fs') \<Longrightarrow> boot_step la lb (a, b, fs) (a, b', fs')"

text \<open>A fresh directory.\<close>

definition boot_init :: "('c, 'g, 'b) exchange \<Rightarrow> bool" where
  "boot_init s \<longleftrightarrow> s = (A_Start, B_Start, \<lparr>kp_file = None, welcome_file = None\<rparr>)"

subsection \<open>The invariant\<close>

text \<open>A message is not complete before its last byte: no proper prefix of one is decoded.\<close>

definition self_delimiting ::
    "('p, 'k, 'c, 'm, 'g, 'n, 'b, 'e) boot_lib \<Rightarrow> ('p, 'k, 'c, 'm, 'g, 'n, 'b, 'e) boot_lib \<Rightarrow> bool" where
  "self_delimiting wl rl \<longleftrightarrow>
     (\<forall>m bs p. to_bytes wl m = Inr bs \<longrightarrow> strict_prefix p bs \<longrightarrow> (\<exists>e. from_bytes rl p = Inl e))"

lemma self_delimitingD:
  "self_delimiting wl rl \<Longrightarrow> to_bytes wl m = Inr bs \<Longrightarrow> prefix p bs \<Longrightarrow> from_bytes rl p = Inr m' \<Longrightarrow> p = bs"
  unfolding self_delimiting_def strict_prefix_def by fastforce

lemma offer_message: "bob_offer lb = Ret (c, kp) \<Longrightarrow> \<exists>m. to_bytes lb m = Inr kp"
  by (auto simp: bob_offer_def unwrap_Ret split: bind_splits)

lemma reply_message: "alice_reply la g bs = Ret (g', w) \<Longrightarrow> \<exists>m. to_bytes la m = Inr w"
  by (auto simp: alice_reply_def unwrap_Ret split: bind_splits)

lemma reply_reads: "alice_reply la g bs = Ret x \<Longrightarrow> \<exists>m. from_bytes la bs = Inr m"
  by (auto simp: alice_reply_def unwrap_Ret split: bind_splits)

lemma join_reads: "bob_join lb c bs = Ret b \<Longrightarrow> \<exists>m. from_bytes lb bs = Inr m"
  by (auto simp: bob_join_def unwrap_Ret split: bind_splits)

text \<open>Alice's group and the welcome she answers Bob's key package with.\<close>

definition answers ::
    "('p, 'k, 'c, 'm, 'g, 'n, 'b, 'e) boot_lib \<Rightarrow> ('p, 'k, 'c, 'm, 'g, 'n, 'b, 'e) boot_lib \<Rightarrow> 'g \<Rightarrow> bytes \<Rightarrow> bool" where
  "answers la lb g w \<longleftrightarrow>
     (\<exists>c kp g0. bob_offer lb = Ret (c, kp) \<and> alice_begin la = Ret g0 \<and> alice_reply la g0 kp = Ret (g, w))"

lemma answers_message: "answers la lb g w \<Longrightarrow> \<exists>m. to_bytes la m = Inr w"
  unfolding answers_def by (blast dest: reply_message)

lemma answers_unique: "answers la lb g w \<Longrightarrow> answers la lb g' w' \<Longrightarrow> g' = g \<and> w' = w"
  unfolding answers_def by force

fun alice_inv ::
    "('p, 'k, 'c, 'm, 'g, 'n, 'b, 'e) boot_lib \<Rightarrow> ('p, 'k, 'c, 'm, 'g, 'n, 'b, 'e) boot_lib \<Rightarrow> 'g alice_at \<Rightarrow> files \<Rightarrow> bool" where
  "alice_inv la lb A_Start fs \<longleftrightarrow> welcome_file fs = None"
| "alice_inv la lb (A_Waiting g) fs \<longleftrightarrow> alice_begin la = Ret g \<and> welcome_file fs = None"
| "alice_inv la lb (A_Opening g w) fs \<longleftrightarrow> answers la lb g w \<and> welcome_file fs = None"
| "alice_inv la lb (A_Writing g rest) fs \<longleftrightarrow> (\<exists>d. answers la lb g (d @ rest) \<and> welcome_file fs = Some d)"
| "alice_inv la lb (A_Done g) fs \<longleftrightarrow> (\<exists>w. answers la lb g w \<and> welcome_file fs = Some w)"
| "alice_inv la lb A_Panicked fs \<longleftrightarrow> welcome_file fs = None"

fun bob_inv ::
    "('p, 'k, 'c, 'm, 'g, 'n, 'b, 'e) boot_lib \<Rightarrow> ('p, 'k, 'c, 'm, 'g, 'n, 'b, 'e) boot_lib \<Rightarrow> ('c, 'b) bob_at \<Rightarrow> files \<Rightarrow> bool" where
  "bob_inv la lb B_Start fs \<longleftrightarrow> kp_file fs = None"
| "bob_inv la lb (B_Opening c kp) fs \<longleftrightarrow> bob_offer lb = Ret (c, kp) \<and> kp_file fs = None"
| "bob_inv la lb (B_Writing c rest) fs \<longleftrightarrow> (\<exists>d. bob_offer lb = Ret (c, d @ rest) \<and> kp_file fs = Some d)"
| "bob_inv la lb (B_Waiting c) fs \<longleftrightarrow> (\<exists>kp. bob_offer lb = Ret (c, kp) \<and> kp_file fs = Some kp)"
| "bob_inv la lb (B_Done b) fs \<longleftrightarrow> (\<exists>c kp g w. bob_offer lb = Ret (c, kp) \<and> kp_file fs = Some kp
     \<and> answers la lb g w \<and> bob_join lb c w = Ret b)"
| "bob_inv la lb B_Panicked fs \<longleftrightarrow> kp_file fs = None \<or> (\<exists>c kp. bob_offer lb = Ret (c, kp) \<and> kp_file fs = Some kp)"

text \<open>What either may read is a prefix of what the other is writing.\<close>

lemma kp_prefix: "bob_inv la lb b fs \<Longrightarrow> kp_file fs = Some d \<Longrightarrow> \<exists>c kp. bob_offer lb = Ret (c, kp) \<and> prefix d kp"
  by (cases b) auto

lemma welcome_prefix: "alice_inv la lb a fs \<Longrightarrow> welcome_file fs = Some d \<Longrightarrow> \<exists>g w. answers la lb g w \<and> prefix d w"
  by (cases a) fastforce+

lemma alice_reads_whole:
  assumes "self_delimiting lb la" and "bob_inv la lb b fs" and "kp_file fs = Some d"
    and "alice_begin la = Ret g0" and "alice_reply la g0 d = Ret (g, w)"
  shows "answers la lb g w"
proof -
  from kp_prefix [OF assms(2,3)] obtain c kp where kp: "bob_offer lb = Ret (c, kp)" "prefix d kp" by blast
  from offer_message [OF kp(1)] reply_reads [OF assms(5)] self_delimitingD [OF assms(1) _ kp(2)] have "d = kp" by blast
  with kp(1) assms(4,5) show ?thesis unfolding answers_def by blast
qed

lemma bob_reads_whole:
  assumes "self_delimiting la lb" and "alice_inv la lb a fs" and "welcome_file fs = Some d"
    and "bob_join lb c d = Ret b"
  shows "\<exists>g. answers la lb g d"
proof -
  from welcome_prefix [OF assms(2,3)] obtain g w where w: "answers la lb g w" "prefix d w" by blast
  from answers_message [OF w(1)] join_reads [OF assms(4)] self_delimitingD [OF assms(1) _ w(2)] have "d = w" by blast
  with w(1) show ?thesis by blast
qed

definition boot_inv ::
    "('p, 'k, 'c, 'm, 'g, 'n, 'b, 'e) boot_lib \<Rightarrow> ('p, 'k, 'c, 'm, 'g, 'n, 'b, 'e) boot_lib \<Rightarrow> ('c, 'g, 'b) exchange \<Rightarrow> bool" where
  "boot_inv la lb s \<longleftrightarrow> (case s of (a, b, fs) \<Rightarrow> alice_inv la lb a fs \<and> bob_inv la lb b fs)"

lemma alice_step_frame: "alice_step la k a fs = (a', fs') \<Longrightarrow> kp_file fs' = kp_file fs"
  by (cases a) (auto split: if_splits option.splits)

lemma bob_step_frame: "bob_step lb k b fs = (b', fs') \<Longrightarrow> welcome_file fs' = welcome_file fs"
  by (cases b) (auto split: if_splits option.splits)

lemma alice_inv_cong: "welcome_file fs' = welcome_file fs \<Longrightarrow> alice_inv la lb a fs' = alice_inv la lb a fs"
  by (cases a) simp_all

lemma bob_inv_cong: "kp_file fs' = kp_file fs \<Longrightarrow> bob_inv la lb b fs' = bob_inv la lb b fs"
  by (cases b) simp_all

lemma alice_step_inv:
  assumes "self_delimiting lb la" and "bob_inv la lb b fs" and "alice_inv la lb a fs"
    and "alice_step la k a fs = (a', fs')"
  shows "alice_inv la lb a' fs'"
proof (cases a)
  case (A_Waiting g)
  with assms(3,4) alice_reads_whole [OF assms(1,2)] show ?thesis
    by (auto split: option.splits)
next
  case (A_Writing g rest)
  with assms(3) obtain d where d: "answers la lb g (d @ rest)" "welcome_file fs = Some d" by auto
  have "rest = take (Suc k) rest @ drop (Suc k) rest" by (simp only: append_take_drop_id)
  with d(1) have "answers la lb g ((d @ take (Suc k) rest) @ drop (Suc k) rest)" by simp
  with d A_Writing assms(4) show ?thesis by (auto simp: grow_def split: if_splits)
qed (use assms(3,4) in \<open>auto split: option.splits\<close>)

lemma bob_step_inv:
  assumes "self_delimiting la lb" and "alice_inv la lb a fs" and "bob_inv la lb b fs"
    and "bob_step lb k b fs = (b', fs')"
  shows "bob_inv la lb b' fs'"
proof (cases b)
  case (B_Waiting c)
  with assms(3,4) bob_reads_whole [OF assms(1,2)] show ?thesis
    by (fastforce split: option.splits)
next
  case (B_Writing c rest)
  with assms(3) obtain d where d: "bob_offer lb = Ret (c, d @ rest)" "kp_file fs = Some d" by auto
  have "rest = take (Suc k) rest @ drop (Suc k) rest" by (simp only: append_take_drop_id)
  with d(1) have "bob_offer lb = Ret (c, (d @ take (Suc k) rest) @ drop (Suc k) rest)" by simp
  with d B_Writing assms(4) show ?thesis by (auto simp: grow_def split: if_splits)
next
  case (B_Done x)
  with assms(4) have "b' = b" "fs' = fs" by simp_all
  with assms(3) show ?thesis by simp
qed (use assms(3,4) in \<open>auto split: option.splits\<close>)

lemma boot_step_inv:
  assumes "self_delimiting la lb" and "self_delimiting lb la" and "boot_inv la lb s" and "boot_step la lb s t"
  shows "boot_inv la lb t"
  using assms(4)
proof cases
  case (by_alice k a fs a' fs' b)
  with assms(3) have inv: "alice_inv la lb a fs" "bob_inv la lb b fs" by (simp_all add: boot_inv_def)
  with alice_step_inv [OF assms(2) inv(2,1) by_alice(3)] bob_inv_cong [OF alice_step_frame [OF by_alice(3)], of la lb b] by_alice(2)
  show ?thesis by (simp add: boot_inv_def)
next
  case (by_bob k b fs b' fs' a)
  with assms(3) have inv: "alice_inv la lb a fs" "bob_inv la lb b fs" by (simp_all add: boot_inv_def)
  with bob_step_inv [OF assms(1) inv(1,2) by_bob(3)] alice_inv_cong [OF bob_step_frame [OF by_bob(3)], of la lb a] by_bob(2)
  show ?thesis by (simp add: boot_inv_def)
qed

lemma boot_init_inv: "boot_init s \<Longrightarrow> boot_inv la lb s"
  by (auto simp: boot_init_def boot_inv_def)

interpretation boot: machine_invariant boot_init "boot_step la lb"
  "\<lambda>s. self_delimiting la lb \<longrightarrow> self_delimiting lb la \<longrightarrow> boot_inv la lb s" for la lb
proof
  show "self_delimiting la lb \<longrightarrow> self_delimiting lb la \<longrightarrow> boot_inv la lb t"
    if "self_delimiting la lb \<longrightarrow> self_delimiting lb la \<longrightarrow> boot_inv la lb s" and "boot_step la lb s t" for s t
    using that(1) boot_step_inv [OF _ _ _ that(2)] by iprover
qed (simp add: boot_init_inv)

lemma reach_boot_inv:
  "reach boot_init (boot_step la lb) s \<Longrightarrow> self_delimiting la lb \<Longrightarrow> self_delimiting lb la \<Longrightarrow> boot_inv la lb s"
  using boot.reach_inv by blast

lemma done_bootstrapped:
  assumes "boot_inv la lb (A_Done g, B_Done b, fs)"
  shows "bootstrap la lb = Ret (g, b)"
proof -
  from assms obtain w c kp g' w' where a: "answers la lb g w" and o: "bob_offer lb = Ret (c, kp)"
    and a': "answers la lb g' w'" and j: "bob_join lb c w' = Ret b"
    unfolding boot_inv_def by auto
  have "w' = w" using answers_unique [OF a a'] by blast
  with a o j show ?thesis unfolding answers_def bootstrap_def by auto
qed

subsection \<open>Getting to the end\<close>

lemma bootstrapD:
  assumes "bootstrap la lb = Ret (g, b)"
  obtains c kp w where "bob_offer lb = Ret (c, kp)" "answers la lb g w" "bob_join lb c w = Ret b"
  using assms unfolding bootstrap_def answers_def by (auto split: bind_splits)

lemma bob_steps:
  "bob_step lb k b fs = (b', fs') \<Longrightarrow> (boot_step la lb)\<^sup>*\<^sup>* (a, b', fs') t \<Longrightarrow> (boot_step la lb)\<^sup>*\<^sup>* (a, b, fs) t"
  by (blast intro: by_bob converse_rtranclp_into_rtranclp)

lemma alice_steps:
  "alice_step la k a fs = (a', fs') \<Longrightarrow> (boot_step la lb)\<^sup>*\<^sup>* (a', b, fs') t \<Longrightarrow> (boot_step la lb)\<^sup>*\<^sup>* (a, b, fs) t"
  by (blast intro: by_alice converse_rtranclp_into_rtranclp)

text \<open>Each process alone gets to the end of its writing.\<close>

lemma bob_writes:
  assumes "kp_file fs = Some d"
  shows "\<exists>fs'. (boot_step la lb)\<^sup>*\<^sup>* (a, B_Writing c rest, fs) (a, B_Waiting c, fs')
    \<and> kp_file fs' = Some (d @ rest) \<and> welcome_file fs' = welcome_file fs"
proof (cases "rest = []")
  case True
  with assms show ?thesis by (intro exI [of _ fs]) (simp add: bob_steps)
next
  case False
  let ?fs = "fs\<lparr>kp_file := Some (d @ rest)\<rparr>"
  have "bob_step lb (length rest) (B_Writing c rest) fs = (B_Writing c [], ?fs)"
    using False assms by (simp add: grow_def)
  then have "(boot_step la lb)\<^sup>*\<^sup>* (a, B_Writing c rest, fs) (a, B_Waiting c, ?fs)"
    by (rule bob_steps) (simp add: bob_steps)
  then show ?thesis by (intro exI [of _ ?fs]) simp
qed

lemma bob_gets_to_wait:
  assumes "bob_inv la lb b fs" and offer: "bob_offer lb = Ret (c, kp)" and "b \<noteq> B_Panicked" and "\<forall>x. b \<noteq> B_Done x"
  shows "\<exists>fs'. (boot_step la lb)\<^sup>*\<^sup>* (a, b, fs) (a, B_Waiting c, fs')
    \<and> kp_file fs' = Some kp \<and> welcome_file fs' = welcome_file fs"
proof -
  have opened: "\<exists>fs'. (boot_step la lb)\<^sup>*\<^sup>* (a, B_Opening c kp, fs) (a, B_Waiting c, fs')
    \<and> kp_file fs' = Some kp \<and> welcome_file fs' = welcome_file fs"
    using bob_writes [of "fs\<lparr>kp_file := Some []\<rparr>" "[]" la lb a c kp] bob_steps [of lb 0 "B_Opening c kp" fs] by fastforce
  show ?thesis
  proof (cases b)
    case B_Start
    with offer opened bob_steps [of lb 0 B_Start fs "B_Opening c kp" fs] show ?thesis by fastforce
  next
    case (B_Opening c' kp')
    with assms opened show ?thesis by simp
  next
    case (B_Writing c' rest)
    with assms obtain d where "kp = d @ rest" "c' = c" "kp_file fs = Some d" by auto
    with bob_writes [of fs d la lb a c rest] B_Writing show ?thesis by simp
  next
    case (B_Waiting c')
    with assms show ?thesis by (intro exI [of _ fs]) auto
  qed (use assms in auto)
qed

lemma alice_writes:
  assumes "welcome_file fs = Some d"
  shows "\<exists>fs'. (boot_step la lb)\<^sup>*\<^sup>* (A_Writing g rest, b, fs) (A_Done g, b, fs')
    \<and> welcome_file fs' = Some (d @ rest) \<and> kp_file fs' = kp_file fs"
proof (cases "rest = []")
  case True
  with assms show ?thesis by (intro exI [of _ fs]) (simp add: alice_steps)
next
  case False
  let ?fs = "fs\<lparr>welcome_file := Some (d @ rest)\<rparr>"
  have "alice_step la (length rest) (A_Writing g rest) fs = (A_Writing g [], ?fs)"
    using False assms by (simp add: grow_def)
  then have "(boot_step la lb)\<^sup>*\<^sup>* (A_Writing g rest, b, fs) (A_Done g, b, ?fs)"
    by (rule alice_steps) (simp add: alice_steps)
  then show ?thesis by (intro exI [of _ ?fs]) simp
qed

lemma alice_gets_done:
  assumes "alice_inv la lb a fs" and ans: "answers la lb g w" and "a \<noteq> A_Panicked"
    and offer: "bob_offer lb = Ret (c, kp)" and kp: "kp_file fs = Some kp"
  shows "\<exists>fs'. (boot_step la lb)\<^sup>*\<^sup>* (a, b, fs) (A_Done g, b, fs')
    \<and> welcome_file fs' = Some w \<and> kp_file fs' = kp_file fs"
proof -
  from ans offer obtain g0 where g0: "alice_begin la = Ret g0" "alice_reply la g0 kp = Ret (g, w)"
    unfolding answers_def by auto
  have opened: "\<exists>fs'. (boot_step la lb)\<^sup>*\<^sup>* (A_Opening g w, b, fs) (A_Done g, b, fs')
    \<and> welcome_file fs' = Some w \<and> kp_file fs' = kp_file fs"
    using alice_writes [of "fs\<lparr>welcome_file := Some []\<rparr>" "[]" la lb g w b] alice_steps [of la 0 "A_Opening g w" fs] by fastforce
  then have waited: "\<exists>fs'. (boot_step la lb)\<^sup>*\<^sup>* (A_Waiting g0, b, fs) (A_Done g, b, fs')
    \<and> welcome_file fs' = Some w \<and> kp_file fs' = kp_file fs"
    using g0(2) kp alice_steps [of la 0 "A_Waiting g0" fs "A_Opening g w" fs] by fastforce
  show ?thesis
  proof (cases a)
    case A_Start
    with g0(1) waited alice_steps [of la 0 A_Start fs "A_Waiting g0" fs] show ?thesis by fastforce
  next
    case (A_Waiting g')
    with assms(1) g0(1) waited show ?thesis by simp
  next
    case (A_Opening g' w')
    with assms(1) answers_unique [OF ans, of g' w'] opened show ?thesis by simp
  next
    case (A_Writing g' rest)
    with assms(1) obtain d where d: "answers la lb g' (d @ rest)" "welcome_file fs = Some d" by auto
    with answers_unique [OF ans d(1)] alice_writes [OF d(2), of la lb g' rest b] A_Writing show ?thesis by simp
  next
    case (A_Done g')
    with assms(1) obtain w' where w': "answers la lb g' w'" "welcome_file fs = Some w'" by auto
    with answers_unique [OF ans w'(1)] A_Done show ?thesis by (intro exI [of _ fs]) simp
  qed (use assms in auto)
qed

lemma bob_gets_done:
  assumes inv: "boot_inv la lb (A_Done g, bb, fs)" and "bootstrap la lb = Ret (g', b)" and "bb \<noteq> B_Panicked"
    and offer: "bob_offer lb = Ret (c, kp)"
  shows "\<exists>fs'. (boot_step la lb)\<^sup>*\<^sup>* (A_Done g, bb, fs) (A_Done g, B_Done b, fs')"
proof (cases "\<exists>x. bb = B_Done x")
  case True
  with done_bootstrapped inv assms(2) show ?thesis by fastforce
next
  case False
  from assms(2) obtain w where w: "answers la lb g' w" "bob_join lb c w = Ret b"
    using offer by (elim bootstrapD) auto
  from inv obtain w' where w': "answers la lb g w'" "welcome_file fs = Some w'" unfolding boot_inv_def by auto
  from inv False assms(3) bob_gets_to_wait [of la lb bb fs c kp "A_Done g", OF _ offer] obtain fs1 where
    s: "(boot_step la lb)\<^sup>*\<^sup>* (A_Done g, bb, fs) (A_Done g, B_Waiting c, fs1)" and f: "welcome_file fs1 = Some w'"
    using w'(2) unfolding boot_inv_def by auto
  have "bob_step lb 0 (B_Waiting c) fs1 = (B_Done b, fs1)"
    using f w answers_unique [OF w(1) w'(1)] by simp
  from bob_steps [OF this rtranclp.rtrancl_refl] s have "(boot_step la lb)\<^sup>*\<^sup>* (A_Done g, bb, fs) (A_Done g, B_Done b, fs1)"
    by (rule rtranclp_trans [rotated])
  then show ?thesis by blast
qed

lemma boot_steps_inv:
  "(boot_step la lb)\<^sup>*\<^sup>* s t \<Longrightarrow> self_delimiting la lb \<Longrightarrow> self_delimiting lb la \<Longrightarrow> boot_inv la lb s \<Longrightarrow> boot_inv la lb t"
  by (induction rule: rtranclp_induct) (blast intro: boot_step_inv)+

lemma boot_completes:
  assumes inv: "boot_inv la lb (a, bb, fs)" and "self_delimiting la lb" "self_delimiting lb la"
    and run: "bootstrap la lb = Ret (g, b)" and "a \<noteq> A_Panicked" and "bb \<noteq> B_Panicked"
  shows "\<exists>fs'. (boot_step la lb)\<^sup>*\<^sup>* (a, bb, fs) (A_Done g, B_Done b, fs')"
proof -
  from run obtain c kp w where offer: "bob_offer lb = Ret (c, kp)" and w: "answers la lb g w" by (elim bootstrapD)
  have "\<exists>bb1 fs1. (boot_step la lb)\<^sup>*\<^sup>* (a, bb, fs) (a, bb1, fs1) \<and> kp_file fs1 = Some kp \<and> bb1 \<noteq> B_Panicked"
  proof (cases "\<exists>x. bb = B_Done x")
    case True
    with inv offer show ?thesis unfolding boot_inv_def by (intro exI [of _ bb] exI [of _ fs]) auto
  next
    case False
    with bob_gets_to_wait [of la lb bb fs c kp a, OF _ offer assms(6)] inv show ?thesis
      unfolding boot_inv_def by fastforce
  qed
  then obtain bb1 fs1 where 1: "(boot_step la lb)\<^sup>*\<^sup>* (a, bb, fs) (a, bb1, fs1)" "kp_file fs1 = Some kp" "bb1 \<noteq> B_Panicked"
    by blast
  have "alice_inv la lb a fs1" using boot_steps_inv [OF 1(1) assms(2,3) inv] by (simp add: boot_inv_def)
  from alice_gets_done [OF this w assms(5) offer 1(2), of bb1] obtain fs2 where
    2: "(boot_step la lb)\<^sup>*\<^sup>* (a, bb1, fs1) (A_Done g, bb1, fs2)" by blast
  note both = rtranclp_trans [OF 1(1) 2]
  from bob_gets_done [OF boot_steps_inv [OF both assms(2,3) inv] run 1(3) offer] obtain fs3 where
    3: "(boot_step la lb)\<^sup>*\<^sup>* (A_Done g, bb1, fs2) (A_Done g, B_Done b, fs3)" by blast
  from rtranclp_trans [OF both 3] show ?thesis by blast
qed

subsection \<open>The bootstrap\<close>

text \<open>
  C12: The bootstrap agrees. In a fresh directory, and if no proper prefix of a message is decoded,
  whatever the interleaving of the two processes and of the pieces of their writes: when both have
  ended without a panic, their groups are those of the sequential exchange of Bob's key package and
  the welcome Alice makes from it; and if that exchange succeeds, then from every point at which
  neither has panicked both can still end with its groups, so that they never wait for each other.
\<close>

theorem bootstrap_agrees:
  assumes "reach boot_init (boot_step la lb) s" and "self_delimiting la lb" and "self_delimiting lb la"
  shows "(fst s = A_Done g \<and> fst (snd s) = B_Done b \<longrightarrow> bootstrap la lb = Ret (g, b))
    \<and> (bootstrap la lb = Ret (g, b) \<and> fst s \<noteq> A_Panicked \<and> fst (snd s) \<noteq> B_Panicked \<longrightarrow>
         (\<exists>fs'. (boot_step la lb)\<^sup>*\<^sup>* s (A_Done g, B_Done b, fs')))"
proof -
  obtain a bb fs where s: "s = (a, bb, fs)" by (cases s)
  note inv = reach_boot_inv [OF assms, unfolded s]
  show ?thesis
    unfolding s using done_bootstrapped [of la lb g b fs] boot_completes [OF inv assms(2,3)] inv by auto
qed

lemma reach_steps: "reach init step s \<Longrightarrow> step\<^sup>*\<^sup>* s t \<Longrightarrow> reach init step t"
  by (rotate_tac, induction rule: rtranclp_induct) (auto intro: reach_step)

lemma boot_reaches:
  "(boot_step la lb)\<^sup>*\<^sup>* (A_Start, B_Start, \<lparr>kp_file = None, welcome_file = None\<rparr>) t \<Longrightarrow> reach boot_init (boot_step la lb) t"
  by (rule reach_steps [OF reach_init]) (simp add: boot_init_def)

text \<open>
  C13: The bootstrap races. Even in a fresh directory, and with a library with which the exchange
  succeeds, a schedule makes Alice panic and another makes Bob panic, if no message is empty: the file is read
  after it has been created and before anything has been written to it.
\<close>

theorem bootstrap_race:
  assumes "bootstrap la lb = Ret (g, b)" and "from_bytes la [] = Inl ea" and "from_bytes lb [] = Inl eb"
  shows "(\<exists>b fs. reach boot_init (boot_step la lb) (A_Panicked, b, fs))
    \<and> (\<exists>a fs. reach boot_init (boot_step la lb) (a, B_Panicked, fs))"
proof -
  from assms(1) obtain c kp w where offer: "bob_offer lb = Ret (c, kp)" and w: "answers la lb g w" by (elim bootstrapD)
  from w offer obtain g0 where g0: "alice_begin la = Ret g0" "alice_reply la g0 kp = Ret (g, w)"
    unfolding answers_def by auto
  have empty: "alice_reply la g' [] = Panic" "bob_join lb c' [] = Panic" for g' c'
    using assms(2,3) by (simp_all add: alice_reply_def bob_join_def)
  let ?f0 = "\<lparr>kp_file = None, welcome_file = None\<rparr>" and ?f1 = "\<lparr>kp_file = Some [], welcome_file = None\<rparr>"
  have "(boot_step la lb)\<^sup>*\<^sup>* (A_Start, B_Start, ?f0) (A_Panicked, B_Writing c kp, ?f1)"
    by (rule bob_steps [of _ 0 _ _ "B_Opening c kp" ?f0], simp add: offer, rule bob_steps [of _ 0 _ _ "B_Writing c kp" ?f1], simp,
        rule alice_steps [of _ 0 _ _ "A_Waiting g0" ?f1], simp add: g0, rule alice_steps [of _ 0 _ _ A_Panicked ?f1], simp add: empty, simp)
  moreover obtain fs where bob: "(boot_step la lb)\<^sup>*\<^sup>* (A_Start, B_Start, ?f0) (A_Start, B_Waiting c, fs)"
    "kp_file fs = Some kp" "welcome_file fs = None"
    using bob_gets_to_wait [of la lb B_Start ?f0 c kp A_Start, OF _ offer] by auto
  have "(boot_step la lb)\<^sup>*\<^sup>* (A_Start, B_Waiting c, fs) (A_Writing g w, B_Panicked, fs\<lparr>welcome_file := Some []\<rparr>)"
    by (rule alice_steps [of _ 0 _ _ "A_Waiting g0" fs], simp add: g0,
        rule alice_steps [of _ 0 _ _ "A_Opening g w" fs], simp add: g0 bob,
        rule alice_steps [of _ 0 _ _ "A_Writing g w" "fs\<lparr>welcome_file := Some []\<rparr>"], simp,
        rule bob_steps [of _ 0 _ _ B_Panicked "fs\<lparr>welcome_file := Some []\<rparr>"], simp add: empty, simp)
  ultimately show ?thesis using boot_reaches rtranclp_trans [OF bob(1)] by blast
qed

subsection \<open>Witnesses\<close>

text \<open>A library whose messages are single bytes.\<close>

definition sample_boot :: "(unit, unit, string, u8, nat, nat \<times> u8, u8, string) boot_lib" where
  "sample_boot =
     \<lparr>cipher_suite_provider = Some (), signature_key_generate = (\<lambda>_. Inr ()), build_client = (\<lambda>name _. name),
      generate_key_package_message = (\<lambda>c. Inr 7), to_bytes = (\<lambda>m. Inr [m]),
      from_bytes = (\<lambda>bs. case bs of [] \<Rightarrow> Inl ''empty'' | m # _ \<Rightarrow> Inr m), create_group = (\<lambda>c. Inr 0),
      add_member = (\<lambda>g m. Inr (g, m)), build_commit = (\<lambda>(g, m). Inr (g, [m + 1])),
      apply_pending_commit = (\<lambda>g. Inr (Suc g)), join_group = (\<lambda>c m. Inr m)\<rparr>"

lemma sample_bootstrap: "bootstrap sample_boot sample_boot = Ret (1, 8)"
  by (simp add: bootstrap_def bob_offer_def alice_begin_def alice_reply_def bob_join_def make_client_def
      sample_boot_def index_def)

lemma sample_self_delimiting: "self_delimiting sample_boot sample_boot"
  by (auto simp: self_delimiting_def sample_boot_def strict_prefix_def prefix_Cons)

lemma bootstrap_agrees_witness:
  "\<exists>fs. (boot_step sample_boot sample_boot)\<^sup>*\<^sup>* (A_Start, B_Start, \<lparr>kp_file = None, welcome_file = None\<rparr>)
     (A_Done 1, B_Done 8, fs)"
  using bootstrap_agrees [OF reach_init sample_self_delimiting sample_self_delimiting,
      of "(A_Start, B_Start, \<lparr>kp_file = None, welcome_file = None\<rparr>)" 1 8] sample_bootstrap
  by (simp add: boot_init_def)

lemma bootstrap_race_witness:
  "\<exists>b fs. reach boot_init (boot_step sample_boot sample_boot) (A_Panicked, b, fs)"
  using bootstrap_race [OF sample_bootstrap, of "''empty''" "''empty''"] by (simp add: sample_boot_def)

end
