(* ===== verification/Testbed.thy ===== *)
theory Testbed
  imports Args Alice_Agrees Bob_Catches_Up Bootstrap Session
begin

text \<open>
  The \<open>main\<close> of the testbed runner (\<open>testbed-runner/src/main.rs\<close>), and the system that two of its
  processes form, from the command lines and the bootstrap to the keys of their connections.
\<close>

text \<open>
  One binary for both roles; a bad command line panics. The groups are what the bootstrap has
  returned when the first statement of \<open>run_alice\<close> or \<open>run_bob\<close> after it runs; the sender's state also has
  the receiver's group, from which her view of the receiver starts.
\<close>

definition testbed_main ::
    "nat \<Rightarrow> (string \<Rightarrow> 'a option) \<Rightarrow> ('w, 'e, 'a) alice_env \<Rightarrow> ('v, 'e, 'tp) bob_env
      \<Rightarrow> ('g, 'x) ExportSecret \<Rightarrow> ('b, 'f) ExportSecret \<Rightarrow> 'e \<Rightarrow> ('y, 'tp, 'te) tp_lib \<Rightarrow> string list \<Rightarrow> 'w \<Rightarrow> 'v \<Rightarrow> 'g \<Rightarrow> 'b
      \<Rightarrow> (('e stop + unit) \<times> ('w, 'g, 'b) alice_run + ('e stop + unit) \<times> ('v, 'b, 'tp) bob_run) panics" where
  "testbed_main fuel parse_addr aenv benv aops bops no_peer tpl argv w v g b = do {
     args \<leftarrow> parse_args parse_addr argv;
     Ret (case role args of
       Alice \<Rightarrow> Inl (run_alice fuel aenv aops bops no_peer args (alice_start w g b))
     | Bob \<Rightarrow> Inr (run_bob fuel benv bops tpl args (bob_run_start v b)))
   }"

lemma testbed_main_alice:
  "testbed_main fuel pa aenv benv aops bops no_peer tpl argv w v g b = Ret (Inl x) \<longleftrightarrow>
     (\<exists>args. parse_args pa argv = Ret args \<and> role args = Alice
        \<and> run_alice fuel aenv aops bops no_peer args (alice_start w g b) = x)"
  by (auto simp: testbed_main_def split: bind_splits Role.splits)

lemma testbed_main_bob:
  "testbed_main fuel pa aenv benv aops bops no_peer tpl argv w v g b = Ret (Inr y) \<longleftrightarrow>
     (\<exists>args. parse_args pa argv = Ret args \<and> role args = Bob \<and> run_bob fuel benv bops tpl args (bob_run_start v b) = y)"
  by (auto simp: testbed_main_def split: bind_splits Role.splits)

subsection \<open>The keys of a connection\<close>

text \<open>
  The groups the two ends hand to their configurations: Alice's log behind its mutex, Bob's group
  behind his, each in a box.
\<close>

abbreviation alice_keys where
  "alice_keys aops \<equiv> box_dyn (arc_mutex (commit_log_ops aops))"

abbreviation bob_keys where
  "bob_keys bops \<equiv> box_dyn (arc_mutex bops)"

lemma wrapped_keys:
  "\<not> poisoned m \<Longrightarrow> derive_mls_keys lib (alice_keys aops) m level sd ctx = derive_mls_keys lib aops (inner (guarded m)) level sd ctx"
  "\<not> poisoned n \<Longrightarrow> derive_mls_keys lib (bob_keys bops) n level sd ctx = derive_mls_keys lib bops (guarded n) level sd ctx"
  by (simp_all add: box.derive_mls_keys_view mutex.derive_mls_keys_view logged.derive_mls_keys_view)

lemma members_wrapped:
  assumes "mls_members aops bops same" and "same (inner (guarded m)) (guarded n)" and "\<not> poisoned m" and "\<not> poisoned n"
    and "derive_mls_keys lib (alice_keys aops) m level Client ctx = Ret (Inr ks)"
  shows "derive_mls_keys lib (bob_keys bops) n level Server ctx = Ret (Inr (swap_keys ks))"
  using members_derive [OF assms(1,2)] assms(5)
  unfolding wrapped_keys(1) [OF assms(3)] wrapped_keys(2) [OF assms(4)] .

text \<open>Two handshakes that begin while the groups are in one epoch and that both end hand out the same keys.\<close>

lemma members_handshake:
  assumes "derive_mls_keys lib ops_c gc ''0-rtt'' Client [] = Ret (Inr k)"
    and "derive_mls_keys lib ops_s gs ''0-rtt'' Server [] = Ret (Inr (swap_keys k))"
    and "session_new tpl gc Client pc = Ret c" and "session_new tpl gs Server ps = Ret s"
    and "session_run lib ops_c tpl (WriteHandshake b1 # evs1) c = Ret (ks1, c')" and "state c' = Done"
    and "session_run lib ops_s tpl (WriteHandshake b2 # evs2) s = Ret (ks2, s')" and "state s' = Done"
  shows "ks1 = [k, k] \<and> ks2 = [swap_keys k, swap_keys k]"
proof -
  from assms(3,4) have new: "state c = Initial" "side c = Client" "group c = gc" "state s = Initial" "side s = Server" "group s = gs"
    by (auto simp: session_new_def split: bind_splits)
  from first_write_pins [OF new(1) _ assms(5)] first_write_pins [OF new(4) _ assms(7)] new assms(1,2,6,8)
  show ?thesis by (simp add: copies_def numeral_2_eq_2)
qed

subsection \<open>The two processes\<close>

text \<open>What the sender put on the wire carries windows of her commits.\<close>

lemma heard_carries:
  assumes "apply_atomic bops" and "run_alice fuel env aops bops no_peer args (alice_start w g g0) = (ra, sa)"
    and "length (made sa) < 2 ^ 64" and "hears benv (\<lambda>d. d \<in> set (wire sa))"
  shows "hears benv (carries (made sa))"
  using network_carries [OF reach_sync_inv [OF run_alice_reaches [OF assms(1-3)] assms(1)]] assms(4)
  unfolding hears_def by (auto simp: protocol_state_def)

text \<open>In the sender's epoch, the receiver's group is a member in that of hers.\<close>

lemma same_epoch_same_group:
  assumes "apply_atomic bops" and "mls_members aops bops same" and "same g g0"
    and "run_alice fuel env aops bops no_peer args (alice_start w g g0) = (ra, sa)" and "length (made sa) < 2 ^ 64"
    and "run_bob fuel' benv bops tpl args' (bob_run_start v g0) = (rb, sb)"
    and "hears benv (\<lambda>d. d \<in> set (wire sa))"
  shows "\<not> poisoned (bob_group (shared sb)) \<and> \<not> poisoned (local_epoch (shared sb))
    \<and> guarded (local_epoch (shared sb)) \<le> current_epoch (guarded (alice_group sa))
    \<and> (\<not> poisoned (alice_group sa) \<and> guarded (local_epoch (shared sb)) = current_epoch (guarded (alice_group sa))
         \<longrightarrow> same (inner (guarded (alice_group sa))) (guarded (bob_group (shared sb))))"
proof -
  let ?e = "guarded (local_epoch (shared sb))"
  note bob = run_bob_replays [OF assms(1,5) heard_carries [OF assms(1,4,5,7)] assms(6), unfolded replaying_def]
  from run_alice_agreed [OF assms(2,3,4)] obtain b where
    b: "apply_commits bops g0 (made sa) = Ret (Inr (), b, length (made sa))"
      "\<not> poisoned (alice_group sa) \<longrightarrow> same (inner (guarded (alice_group sa))) b"
    unfolding agreed_def by blast
  have "bob_ok bops g0 (made sa) (fold (handle_arrival bops) (handled sb) (bob_new g0))"
    by (rule accepted_arrivals [OF assms(1,5) _ _ bob_ok_new]) (use b(1) bob in \<open>auto simp: accepts_def\<close>)
  with bob have alive: "\<not> poisoned (bob_group (shared sb))" "\<not> poisoned (local_epoch (shared sb))"
    unfolding bob_ok_def by auto
  with bob have replay: "unat ?e \<le> length (made sa)"
    "apply_commits bops g0 (take (unat ?e) (made sa)) = Ret (Inr (), guarded (bob_group (shared sb)), unat ?e)"
    unfolding replays_def bob_ok_def by metis+
  have cur: "unat (current_epoch (guarded (alice_group sa))) = length (made sa)"
    using sync_invD(2) [OF reach_sync_inv [OF run_alice_reaches [OF assms(1,4,5)] assms(1)]] by (simp add: protocol_state_def)
  have "guarded (bob_group (shared sb)) = b" if "?e = current_epoch (guarded (alice_group sa))"
    using replay(2) b(1) that cur by simp
  with alive replay(1) b(2) cur show ?thesis by (auto simp: word_le_nat_alt)
qed

text \<open>
  C6: The testbed agrees on its keys. Let two processes be started from their command lines, one as the
  sender and one as the receiver, on groups that the two bootstraps ended with, over a library
  of which \<open>mls_members\<close> holds and in which whoever joins by a welcome is a member in the epoch of its
  sender; and let every preamble that arrives at the receiver be one the sender has put on the wire,
  all of them lost, repeated, reordered or late as they may be. Then, wherever the two stop, the receiver has not panicked
  over a commit and is not ahead of the sender; and while both are in the same epoch, unless her lock was poisoned by
  a panic, the keys she exports for any level and context are the ones he exports, with local and remote exchanged,
  and two sessions of a connection that begin then, however the groups change meanwhile, hand out the same keys
  when their handshakes are done.
\<close>

theorem testbed_agrees_on_keys:
  assumes "apply_atomic bops" and "mls_members aops bops same" and "bootstrap la lb = Ret (g, b) \<longrightarrow> same g b"
    and "self_delimiting la lb" and "self_delimiting lb la" and "reach boot_init (boot_step la lb) (A_Done g, B_Done b, fs)"
    and "testbed_main fuel pa aenv benv aops bops no_peer tpl argv w v g b = Ret (Inl (ra, sa))"
    and "testbed_main fuel' pa aenv benv aops bops no_peer tpl argv' w v g b = Ret (Inr (rb, sb))"
    and "length (made sa) < 2 ^ 64" and "hears benv (\<lambda>d. d \<in> set (wire sa))"
  shows "let e = guarded (local_epoch (shared sb)); k = current_epoch (guarded (alice_group sa));
             alices = derive_mls_keys lib (alice_keys aops) (alice_group sa);
             bobs = derive_mls_keys lib (bob_keys bops) (bob_group (shared sb)) in
      \<not> poisoned (bob_group (shared sb)) \<and> \<not> poisoned (local_epoch (shared sb)) \<and> e \<le> k
    \<and> (e = k \<and> \<not> poisoned (alice_group sa) \<longrightarrow>
         (\<forall>level ctx ks. alices level Client ctx = Ret (Inr ks) \<longrightarrow> bobs level Server ctx = Ret (Inr (swap_keys ks)))
       \<and> (\<forall>ks c pc s ps b1 evs1 c' cs b2 evs2 s' ss.
            alices ''0-rtt'' Client [] = Ret (Inr ks)
          \<and> session_new tpl (alice_group sa) Client pc = Ret c \<and> session_new tpl (bob_group (shared sb)) Server ps = Ret s
          \<and> session_run lib (alice_keys aops) tpl (WriteHandshake b1 # evs1) c = Ret (cs, c') \<and> state c' = Done
          \<and> session_run lib (bob_keys bops) tpl (WriteHandshake b2 # evs2) s = Ret (ss, s') \<and> state s' = Done
          \<longrightarrow> cs = [ks, ks] \<and> ss = [swap_keys ks, swap_keys ks]))"
proof -
  from assms(7) obtain args where "parse_args pa argv = Ret args"
    and alice: "run_alice fuel aenv aops bops no_peer args (alice_start w g b) = (ra, sa)"
    unfolding testbed_main_alice by blast
  from assms(8) obtain args' where "parse_args pa argv' = Ret args'"
    and bob: "run_bob fuel' benv bops tpl args' (bob_run_start v b) = (rb, sb)"
    unfolding testbed_main_bob by blast
  have "same g b" by (rule mp [OF assms(3) done_bootstrapped [OF reach_boot_inv [OF assms(6,4,5)]]])
  note groups = same_epoch_same_group [OF assms(1,2) this alice assms(9) bob assms(10)]
  let ?level = "guarded (local_epoch (shared sb)) = current_epoch (guarded (alice_group sa)) \<and> \<not> poisoned (alice_group sa)"
  let ?alices = "derive_mls_keys lib (alice_keys aops) (alice_group sa)"
    and ?bobs = "derive_mls_keys lib (bob_keys bops) (bob_group (shared sb))"
  have swap: "?bobs level Server ctx = Ret (Inr (swap_keys ks))"
    if "?level" and "?alices level Client ctx = Ret (Inr ks)" for level ctx ks
    by (rule members_wrapped [OF assms(2) _ _ _ that(2)]) (use groups that(1) in simp_all)
  have hand: "cs = [ks, ks] \<and> ss = [swap_keys ks, swap_keys ks]"
    if "?level" and "?alices ''0-rtt'' Client [] = Ret (Inr ks)
      \<and> session_new tpl (alice_group sa) Client pc = Ret c \<and> session_new tpl (bob_group (shared sb)) Server ps = Ret s
      \<and> session_run lib (alice_keys aops) tpl (WriteHandshake b1 # evs1) c = Ret (cs, c') \<and> state c' = Done
      \<and> session_run lib (bob_keys bops) tpl (WriteHandshake b2 # evs2) s = Ret (ss, s') \<and> state s' = Done"
    for ks c pc s ps b1 evs1 c' cs b2 evs2 s' ss
    using that(2) by (elim conjE) (rule members_handshake [OF _ swap [OF that(1)]])
  show ?thesis
    unfolding Let_def
    by ((rule conjI, use groups in simp)+, rule impI, rule conjI)
      (intro allI impI, rule swap hand; assumption)+
qed

subsection \<open>A concrete testbed\<close>

text \<open>
  For the witness: the sample worlds with a clock that advances by a second per reading, the
  command lines of a scenario of sixteen seconds, and a library in which both ends of the bootstrap
  have the group of epoch 0.
\<close>

definition sample_receiver_env :: "(duration, string, bytes) bob_env" where
  "sample_receiver_env = sample_bob_env\<lparr>while_open := \<lambda>w. ([Observe, Arrival sample_datagram, Observe], w)\<rparr>"

lemma sample_datagram_window: "decode_transcript (tl sample_datagram) = Ret (Inr [(1, [1])])"
proof -
  have "[(1, [1])] \<in> set (bucket_window [(1, [1])] 1000 (MAX_DATAGRAM_PAYLOAD - 1))" by (simp only: sample_bucket) simp
  from preamble_bucket_ok(3) [OF this] show ?thesis by (simp add: sample_datagram_def)
qed

lemma sample_arrival:
  "handle_arrival sample_ops sample_datagram b = (case commit_sink sample_ops b [(1, [1])] of Some b' \<Rightarrow> b'
     | None \<Rightarrow> b\<lparr>bob_group := (bob_group b)\<lparr>poisoned := True\<rparr>, local_epoch := (local_epoch b)\<lparr>poisoned := True\<rparr>\<rparr>)"
  by (simp add: handle_arrival_def bob_receive_window [OF sample_datagram_window] split: option.split)

definition alice_line :: "string list" where
  "alice_line = [''--role'', ''alice'', ''--bind'', ''a'', ''--peer'', ''b'', ''--duration-secs'', ''16'',
     ''--commit-interval-secs'', ''1'', ''--transcript-max-bytes'', ''1000'']"

definition bob_line :: "string list" where
  "bob_line = [''--role'', ''bob'', ''--bind'', ''b'', ''--duration-secs'', ''8'']"

definition seconds_alice :: "(duration, string, string) alice_env" where
  "seconds_alice = sample_alice_env\<lparr>now := \<lambda>w. (w + 10 ^ 9, w + 10 ^ 9)\<rparr>"

definition seconds_bob :: "(duration, string, bytes) bob_env" where
  "seconds_bob = sample_receiver_env\<lparr>now := \<lambda>w. (w + 10 ^ 9, w + 10 ^ 9)\<rparr>"

lemma parse_lines:
  "parse_args Some alice_line = Ret \<lparr>role = Alice, bind_addr = ''a'', peer_addr = Some ''b'',
     bootstrap_dir = ''/tmp/testbed-bootstrap'', commit_interval = from_secs 1, duration = from_secs 16,
     out_path = ''testbed-runner.csv'', blackout_on = 0, blackout_off = 0, report_timeout = from_secs 10,
     transcript_max_bytes = 1000\<rparr>"
  "parse_args Some bob_line = Ret \<lparr>role = Bob, bind_addr = ''b'', peer_addr = None,
     bootstrap_dir = ''/tmp/testbed-bootstrap'', commit_interval = from_secs 30, duration = from_secs 8,
     out_path = ''testbed-runner.csv'', blackout_on = 0, blackout_off = 0, report_timeout = from_secs 10,
     transcript_max_bytes = DEFAULT_TRANSCRIPT_MAX_BYTES\<rparr>"
  by (simp_all add: parse_args_def alice_line_def bob_line_def arg_defaults_def set_flag_def parse_role_def
      parse_secs_def parse_uint_def from_secs_def)

definition alice_process where
  "alice_process = testbed_main 20 Some seconds_alice seconds_bob sample_ops sample_ops ''no peer'' sample_tp alice_line 0 0 0 0"

definition bob_process where
  "bob_process = testbed_main 9 Some seconds_alice seconds_bob sample_ops sample_ops ''no peer'' sample_tp bob_line 0 0 0 0"

lemma alice_process_ends:
  "\<exists>sa. alice_process = Ret (Inl (Inr (), sa)) \<and> made sa = [[1]] \<and> wire sa = [sample_datagram]
     \<and> alice_group sa = \<lparr>poisoned = False, guarded = sample_log 1 [(1, [1])] 1 0\<rparr>"
  by (simp add: alice_process_def testbed_main_def parse_lines run_alice_def alice_start_def commit_log_new_def btree_new_def bob_new_def run_simps seconds_alice_def sample_alice_env_def duration_add_def duration_MAX_def from_secs_def mutex_new_def)
    (simp add: alice_defs run_simps instant_add_def instant_END_def sample_ready [simplified] Let_def sample_log_simps sample_send)

lemma bob_process_ends:
  "\<exists>sb. bob_process = Ret (Inr (Inr (), sb))
     \<and> local_epoch (shared sb) = \<lparr>poisoned = False, guarded = 1\<rparr>
     \<and> bob_group (shared sb) = \<lparr>poisoned = False, guarded = 1\<rparr>"
  by (simp add: bob_process_def testbed_main_def parse_lines run_bob_def bob_run_start_def bob_new_def run_simps
        seconds_bob_def sample_receiver_env_def sample_bob_env_def from_secs_def bob_defs sample_arrival commit_sink_def Let_def)

definition sample_exchange :: "(unit, unit, string, u8, nat, nat \<times> u8, nat, string) boot_lib" where
  "sample_exchange =
     \<lparr>cipher_suite_provider = Some (), signature_key_generate = (\<lambda>_. Inr ()), build_client = (\<lambda>name _. name),
      generate_key_package_message = (\<lambda>c. Inr 7), to_bytes = (\<lambda>m. Inr [m]),
      from_bytes = (\<lambda>bs. case bs of [] \<Rightarrow> Inl ''empty'' | m # _ \<Rightarrow> Inr m), create_group = (\<lambda>c. Inr 0),
      add_member = (\<lambda>g m. Inr (g, m)), build_commit = (\<lambda>(g, m). Inr (g, [m + 1])),
      apply_pending_commit = Inr, join_group = (\<lambda>c m. Inr 0)\<rparr>"

lemma sample_exchange_ends:
  "bootstrap sample_exchange sample_exchange = Ret (0, 0)" "self_delimiting sample_exchange sample_exchange"
  "\<exists>fs. reach boot_init (boot_step sample_exchange sample_exchange) (A_Done 0, B_Done 0, fs)"
proof -
  show run: "bootstrap sample_exchange sample_exchange = Ret (0, 0)"
    by (simp add: bootstrap_def bob_offer_def alice_begin_def alice_reply_def bob_join_def make_client_def
        sample_exchange_def index_def)
  show msgs: "self_delimiting sample_exchange sample_exchange"
    by (auto simp: self_delimiting_def sample_exchange_def strict_prefix_def prefix_Cons)
  let ?s = "(A_Start, B_Start, \<lparr>kp_file = None, welcome_file = None\<rparr>)"
  have "boot_inv sample_exchange sample_exchange ?s"
    by (rule reach_boot_inv [OF reach_init msgs msgs]) (simp add: boot_init_def)
  from boot_completes [OF this msgs msgs run] show "\<exists>fs. reach boot_init (boot_step sample_exchange sample_exchange) (A_Done 0, B_Done 0, fs)"
    using boot_reaches by fastforce
qed

lemma sample_members: "mls_members sample_ops sample_ops (=)"
  by (simp add: mls_members_def)

lemma testbed_agrees_on_keys_witness:
  "\<exists>sa sb ks. alice_process = Ret (Inl (Inr (), sa)) \<and> bob_process = Ret (Inr (Inr (), sb))
     \<and> derive_mls_keys sample_hkdf (alice_keys sample_ops) (alice_group sa) ''0-rtt'' Client [] = Ret (Inr ks)
     \<and> derive_mls_keys sample_hkdf (bob_keys sample_ops) (bob_group (shared sb)) ''0-rtt'' Server [] = Ret (Inr (swap_keys ks))"
proof -
  from alice_process_ends obtain sa where a: "alice_process = Ret (Inl (Inr (), sa))" "made sa = [[1]]" "wire sa = [sample_datagram]"
    "alice_group sa = \<lparr>poisoned = False, guarded = sample_log 1 [(1, [1])] 1 0\<rparr>" by blast
  from bob_process_ends obtain sb where b: "bob_process = Ret (Inr (Inr (), sb))"
    "local_epoch (shared sb) = \<lparr>poisoned = False, guarded = 1\<rparr>" by blast
  from sample_exchange_ends(3) obtain fs where boot: "reach boot_init (boot_step sample_exchange sample_exchange) (A_Done 0, B_Done 0, fs)"
    by blast
  have "length (made sa) < 2 ^ 64" "hears seconds_bob (\<lambda>d. d \<in> set (wire sa))"
    by (simp_all add: a hears_def seconds_bob_def sample_receiver_env_def sample_bob_env_def)
  note agree = testbed_agrees_on_keys [OF sample_atomic sample_members _ sample_exchange_ends(2) sample_exchange_ends(2) boot
      a(1) [unfolded alice_process_def] b(1) [unfolded bob_process_def] this, of sample_hkdf]
  obtain ks where ks: "derive_mls_keys sample_hkdf sample_ops 1 ''0-rtt'' Client [] = Ret (Inr ks)" by (rule sample_derive)
  then have alice: "derive_mls_keys sample_hkdf (alice_keys sample_ops) (alice_group sa) ''0-rtt'' Client [] = Ret (Inr ks)"
    by (simp add: wrapped_keys(1) a(4) sample_log_def)
  have "guarded (local_epoch (shared sb)) = current_epoch (guarded (alice_group sa)) \<and> \<not> poisoned (alice_group sa)"
    by (simp add: a(4) b(2) sample_log_def)
  with agree alice have "derive_mls_keys sample_hkdf (bob_keys sample_ops) (bob_group (shared sb)) ''0-rtt'' Server [] = Ret (Inr (swap_keys ks))"
    unfolding Let_def by blast
  with a(1) b(1) alice show ?thesis by blast
qed

end
