(* ===== verification/Tls_Baseline.thy ===== *)
theory Tls_Baseline
  imports Runtime
begin

text \<open>
  The TLS baseline of the measurements (\<open>quic-tls/src/main.rs\<close>): the client, which makes one full
  handshake and then reconnects a number of times after a blackout, writing a record of each, and
  the server's loop over the streams of a connection. Endpoints and connections of quinn and the TLS
  library are parameters over the outside world; a time in milliseconds is kept in nanoseconds.

  Shown is that the client's records are numbered without a gap, that they name the kind of handshake
  that was made, and that without resumption no record ever claims early data.
\<close>

record Record =
  rec_role :: string
  phase :: string
  channel :: string
  rtt_ms :: u64
  iteration :: u32
  handshake_ms :: duration
  setup_tx_bytes :: u64
  setup_rx_bytes :: u64
  crypto_frames_tx :: u64
  crypto_frames_rx :: u64
  rec_mode :: string
  zero_rtt_flag :: bool

record tls_client_config =
  resumption_disabled :: bool
  enable_early_data :: bool
  idle_secs :: u64

record ('w, 'e, 'c, 'x) tls_env = "'w os" +
  idle_timeout_secs :: "u64 \<Rightarrow> unit option"
  quic_client_config :: "bool \<Rightarrow> bool \<Rightarrow> 'e + unit"
  client_endpoint :: "'w \<Rightarrow> ('e + unit) \<times> 'w"
  set_default_config :: "tls_client_config \<Rightarrow> 'w \<Rightarrow> unit \<times> 'w"
  start_connect :: "'w \<Rightarrow> ('e + 'c) \<times> 'w"
  await_connect :: "'c \<Rightarrow> 'w \<Rightarrow> ('e + 'x) \<times> 'w"
  into_0rtt :: "'c \<Rightarrow> 'w \<Rightarrow> ('c + 'x) \<times> 'w"
  await_accepted :: "'x \<Rightarrow> 'w \<Rightarrow> bool \<times> 'w"
  setup_bytes :: "'x \<Rightarrow> 'w \<Rightarrow> (u64 \<times> u64 \<times> u64 \<times> u64) \<times> 'w"
  close_conn :: "'x \<Rightarrow> 'w \<Rightarrow> unit \<times> 'w"
  wait_idle :: "'w \<Rightarrow> unit \<times> 'w"

record 'w tls_run = "'w runner" +
  records :: "Record list"

type_synonym ('w, 'e, 'y) tls_program = "('w tls_run, 'e, 'y) program"

text \<open>What \<open>emit\<close> prints; serialising a record of plain values does not fail.\<close>

definition emit :: "Record \<Rightarrow> ('w, 'e, unit) tls_program" where
  "emit r = set_state (\<lambda>s. s\<lparr>records := records s @ [r]\<rparr>)"

text \<open>\<open>build_client_config\<close> with \<open>transport\<close>: early data goes with resumption.\<close>

definition build_client_config ::
    "('w, 'e, 'c, 'x) tls_env \<Rightarrow> bool \<Rightarrow> u64 \<Rightarrow> ('w, 'e, tls_client_config) tls_program" where
  "build_client_config env no_resumption idle =
     (let disabled = no_resumption;
          early = \<not> no_resumption
      in and_then (question (quic_client_config env disabled early)) (\<lambda>_.
         and_then (expect ''called unwrap on an error'' (idle_timeout_secs env idle)) (\<lambda>_.
         pure \<lparr>resumption_disabled = disabled, enable_early_data = early, idle_secs = idle\<rparr>)))"

type_synonym 'x handshake = "'x \<times> duration \<times> u64 \<times> u64 \<times> u64 \<times> u64"

definition full_handshake :: "('w, 'e, 'c, 'x) tls_env \<Rightarrow> ('w, 'e, 'x handshake) tls_program" where
  "full_handshake env =
     and_then (ask (now env)) (\<lambda>t0.
     and_then (ask (start_connect env)) (\<lambda>r.
     and_then (question r) (\<lambda>connecting.
     and_then (ask (await_connect env connecting)) (\<lambda>r.
     and_then (question r) (\<lambda>conn.
     and_then (elapsed env t0) (\<lambda>ms.
     and_then (ask (setup_bytes env conn)) (\<lambda>(tx, rx, ctx, crx).
     pure (conn, ms, tx, rx, ctx, crx))))))))"

definition reconnect ::
    "('w, 'e, 'c, 'x) tls_env \<Rightarrow> bool \<Rightarrow> ('w, 'e, 'x handshake \<times> string \<times> bool) tls_program" where
  "reconnect env no_resumption =
     (if no_resumption
      then and_then (full_handshake env) (\<lambda>h. pure (h, ''full-1rtt'', False))
      else
        and_then (ask (start_connect env)) (\<lambda>r.
        and_then (question r) (\<lambda>connecting.
        and_then (ask (now env)) (\<lambda>t0.
        and_then (ask (into_0rtt env connecting)) (\<lambda>early.
        case early of
          Inr conn \<Rightarrow>
            and_then (elapsed env t0) (\<lambda>ms.
            and_then (ask (await_accepted env conn)) (\<lambda>zrtt.
            and_then (ask (setup_bytes env conn)) (\<lambda>(tx, rx, ctx, crx).
            pure ((conn, ms, tx, rx, ctx, crx), ''0rtt'', zrtt))))
        | Inl connecting \<Rightarrow>
            and_then (ask (await_connect env connecting)) (\<lambda>r.
            and_then (question r) (\<lambda>conn.
            and_then (elapsed env t0) (\<lambda>ms.
            and_then (ask (setup_bytes env conn)) (\<lambda>(tx, rx, ctx, crx).
            pure ((conn, ms, tx, rx, ctx, crx), ''full-1rtt'', False))))))))))"

text \<open>The wait for a session ticket, in nanoseconds; the arithmetic is that of \<open>u64\<close>.\<close>

definition ticket_wait :: "('w, 'e, 'c, 'x) tls_env \<Rightarrow> bool \<Rightarrow> u64 \<Rightarrow> ('w, 'e, unit) tls_program" where
  "ticket_wait env no_resumption rtt =
     (if \<not> no_resumption then ask (sleep env (unat (2 * rtt + 2000) * 1000000)) else pure ())"

definition record_of ::
    "string \<Rightarrow> string \<Rightarrow> u64 \<Rightarrow> u32 \<Rightarrow> 'x handshake \<Rightarrow> string \<Rightarrow> bool \<Rightarrow> Record" where
  "record_of ph ch rtt i h m zrtt =
     (case h of (conn, ms, tx, rx, ctx, crx) \<Rightarrow>
        \<lparr>rec_role = ''client'', phase = ph, channel = ch, rtt_ms = rtt, iteration = i, handshake_ms = ms,
         setup_tx_bytes = tx, setup_rx_bytes = rx, crypto_frames_tx = ctx, crypto_frames_rx = crx,
         rec_mode = m, zero_rtt_flag = zrtt\<rparr>)"

definition reconnect_once ::
    "('w, 'e, 'c, 'x) tls_env \<Rightarrow> string \<Rightarrow> u64 \<Rightarrow> u64 \<Rightarrow> bool \<Rightarrow> nat \<Rightarrow> ('w, 'e, unit) tls_program" where
  "reconnect_once env ch rtt blackout_ms no_resumption i =
     and_then (if 0 < blackout_ms then ask (sleep env (unat blackout_ms * 1000000)) else pure ()) (\<lambda>_.
     and_then (reconnect env no_resumption) (\<lambda>(h, m, zrtt).
     and_then (emit (record_of ''reconnect'' ch rtt (word_of_nat i) h m zrtt)) (\<lambda>_.
     and_then (ticket_wait env no_resumption rtt) (\<lambda>_.
     ask (close_conn env (fst h))))))"

definition run_client ::
    "('w, 'e, 'c, 'x) tls_env \<Rightarrow> string \<Rightarrow> u64 \<Rightarrow> u32 \<Rightarrow> u64 \<Rightarrow> bool \<Rightarrow> u64 \<Rightarrow> ('w, 'e, unit) tls_program" where
  "run_client env ch rtt reconnects blackout_ms no_resumption idle =
     and_then (ask (client_endpoint env)) (\<lambda>r.
     and_then (question r) (\<lambda>_.
     and_then (build_client_config env no_resumption idle) (\<lambda>cfg.
     and_then (ask (set_default_config env cfg)) (\<lambda>_.
     and_then (full_handshake env) (\<lambda>h.
     and_then (emit (record_of ''initial_handshake'' ch rtt 0 h ''full-1rtt'' False)) (\<lambda>_.
     and_then (ticket_wait env no_resumption rtt) (\<lambda>_.
     and_then (ask (close_conn env (fst h))) (\<lambda>_.
     and_then (for_range (reconnect_once env ch rtt blackout_ms no_resumption) 1 (unat reconnects)) (\<lambda>_.
     ask (wait_idle env))))))))))"

definition tls_start :: "'w \<Rightarrow> 'w tls_run" where
  "tls_start w = \<lparr>world = w, rows = [], records = []\<rparr>"

subsection \<open>The records\<close>

text \<open>A record claims early data only for a handshake that used it, and only with resumption.\<close>

definition honest :: "bool \<Rightarrow> Record \<Rightarrow> bool" where
  "honest no_resumption r \<longleftrightarrow> rec_mode r \<in> {''full-1rtt'', ''0rtt''} \<and> (zero_rtt_flag r \<longrightarrow> rec_mode r = ''0rtt'')
     \<and> (no_resumption \<longrightarrow> rec_mode r = ''full-1rtt'')"

definition phase_of :: "nat \<Rightarrow> string" where
  "phase_of i = (if i = 0 then ''initial_handshake'' else ''reconnect'')"

definition numbered :: "bool \<Rightarrow> nat \<Rightarrow> 'w tls_run \<Rightarrow> bool" where
  "numbered nr n st \<longleftrightarrow> map iteration (records st) = map word_of_nat [0..<n]
     \<and> map phase (records st) = map phase_of [0..<n] \<and> (\<forall>r \<in> set (records st). honest nr r)"

named_theorems silent \<open>statements that write no record\<close>

lemma numbered_ask [silent]: "keeps (numbered nr n) (ask f)"
  by (rule keeps_ask) (simp add: numbered_def)

lemma numbered_elapsed [silent]: "keeps (numbered nr n) (elapsed os t)"
  unfolding elapsed_def by (intro keeping silent)

lemma numbered_full [silent]: "keeps (numbered nr n) (full_handshake env)"
  unfolding full_handshake_def by (intro keeping silent)

lemma numbered_config [silent]: "keeps (numbered nr n) (build_client_config env no_res idle)"
  unfolding build_client_config_def Let_def by (intro keeping)

lemma numbered_wait [silent]: "keeps (numbered nr n) (ticket_wait env no_res rtt)"
  unfolding ticket_wait_def by (intro keeping silent)

lemma numbered_reconnect [silent]: "keeps (numbered nr n) (reconnect env no_res)"
  unfolding reconnect_def by (intro keeping silent)

text \<open>A reconnection gives a handshake with the name of its kind and whether early data was accepted.\<close>

abbreviation reconnect_record where
  "reconnect_record ph ch rtt i y \<equiv> record_of ph ch rtt i (fst y) (fst (snd y)) (snd (snd y))"

lemma reconnect_honest:
  "triple (\<lambda>_. True) (reconnect env nr) (\<lambda>y _. honest nr (reconnect_record ph ch rtt i y)) (\<lambda>_ _. True)"
  unfolding reconnect_def
  by (intro triple_if triple_and_then [OF triple_any] triple_case triple_pure)
    (auto simp: honest_def record_of_def split: prod.split)

lemma numbered_emit:
  assumes "honest nr (record_of (phase_of n) ch rtt (word_of_nat n) h m zrtt)"
  shows "triple (numbered nr n) (emit (record_of (phase_of n) ch rtt (word_of_nat n) h m zrtt)) (\<lambda>_. numbered nr (Suc n)) R"
  unfolding emit_def using assms
  by (intro triple_set_state; cases h) (auto simp: numbered_def record_of_def)

definition some_records :: "bool \<Rightarrow> nat \<Rightarrow> 'w tls_run \<Rightarrow> bool" where
  "some_records nr k st \<longleftrightarrow> (\<exists>n. numbered nr n st \<and> n \<le> Suc k)"

lemma silently:
  "keeps (numbered nr n) m \<Longrightarrow> n \<le> Suc k \<Longrightarrow> triple (numbered nr n) m (\<lambda>_. numbered nr n) (\<lambda>_. some_records nr k)"
  unfolding keeps_triple by (erule triple_conseq) (auto simp: some_records_def)

lemma reconnect_once_triple:
  assumes "0 < i" and "i \<le> k"
  shows "triple (numbered nr i) (reconnect_once env ch rtt blackout nr i) (\<lambda>_. numbered nr (Suc i)) (\<lambda>_. some_records nr k)"
proof -
  have ph: "phase_of i = ''reconnect''" using assms by (simp add: phase_of_def)
  have reconnected: "triple (numbered nr i) (reconnect env nr)
      (\<lambda>y st. numbered nr i st \<and> honest nr (reconnect_record (phase_of i) ch rtt (word_of_nat i) y)) (\<lambda>_. some_records nr k)"
    by (rule triple_conseq [OF triple_both [OF silently [OF numbered_reconnect] reconnect_honest]])
      (use assms in auto)
  have n: "i \<le> Suc k" "Suc i \<le> Suc k" using assms by simp_all
  have rest: "triple (numbered nr (Suc i)) (and_then (ticket_wait env nr rtt) (\<lambda>_. ask (close_conn env c)))
      (\<lambda>_. numbered nr (Suc i)) (\<lambda>_. some_records nr k)" for c
    by (rule silently [OF _ n(2)]) (intro keeping silent)
  show ?thesis
    unfolding reconnect_once_def
  proof (rule triple_and_then [OF silently [OF _ n(1)]])
    show "keeps (numbered nr i) (if 0 < blackout then ask (sleep env (unat blackout * 1000000)) else pure ())"
      by (intro keeping silent)
    have "triple (\<lambda>st. numbered nr i st \<and> honest nr (reconnect_record (phase_of i) ch rtt (word_of_nat i) y))
        (case y of (h, m, zrtt) \<Rightarrow> and_then (emit (record_of ''reconnect'' ch rtt (word_of_nat i) h m zrtt)) (\<lambda>_.
           and_then (ticket_wait env nr rtt) (\<lambda>_. ask (close_conn env (fst h)))))
        (\<lambda>_. numbered nr (Suc i)) (\<lambda>_. some_records nr k)" for y
      unfolding ph [symmetric]
      by (cases y; simp only: prod.case fst_conv snd_conv; rule triple_given; rule triple_and_then [OF numbered_emit rest]; assumption)
    from triple_and_then [OF reconnected this]
    show "triple (numbered nr i) (and_then (reconnect env nr) (\<lambda>(h, m, zrtt).
           and_then (emit (record_of ''reconnect'' ch rtt (word_of_nat i) h m zrtt)) (\<lambda>_.
           and_then (ticket_wait env nr rtt) (\<lambda>_. ask (close_conn env (fst h))))))
        (\<lambda>_. numbered nr (Suc i)) (\<lambda>_. some_records nr k)" .
  qed
qed

lemma run_client_triple:
  "triple (numbered nr 0) (run_client env ch rtt reconnects blackout nr idle)
     (\<lambda>_. numbered nr (Suc (unat reconnects))) (\<lambda>_. some_records nr (unat reconnects))"
proof -
  let ?k = "unat reconnects"
  have quiet: "triple (numbered nr n) (and_then m l) Q (\<lambda>_. some_records nr ?k)"
    if "n \<le> Suc ?k" "keeps (numbered nr n) m" "\<And>x. triple (numbered nr n) (l x) Q (\<lambda>_. some_records nr ?k)"
    for n m l Q
    by (rule triple_and_then [OF silently [OF that(2,1)] that(3)])
  have initial: "triple (numbered nr 0) (emit (record_of ''initial_handshake'' ch rtt 0 h ''full-1rtt'' False))
      (\<lambda>_. numbered nr 1) R" for h R
    using numbered_emit [of nr 0 ch rtt h "''full-1rtt''" False R]
    by (cases h) (simp add: phase_of_def honest_def record_of_def)
  have loop: "triple (numbered nr 1) (for_range (reconnect_once env ch rtt blackout nr) 1 ?k)
      (\<lambda>_. numbered nr (Suc ?k)) (\<lambda>_. some_records nr ?k)"
    by (rule triple_for_range) (auto intro: reconnect_once_triple)
  show ?thesis
    unfolding run_client_def
    by (rule quiet, simp, intro silent keeping)+
      (rule triple_and_then [OF initial], (rule quiet, simp, intro silent keeping)+,
       rule triple_and_then [OF loop], rule silently, intro silent, simp)
qed

lemma run_client_numbered:
  assumes "run_client env ch rtt reconnects blackout no_resumption idle (tls_start w) = (r, st)"
  shows "\<exists>n. numbered no_resumption n st \<and> n \<le> Suc (unat reconnects) \<and> (r = Inr () \<longrightarrow> n = Suc (unat reconnects))"
proof -
  have start: "numbered no_resumption 0 (tls_start w)" by (simp add: numbered_def tls_start_def)
  show ?thesis
  proof (cases r)
    case (Inl e)
    from tripleE [OF run_client_triple start assms [unfolded Inl]] Inl show ?thesis
      unfolding some_records_def by auto
  next
    case (Inr u)
    from tripleD [OF run_client_triple start assms [unfolded Inr]] Inr show ?thesis by auto
  qed
qed

text \<open>
  C17: The baseline's records. Whatever the network does, the records of the TLS client are an initial
  handshake and then reconnections with the iteration numbers 0, 1, 2, ... without a gap, and all of
  them once the run ends without an error; a record claims accepted early data only for a 0-RTT
  handshake, and without resumption every handshake is a full one without early data.
\<close>

theorem run_client_records:
  assumes "run_client env ch rtt reconnects blackout no_resumption idle (tls_start w) = (r, st)"
  shows "\<exists>n. map iteration (records st) = map word_of_nat [0..<n] \<and> map phase (records st) = map phase_of [0..<n]
    \<and> n \<le> Suc (unat reconnects) \<and> (r = Inr () \<longrightarrow> n = Suc (unat reconnects))
    \<and> (\<forall>x \<in> set (records st). (zero_rtt_flag x \<longrightarrow> rec_mode x = ''0rtt'')
         \<and> (no_resumption \<longrightarrow> rec_mode x = ''full-1rtt'' \<and> \<not> zero_rtt_flag x))"
proof -
  from run_client_numbered [OF assms] obtain n where num: "numbered no_resumption n st" and n: "n \<le> Suc (unat reconnects)"
    "r = Inr () \<longrightarrow> n = Suc (unat reconnects)" by blast
  from num n show ?thesis by (intro exI [of _ n]) (auto simp: numbered_def honest_def simp del: upt_Suc)
qed

subsection \<open>Witness\<close>

definition sample_tls_env :: "(duration, string, unit, unit) tls_env" where
  "sample_tls_env =
     \<lparr>now = (\<lambda>w. (w + 1, w + 1)), sleep = (\<lambda>d w. ((), w + d)), read_ready = (\<lambda>w. (None, w)),
      idle_timeout_secs = (\<lambda>s. Some ()), quic_client_config = (\<lambda>d e. Inr ()), client_endpoint = (\<lambda>w. (Inr (), w)),
      set_default_config = (\<lambda>c w. ((), w)), start_connect = (\<lambda>w. (Inr (), w)), await_connect = (\<lambda>c w. (Inr (), w)),
      into_0rtt = (\<lambda>c w. (Inr (), w)), await_accepted = (\<lambda>c w. (True, w)), setup_bytes = (\<lambda>c w. ((1, 2, 3, 4), w)),
      close_conn = (\<lambda>c w. ((), w)), wait_idle = (\<lambda>w. ((), w))\<rparr>"

lemma run_client_records_witness:
  "\<exists>st. run_client sample_tls_env ''leo'' 10 1 5 False 30 (tls_start 0) = (Inr (), st)
    \<and> map iteration (records st) = [0, 1]"
proof -
  have "fst (run_client sample_tls_env ''leo'' 10 1 5 False 30 (tls_start 0)) = Inr ()"
    by (simp add: run_client_def sample_tls_env_def run_simps build_client_config_def full_handshake_def emit_def
        ticket_wait_def for_range_def reconnect_once_def reconnect_def Let_def)
  then obtain st where run: "run_client sample_tls_env ''leo'' 10 1 5 False 30 (tls_start 0) = (Inr (), st)"
    by (metis prod.collapse)
  from run_client_records [OF run] have "map iteration (records st) = map word_of_nat [0..<2]"
    by (auto simp: numeral_2_eq_2)
  with run show ?thesis by (simp add: numeral_2_eq_2)
qed

end
