(* ===== verification/Echo.thy ===== *)
theory Echo
  imports Runtime "HOL-Library.Multiset"
begin

text \<open>
  The two servers that send back what they receive, the echo example (\<open>echo-server/src/lib.rs\<close>) and the
  server of the TLS baseline (\<open>quic-tls/src/main.rs\<close>), and the client of the example
  (\<open>echo-client/src/lib.rs\<close>). A server is a pool of tokio tasks: a step takes any task to its next await,
  where it may spawn tasks and any other may go on. The echo server has a task per stream, the
  baseline serves the streams of a connection one after another. The endpoint, connections and streams
  of quinn are parameters over the outside world; what a task does to its streams is kept.

  Shown for every interleaving are that a stream is answered with what was read from the same stream, at most
  once, and let go exactly once; and that the client, against the task of the server, gets back a prefix
  of its message, the whole if no call fails.
\<close>

record ('w, 'e, 'i, 'c, 's, 'r) quic_io =
  next_incoming :: "'w \<Rightarrow> 'i option \<times> 'w"
  accept_bi :: "'c \<Rightarrow> 'w \<Rightarrow> ('e + 's \<times> 'r) \<times> 'w"
  read_to_end :: "'r \<Rightarrow> nat \<Rightarrow> 'w \<Rightarrow> ('e + bytes) \<times> 'w"
  stream_write :: "'s \<Rightarrow> bytes \<Rightarrow> 'w \<Rightarrow> ('e + unit) \<times> 'w"
  stream_finish :: "'s \<Rightarrow> 'w \<Rightarrow> ('e + unit) \<times> 'w"
  stream_drop :: "'s \<Rightarrow> 'w \<Rightarrow> unit \<times> 'w"

record ('w, 'e, 'i, 'c, 's, 'r) echo_io = "('w, 'e, 'i, 'c, 's, 'r) quic_io" +
  establish :: "'i \<Rightarrow> 'w \<Rightarrow> ('e + 'c) \<times> 'w"

record ('w, 'e, 'i, 'c, 's, 'r, 'p) baseline_io = "('w, 'e, 'i, 'c, 's, 'r) quic_io" +
  incoming_accept :: "'i \<Rightarrow> 'w \<Rightarrow> ('e + 'p) \<times> 'w"
  server_0rtt :: "'p \<Rightarrow> 'w \<Rightarrow> ('p + 'c) \<times> 'w"
  handshake_done :: "'p \<Rightarrow> 'w \<Rightarrow> ('e + 'c) \<times> 'w"

text \<open>
  What a task waits for. A stream that the loop over its connection serves itself has that connection
  as what comes next.
\<close>

datatype ('i, 'p, 'c, 's, 'r, 'n) task =
    Listening
  | Incoming 'i
  | Handshaking 'p
  | Accepting 'c
  | Reading 'n 's 'r
  | Writing 'n 's bytes
  | Finishing 'n 's
  | Over

text \<open>
  The world, and what was done: the streams accepted, the reads with the bytes or nothing for an
  error, the writes with whether they succeeded, the streams finished, and those let go, which tells
  quinn to finish them too.
\<close>

record ('w, 's, 'r) server =
  outside :: 'w
  streams :: "('s \<times> 'r) list"
  got :: "('s \<times> 'r \<times> bytes option) list"
  replies :: "('s \<times> bytes \<times> bool) list"
  closed :: "'s list"
  dropped :: "'s list"

definition server_start :: "'w \<Rightarrow> ('w, 's, 'r) server" where
  "server_start w = \<lparr>outside = w, streams = [], got = [], replies = [], closed = [], dropped = []\<rparr>"

definition drop_stream ::
    "('w, 'e, 'i, 'c, 's, 'r, 'z) quic_io_scheme \<Rightarrow> 's \<Rightarrow> ('w, 's, 'r) server \<Rightarrow> ('w, 's, 'r) server" where
  "drop_stream q s st = st\<lparr>outside := snd (stream_drop q s (outside st)), dropped := dropped st @ [s]\<rparr>"

text \<open>\<open>serve\<close>: the accepting loop, and the part of a connection's task before its streams.\<close>

definition serve ::
    "('w, 'e, 'i, 'c, 's, 'r) echo_io \<Rightarrow> ('i, 'p, 'c, 's, 'r, unit) task \<Rightarrow> ('w, 's, 'r) server
      \<Rightarrow> ('i, 'p, 'c, 's, 'r, unit) task list \<times> ('i, 'p, 'c, 's, 'r, unit) task \<times> ('w, 's, 'r) server" where
  "serve q t st =
     (case t of
        Listening \<Rightarrow>
          (case next_incoming q (outside st) of
             (None, w) \<Rightarrow> ([], Over, st\<lparr>outside := w\<rparr>)
           | (Some i, w) \<Rightarrow> ([Incoming i], Listening, st\<lparr>outside := w\<rparr>))
      | Incoming i \<Rightarrow>
          (case establish q i (outside st) of
             (Inl _, w) \<Rightarrow> ([], Over, st\<lparr>outside := w\<rparr>)
           | (Inr c, w) \<Rightarrow> ([], Accepting c, st\<lparr>outside := w\<rparr>))
      | t \<Rightarrow> ([], t, st))"

text \<open>\<open>echo_streams\<close>: the loop spawns a task per stream, whatever the error that ends it.\<close>

definition echo_accept ::
    "('w, 'e, 'i, 'c, 's, 'r) echo_io \<Rightarrow> 'c \<Rightarrow> ('w, 's, 'r) server
      \<Rightarrow> ('i, 'p, 'c, 's, 'r, unit) task list \<times> ('i, 'p, 'c, 's, 'r, unit) task \<times> ('w, 's, 'r) server" where
  "echo_accept q conn st =
     (case accept_bi q conn (outside st) of
        (Inl _, w) \<Rightarrow> ([], Over, st\<lparr>outside := w\<rparr>)
      | (Inr (send, recv), w) \<Rightarrow>
          ([Reading () send recv], Accepting conn, st\<lparr>outside := w, streams := streams st @ [(send, recv)]\<rparr>))"

text \<open>The task of one stream.\<close>

definition echo_stream ::
    "('w, 'e, 'i, 'c, 's, 'r) echo_io \<Rightarrow> ('i, 'p, 'c, 's, 'r, unit) task \<Rightarrow> ('w, 's, 'r) server
      \<Rightarrow> ('i, 'p, 'c, 's, 'r, unit) task \<times> ('w, 's, 'r) server" where
  "echo_stream q t st =
     (case t of
        Reading n send recv \<Rightarrow>
          (case read_to_end q recv (2 ^ 20) (outside st) of
             (Inl _, w) \<Rightarrow> (Over, drop_stream q send (st\<lparr>outside := w, got := got st @ [(send, recv, None)]\<rparr>))
           | (Inr d, w) \<Rightarrow> (Writing n send d, st\<lparr>outside := w, got := got st @ [(send, recv, Some d)]\<rparr>))
      | Writing n send d \<Rightarrow>
          (case stream_write q send d (outside st) of
             (Inl _, w) \<Rightarrow> (Over, drop_stream q send (st\<lparr>outside := w, replies := replies st @ [(send, d, False)]\<rparr>))
           | (Inr _, w) \<Rightarrow> (Finishing n send, st\<lparr>outside := w, replies := replies st @ [(send, d, True)]\<rparr>))
      | Finishing n send \<Rightarrow>
          (case stream_finish q send (outside st) of
             (_, w) \<Rightarrow> (Over, drop_stream q send (st\<lparr>outside := w, closed := closed st @ [send]\<rparr>)))
      | t \<Rightarrow> (t, st))"

definition echo_task ::
    "('w, 'e, 'i, 'c, 's, 'r) echo_io \<Rightarrow> ('i, 'p, 'c, 's, 'r, unit) task \<Rightarrow> ('w, 's, 'r) server
      \<Rightarrow> ('i, 'p, 'c, 's, 'r, unit) task list \<times> ('i, 'p, 'c, 's, 'r, unit) task \<times> ('w, 's, 'r) server" where
  "echo_task q t st =
     (case t of
        Listening \<Rightarrow> serve q t st
      | Incoming _ \<Rightarrow> serve q t st
      | Accepting c \<Rightarrow> echo_accept q c st
      | _ \<Rightarrow> ([], echo_stream q t st))"

subsection \<open>The baseline server\<close>

text \<open>\<open>run_server\<close> after its configuration: only the accepting loop.\<close>

definition run_server ::
    "('w, 'e, 'i, 'c, 's, 'r, 'p) baseline_io \<Rightarrow> ('w, 's, 'r) server
      \<Rightarrow> ('i, 'p, 'c, 's, 'r, 'c) task list \<times> ('i, 'p, 'c, 's, 'r, 'c) task \<times> ('w, 's, 'r) server" where
  "run_server q st =
     (case next_incoming q (outside st) of
        (None, w) \<Rightarrow> ([], Over, st\<lparr>outside := w\<rparr>)
      | (Some i, w) \<Rightarrow> ([Incoming i], Listening, st\<lparr>outside := w\<rparr>))"

text \<open>
  \<open>handle_connection\<close>. Early data is accepted at once; a read that fails is taken for no data, the
  results of writing and finishing are ignored, and each arm of the \<open>match\<close> on an error breaks.
\<close>

definition handle_connection ::
    "('w, 'e, 'i, 'c, 's, 'r, 'p) baseline_io \<Rightarrow> ('i, 'p, 'c, 's, 'r, 'c) task \<Rightarrow> ('w, 's, 'r) server
      \<Rightarrow> ('i, 'p, 'c, 's, 'r, 'c) task \<times> ('w, 's, 'r) server" where
  "handle_connection q t st =
     (case t of
        Incoming i \<Rightarrow>
          (case incoming_accept q i (outside st) of
             (Inl _, w) \<Rightarrow> (Over, st\<lparr>outside := w\<rparr>)
           | (Inr connecting, w) \<Rightarrow>
               (case server_0rtt q connecting w of
                  (Inr conn, w) \<Rightarrow> (Accepting conn, st\<lparr>outside := w\<rparr>)
                | (Inl connecting, w) \<Rightarrow> (Handshaking connecting, st\<lparr>outside := w\<rparr>)))
      | Handshaking connecting \<Rightarrow>
          (case handshake_done q connecting (outside st) of
             (Inl _, w) \<Rightarrow> (Over, st\<lparr>outside := w\<rparr>)
           | (Inr conn, w) \<Rightarrow> (Accepting conn, st\<lparr>outside := w\<rparr>))
      | Accepting conn \<Rightarrow>
          (case accept_bi q conn (outside st) of
             (Inl _, w) \<Rightarrow> (Over, st\<lparr>outside := w\<rparr>)
           | (Inr (send, recv), w) \<Rightarrow>
               (Reading conn send recv, st\<lparr>outside := w, streams := streams st @ [(send, recv)]\<rparr>))
      | Reading conn send recv \<Rightarrow>
          (case read_to_end q recv (64 * 1024) (outside st) of
             (Inl _, w) \<Rightarrow> (Writing conn send [], st\<lparr>outside := w, got := got st @ [(send, recv, None)]\<rparr>)
           | (Inr d, w) \<Rightarrow> (Writing conn send d, st\<lparr>outside := w, got := got st @ [(send, recv, Some d)]\<rparr>))
      | Writing conn send d \<Rightarrow>
          (case stream_write q send d (outside st) of
             (r, w) \<Rightarrow> (Finishing conn send, st\<lparr>outside := w, replies := replies st @ [(send, d, r = Inr ())]\<rparr>))
      | Finishing conn send \<Rightarrow>
          (case stream_finish q send (outside st) of
             (_, w) \<Rightarrow> (Accepting conn, drop_stream q send (st\<lparr>outside := w, closed := closed st @ [send]\<rparr>)))
      | t \<Rightarrow> (t, st))"

definition baseline_task ::
    "('w, 'e, 'i, 'c, 's, 'r, 'p) baseline_io \<Rightarrow> ('i, 'p, 'c, 's, 'r, 'c) task \<Rightarrow> ('w, 's, 'r) server
      \<Rightarrow> ('i, 'p, 'c, 's, 'r, 'c) task list \<times> ('i, 'p, 'c, 's, 'r, 'c) task \<times> ('w, 's, 'r) server" where
  "baseline_task q t st = (if t = Listening then run_server q st else ([], handle_connection q t st))"

subsection \<open>The pool\<close>

inductive pool_step ::
    "('t \<Rightarrow> ('w, 's, 'r) server \<Rightarrow> 't list \<times> 't \<times> ('w, 's, 'r) server)
      \<Rightarrow> 't list \<times> ('w, 's, 'r) server \<Rightarrow> 't list \<times> ('w, 's, 'r) server \<Rightarrow> bool"
  for task_step where
  run_task: "i < length ts \<Longrightarrow> task_step (ts ! i) st = (spawned, t, st') \<Longrightarrow>
     pool_step task_step (ts, st) (ts[i := t] @ spawned, st')"

inductive_cases pool_stepE: "pool_step task_step (ts, st) p"

definition pool_init :: "('i, 'p, 'c, 's, 'r, 'n) task list \<times> ('w, 's, 'r) server \<Rightarrow> bool" where
  "pool_init p \<longleftrightarrow> (\<exists>w. p = ([Listening], server_start w))"

text \<open>
  A ledger of the streams: each is in the share of one task or counted as done. A step of a task moves
  streams from its share to those of the tasks after it or to the count, and opens what it accepts.
\<close>

locale task_ledger =
  fixes task_step :: "('i, 'p, 'c, 's, 'r, 'n) task \<Rightarrow> ('w, 's, 'r) server
      \<Rightarrow> ('i, 'p, 'c, 's, 'r, 'n) task list \<times> ('i, 'p, 'c, 's, 'r, 'n) task \<times> ('w, 's, 'r) server"
    and share :: "('i, 'p, 'c, 's, 'r, 'n) task \<Rightarrow> 's multiset"
    and tally :: "('w, 's, 'r) server \<Rightarrow> 's multiset"
  assumes start: "share Listening = {#}" "tally (server_start w) = {#}"
    and moves: "task_step t st = (ts, t', st') \<Longrightarrow>
      tally st' + share t' + sum_list (map share ts) + mset (map fst (streams st))
        = tally st + share t + mset (map fst (streams st'))"
begin

lemma shares_update:
  assumes "i < length ts"
  shows "sum_list (map share (ts[i := t])) + share (ts ! i) = sum_list (map share ts) + share t"
proof -
  have "sum_list (map share ts) = sum_list (map share (take i ts @ ts ! i # drop (Suc i) ts))"
    using id_take_nth_drop [OF assms] by simp
  then show ?thesis by (simp add: upd_conv_take_nth_drop [OF assms] add_ac)
qed

lemma balance_step:
  assumes "pool_step task_step (ts, st) (ts', st')" and "tally st + sum_list (map share ts) = mset (map fst (streams st))"
  shows "tally st' + sum_list (map share ts') = mset (map fst (streams st'))"
  using assms(1)
proof (rule pool_stepE)
  fix i u t v
  assume "(ts', st') = (ts[i := t] @ u, v)" and run: "i < length ts" "task_step (ts ! i) st = (u, t, v)"
  then have eq: "ts' = ts[i := t] @ u" "st' = v" by simp_all
  from moves [OF run(2)] shares_update [OF run(1), of t] assms(2)
  have "tally v + sum_list (map share (ts[i := t])) + sum_list (map share u) + (mset (map fst (streams st)) + share (ts ! i))
      = mset (map fst (streams v)) + (mset (map fst (streams st)) + share (ts ! i))"
    by (metis (no_types, lifting) add.assoc add.commute add.left_commute)
  then show ?thesis by (simp add: eq add.assoc)
qed

end

sublocale task_ledger \<subseteq> machine_invariant pool_init "pool_step task_step"
  "\<lambda>(ts, st). tally st + sum_list (map share ts) = mset (map fst (streams st))"
proof
  show "case p of (ts, st) \<Rightarrow> tally st + sum_list (map share ts) = mset (map fst (streams st))" if "pool_init p" for p
    using that by (auto simp: pool_init_def start server_start_def [THEN arg_cong [of _ _ streams]])
  show "case q of (ts, st) \<Rightarrow> tally st + sum_list (map share ts) = mset (map fst (streams st))"
    if "case p of (ts, st) \<Rightarrow> tally st + sum_list (map share ts) = mset (map fst (streams st))" "pool_step task_step p q" for p q
    using that balance_step by (cases p; cases q) simp
qed

text \<open>What a task knows, which no step of a task makes false, and what holds of the actions done.\<close>

locale task_content =
  fixes task_step :: "('i, 'p, 'c, 's, 'r, 'n) task \<Rightarrow> ('w, 's, 'r) server
      \<Rightarrow> ('i, 'p, 'c, 's, 'r, 'n) task list \<times> ('i, 'p, 'c, 's, 'r, 'n) task \<times> ('w, 's, 'r) server"
    and good :: "('w, 's, 'r) server \<Rightarrow> ('i, 'p, 'c, 's, 'r, 'n) task \<Rightarrow> bool"
    and sound :: "('w, 's, 'r) server \<Rightarrow> bool"
  assumes begins: "sound (server_start w)" "good (server_start w) Listening"
    and acts: "sound st \<Longrightarrow> good st t \<Longrightarrow> task_step t st = (ts, t', st') \<Longrightarrow>
      sound st' \<and> good st' t' \<and> (\<forall>u \<in> set ts. good st' u)"
    and frame: "good st u \<Longrightarrow> task_step t st = (ts, t', st') \<Longrightarrow> good st' u"

sublocale task_content \<subseteq> machine_invariant pool_init "pool_step task_step"
  "\<lambda>(ts, st). sound st \<and> (\<forall>u \<in> set ts. good st u)"
proof
  show "case p of (ts, st) \<Rightarrow> sound st \<and> (\<forall>u \<in> set ts. good st u)" if "pool_init p" for p
    using that by (auto simp: pool_init_def begins)
  show "case q of (ts, st) \<Rightarrow> sound st \<and> (\<forall>u \<in> set ts. good st u)"
    if "case p of (ts, st) \<Rightarrow> sound st \<and> (\<forall>u \<in> set ts. good st u)" "pool_step task_step p q" for p q
    using that(2,1)
  proof (induction rule: pool_step.induct)
    case (run_task i ts st spawned t st')
    then have "sound st" and all: "\<forall>u \<in> set ts. good st u" and "good st (ts ! i)" by simp_all
    from acts [OF this(1,3) run_task.hyps(2)] frame [OF _ run_task.hyps(2)] all
    show ?case using set_update_subset_insert [of ts i t] by auto
  qed
qed

subsection \<open>Both servers\<close>

text \<open>The stream a task holds, and that if it still has to answer it.\<close>

fun held :: "('i, 'p, 'c, 's, 'r, 'n) task \<Rightarrow> 's multiset" where
  "held (Reading n s r) = {#s#}"
| "held (Writing n s d) = {#s#}"
| "held (Finishing n s) = {#s#}"
| "held _ = {#}"

fun unanswered :: "('i, 'p, 'c, 's, 'r, 'n) task \<Rightarrow> 's multiset" where
  "unanswered (Reading n s r) = {#s#}"
| "unanswered (Writing n s d) = {#s#}"
| "unanswered _ = {#}"

definition answered :: "('w, 's, 'r) server \<Rightarrow> 's multiset" where
  "answered st = mset (map fst (replies st))"

definition unread :: "('w, 's, 'r) server \<Rightarrow> 's multiset" where
  "unread st = mset (map fst (filter (\<lambda>g. snd (snd g) = None) (got st)))"

lemma server_start_simps [simp]:
  "streams (server_start w) = []" "got (server_start w) = []" "replies (server_start w) = []"
  "closed (server_start w) = []" "dropped (server_start w) = []"
  by (simp_all add: server_start_def)

lemma drop_stream_simps [simp]:
  "streams (drop_stream q s st) = streams st" "got (drop_stream q s st) = got st" "replies (drop_stream q s st) = replies st"
  "closed (drop_stream q s st) = closed st" "dropped (drop_stream q s st) = dropped st @ [s]"
  by (simp_all add: drop_stream_def)

lemmas server_defs = echo_task_def serve_def echo_accept_def echo_stream_def
  baseline_task_def run_server_def handle_connection_def answered_def unread_def

interpretation echo_served: task_ledger "echo_task q" held "\<lambda>st. mset (dropped st)" for q
  by unfold_locales (auto simp: server_defs split: task.splits prod.splits option.splits sum.splits)

interpretation echo_answered: task_ledger "echo_task q" unanswered "\<lambda>st. answered st + unread st" for q
  by unfold_locales (auto simp: server_defs split: task.splits prod.splits option.splits sum.splits)

interpretation baseline_served: task_ledger "baseline_task q" held "\<lambda>st. mset (dropped st)" for q
  by unfold_locales (auto simp: server_defs split: task.splits prod.splits option.splits sum.splits if_splits)

interpretation baseline_answered: task_ledger "baseline_task q" unanswered answered for q
  by unfold_locales (auto simp: server_defs split: task.splits prod.splits option.splits sum.splits if_splits)

text \<open>The documented bound of \<open>read_to_end\<close>.\<close>

definition limits :: "('w, 'e, 'i, 'c, 's, 'r, 'z) quic_io_scheme \<Rightarrow> bool" where
  "limits q \<longleftrightarrow> (\<forall>r n w d w'. read_to_end q r n w = (Inr d, w') \<longrightarrow> length d \<le> n)"

text \<open>What was written on a stream: what was read from it, and by the baseline nothing for a failed read.\<close>

definition read_from :: "bool \<Rightarrow> ('w, 's, 'r) server \<Rightarrow> 's \<Rightarrow> bytes \<Rightarrow> bool" where
  "read_from lenient st s d \<longleftrightarrow> (\<exists>r. (s, r) \<in> set (streams st)
     \<and> ((s, r, Some d) \<in> set (got st) \<or> lenient \<and> d = [] \<and> (s, r, None) \<in> set (got st)))"

text \<open>The streams with an answer, by the echo server with one that succeeded.\<close>

definition written :: "bool \<Rightarrow> ('w, 's, 'r) server \<Rightarrow> 's set" where
  "written lenient st = {s. \<exists>d ok. (s, d, ok) \<in> set (replies st) \<and> (ok \<or> lenient)}"

fun knows :: "bool \<Rightarrow> bool \<Rightarrow> nat \<Rightarrow> ('w, 's, 'r) server \<Rightarrow> ('i, 'p, 'c, 's, 'r, 'n) task \<Rightarrow> bool" where
  "knows lenient bounded limit st (Reading n s r) \<longleftrightarrow> (s, r) \<in> set (streams st)"
| "knows lenient bounded limit st (Writing n s d) \<longleftrightarrow> read_from lenient st s d \<and> (bounded \<longrightarrow> length d \<le> limit)"
| "knows lenient bounded limit st (Finishing n s) \<longleftrightarrow> s \<in> written lenient st"
| "knows lenient bounded limit st _ \<longleftrightarrow> True"

definition reported :: "bool \<Rightarrow> bool \<Rightarrow> nat \<Rightarrow> ('w, 's, 'r) server \<Rightarrow> bool" where
  "reported lenient bounded limit st \<longleftrightarrow>
     (\<forall>(s, d, ok) \<in> set (replies st). read_from lenient st s d \<and> (bounded \<longrightarrow> length d \<le> limit))
   \<and> set (closed st) \<subseteq> written lenient st"

text \<open>Actions are only added, and what is known stays known.\<close>

definition extends :: "('w, 's, 'r) server \<Rightarrow> ('w, 's, 'r) server \<Rightarrow> bool" where
  "extends st st' \<longleftrightarrow> set (streams st) \<subseteq> set (streams st') \<and> set (got st) \<subseteq> set (got st') \<and> set (replies st) \<subseteq> set (replies st')"

lemma read_from_extends: "read_from l st s d \<Longrightarrow> extends st st' \<Longrightarrow> read_from l st' s d"
  unfolding read_from_def extends_def by blast

lemma written_extends: "s \<in> written l st \<Longrightarrow> extends st st' \<Longrightarrow> s \<in> written l st'"
  unfolding written_def extends_def by blast

lemma knows_extends: "knows l b n st t \<Longrightarrow> extends st st' \<Longrightarrow> knows l b n st' t"
  by (cases t) (auto intro: read_from_extends written_extends simp: extends_def)

lemma reported_extends:
  assumes "reported l b n st" and "extends st st'"
    and "\<And>s d ok. (s, d, ok) \<in> set (replies st') \<Longrightarrow> (s, d, ok) \<in> set (replies st) \<or> read_from l st' s d \<and> (b \<longrightarrow> length d \<le> n)"
    and "\<And>s. s \<in> set (closed st') \<Longrightarrow> s \<in> set (closed st) \<or> s \<in> written l st'"
  shows "reported l b n st'"
  using assms(1) read_from_extends [OF _ assms(2)] written_extends [OF _ assms(2)] assms(3,4) unfolding reported_def by fast

lemma read_from_now [simp]:
  "(s, r) \<in> set (streams st) \<Longrightarrow> read_from l (st\<lparr>outside := w, got := got st @ [(s, r, Some d)]\<rparr>) s d"
  "(s, r) \<in> set (streams st) \<Longrightarrow> read_from True (st\<lparr>outside := w, got := got st @ [(s, r, None)]\<rparr>) s []"
  by (auto simp: read_from_def)

lemma written_now [simp]:
  "s \<in> written True (st\<lparr>outside := w, replies := replies st @ [(s, d, ok)]\<rparr>)"
  "s \<in> written l (st\<lparr>outside := w, replies := replies st @ [(s, d, True)]\<rparr>)"
  by (auto simp: written_def)

lemma limitsD: "read_to_end q r n w = (Inr d, w') \<Longrightarrow> limits q \<Longrightarrow> length d \<le> n"
  unfolding limits_def by blast

lemma echo_extends: "echo_task q t st = (ts, t', st') \<Longrightarrow> extends st st'"
  by (cases t) (auto simp: server_defs extends_def split: prod.splits option.splits sum.splits)

lemma baseline_extends: "baseline_task q t st = (ts, t', st') \<Longrightarrow> extends st st'"
  by (cases t) (auto simp: server_defs extends_def split: prod.splits option.splits sum.splits)

lemma echo_acts:
  assumes "reported False (limits q) (2 ^ 20) st" and "knows False (limits q) (2 ^ 20) st t" and "echo_task q t st = (ts, t', st')"
  shows "reported False (limits q) (2 ^ 20) st' \<and> knows False (limits q) (2 ^ 20) st' t'
    \<and> (\<forall>u \<in> set ts. knows False (limits q) (2 ^ 20) st' u)"
proof (rule conjI [OF reported_extends [OF assms(1)]])
  show ext: "extends st st'" by (rule echo_extends [OF assms(3)])
  have known: "knows False (limits q) (2 ^ 20) st' t" by (rule knows_extends [OF assms(2) ext])
  show "(s, d, ok) \<in> set (replies st) \<or> read_from False st' s d \<and> (limits q \<longrightarrow> length d \<le> 2 ^ 20)"
    if "(s, d, ok) \<in> set (replies st')" for s d ok
    using known assms(3) that by (cases t) (auto simp: server_defs split: prod.splits option.splits sum.splits)
  show "s \<in> set (closed st) \<or> s \<in> written False st'" if "s \<in> set (closed st')" for s
    using known assms(3) that by (cases t) (auto simp: server_defs split: prod.splits option.splits sum.splits)
  show "knows False (limits q) (2 ^ 20) st' t' \<and> (\<forall>u \<in> set ts. knows False (limits q) (2 ^ 20) st' u)"
    using known assms(2,3) 
    by (cases t) (auto simp: server_defs split: prod.splits option.splits sum.splits intro: limitsD)
qed

interpretation echo_content: task_content "echo_task q" "knows False (limits q) (2 ^ 20)" "reported False (limits q) (2 ^ 20)" for q
  by unfold_locales (simp add: reported_def, simp, rule echo_acts, assumption+, rule knows_extends [OF _ echo_extends])

lemma baseline_acts:
  assumes "reported True (limits q) (64 * 1024) st" and "knows True (limits q) (64 * 1024) st t" and "baseline_task q t st = (ts, t', st')"
  shows "reported True (limits q) (64 * 1024) st' \<and> knows True (limits q) (64 * 1024) st' t'
    \<and> (\<forall>u \<in> set ts. knows True (limits q) (64 * 1024) st' u)"
proof (rule conjI [OF reported_extends [OF assms(1)]])
  show ext: "extends st st'" by (rule baseline_extends [OF assms(3)])
  have known: "knows True (limits q) (64 * 1024) st' t" by (rule knows_extends [OF assms(2) ext])
  show "(s, d, ok) \<in> set (replies st) \<or> read_from True st' s d \<and> (limits q \<longrightarrow> length d \<le> 64 * 1024)"
    if "(s, d, ok) \<in> set (replies st')" for s d ok
    using known assms(3) that by (cases t) (auto simp: server_defs split: prod.splits option.splits sum.splits)
  show "s \<in> set (closed st) \<or> s \<in> written True st'" if "s \<in> set (closed st')" for s
    using known assms(3) that by (cases t) (auto simp: server_defs split: prod.splits option.splits sum.splits)
  show "knows True (limits q) (64 * 1024) st' t' \<and> (\<forall>u \<in> set ts. knows True (limits q) (64 * 1024) st' u)"
    using known assms(2,3)
    by (cases t) (auto simp: server_defs split: prod.splits option.splits sum.splits intro: limitsD)
qed

interpretation baseline_content: task_content "baseline_task q" "knows True (limits q) (64 * 1024)" "reported True (limits q) (64 * 1024)" for q
  by unfold_locales (simp add: reported_def, simp, rule baseline_acts, assumption+, rule knows_extends [OF _ baseline_extends])

text \<open>
  C21: The echo server. However its tasks interleave, every stream it accepted is either held by one
  task or was let go exactly once, and waits for its answer, was answered exactly once, or could not be read;
  each answer is exactly what was read from the same stream, at most 1 MiB if \<open>read_to_end\<close> keeps its
  bound, and a stream is finished only after a whole answer.
\<close>

theorem echo_server_answers:
  assumes "reach pool_init (pool_step (echo_task q)) (ts, st)"
  shows "mset (map fst (streams st)) = mset (dropped st) + sum_list (map held ts)
    \<and> mset (map fst (streams st)) = mset (map fst (replies st))
        + mset (map fst (filter (\<lambda>g. snd (snd g) = None) (got st))) + sum_list (map unanswered ts)
    \<and> (\<forall>(s, d, ok) \<in> set (replies st). (\<exists>r. (s, r) \<in> set (streams st) \<and> (s, r, Some d) \<in> set (got st))
         \<and> (limits q \<longrightarrow> length d \<le> 2 ^ 20))
    \<and> (\<forall>s \<in> set (closed st). \<exists>d. (s, d, True) \<in> set (replies st))"
  using echo_served.reach_inv [OF assms] echo_answered.reach_inv [OF assms] echo_content.reach_inv [OF assms]
  by (force simp: answered_def unread_def reported_def read_from_def written_def)

text \<open>
  The baseline's server. However its tasks interleave, every stream it accepted is either being served
  or was let go, and waits for its answer or was answered exactly once: with what was read from the same
  stream, at most 64 KiB, or with nothing if the read failed.
\<close>

lemma baseline_server_answers:
  assumes "reach pool_init (pool_step (baseline_task q)) (ts, st)"
  shows "mset (map fst (streams st)) = mset (dropped st) + sum_list (map held ts)
    \<and> mset (map fst (streams st)) = mset (map fst (replies st)) + sum_list (map unanswered ts)
    \<and> (\<forall>(s, d, ok) \<in> set (replies st). (\<exists>r. (s, r) \<in> set (streams st)
           \<and> ((s, r, Some d) \<in> set (got st) \<or> d = [] \<and> (s, r, None) \<in> set (got st)))
         \<and> (limits q \<longrightarrow> length d \<le> 64 * 1024))"
  using baseline_served.reach_inv [OF assms] baseline_answered.reach_inv [OF assms] baseline_content.reach_inv [OF assms]
  by (force simp: answered_def reported_def read_from_def)

subsection \<open>The client\<close>

datatype 'e echo_error =
    ClientConfigError string
  | IoError 'e
  | ConnectError 'e
  | ConnectionError 'e
  | WriteError 'e
  | ReadError 'e
  | FinishError string

record ('w, 'e, 'a, 'k, 'c, 's, 'r) echo_env =
  add_root :: "bytes \<Rightarrow> string + unit"
  with_roots :: "string + unit"
  client_socket :: "'w \<Rightarrow> ('e + unit) \<times> 'w"
  connect_to :: "'a \<Rightarrow> 'w \<Rightarrow> ('e + 'k) \<times> 'w"
  connected :: "'k \<Rightarrow> 'w \<Rightarrow> ('e + 'c) \<times> 'w"
  open_bi :: "'c \<Rightarrow> 'w \<Rightarrow> ('e + 's \<times> 'r) \<times> 'w"
  client_write :: "'s \<Rightarrow> bytes \<Rightarrow> 'w \<Rightarrow> ('e + unit) \<times> 'w"
  client_finish :: "'s \<Rightarrow> 'w \<Rightarrow> (string + unit) \<times> 'w"
  client_read :: "'r \<Rightarrow> nat \<Rightarrow> 'w \<Rightarrow> ('e + bytes) \<times> 'w"
  client_close :: "'c \<Rightarrow> 'w \<Rightarrow> unit \<times> 'w"

text \<open>Errors that the code renders are strings.\<close>

definition echo ::
    "('w, 'e, 'a, 'k, 'c, 's, 'r) echo_env \<Rightarrow> 'a \<Rightarrow> bytes \<Rightarrow> bytes \<Rightarrow> ('w, 'e echo_error, bytes) program" where
  "echo env server_addr cert_der message =
     and_then (question (map_sum ClientConfigError (\<lambda>x. x) (add_root env cert_der))) (\<lambda>_.
     and_then (question (map_sum ClientConfigError (\<lambda>x. x) (with_roots env))) (\<lambda>_.
     and_then (tried IoError (client_socket env)) (\<lambda>_.
     and_then (tried ConnectError (connect_to env server_addr)) (\<lambda>connecting.
     and_then (tried ConnectionError (connected env connecting)) (\<lambda>conn.
     and_then (tried ConnectionError (open_bi env conn)) (\<lambda>(send, recv).
     and_then (tried WriteError (client_write env send message)) (\<lambda>_.
     and_then (tried FinishError (client_finish env send)) (\<lambda>_.
     and_then (tried ReadError (client_read env recv (length message + 64))) (\<lambda>response.
     and_then (call (client_close env conn)) (\<lambda>_.
     pure response))))))))))"

subsection \<open>The client and the server\<close>

text \<open>The task of a stream until it is over, in at most three steps.\<close>

fun run_stream ::
    "('w, 'e, 'i, 'c, 's, 'r) echo_io \<Rightarrow> nat \<Rightarrow> ('i, 'p, 'c, 's, 'r, unit) task \<Rightarrow> ('w, 's, 'r) server \<Rightarrow> ('w, 's, 'r) server" where
  "run_stream q 0 t st = st"
| "run_stream q (Suc n) t st = (case echo_stream q t st of (t, st) \<Rightarrow> run_stream q n t st)"

definition after_server :: "('w, 'f, 'i, 'd, 't, 'u) echo_io \<Rightarrow> 't \<Rightarrow> 'u \<Rightarrow> 'w \<Rightarrow> 'w" where
  "after_server q s r w =
     outside (run_stream q 3 (Reading () s r :: ('i, unit, 'd, 't, 'u, unit) task) (server_start w))"

text \<open>
  A bidirectional stream of quinn: the bytes written in each direction and whether they are finished.
  The documentation of both ends' calls, where the client has the stream \<open>cs\<close>, \<open>cr\<close> and the server \<open>s\<close>, \<open>r\<close>.
\<close>

record duplex =
  up :: bytes
  up_fin :: bool
  down :: bytes
  down_fin :: bool

definition stream_documented ::
    "('w, 'e, 'a, 'k, 'c, 's, 'r) echo_env \<Rightarrow> 's \<Rightarrow> 'r \<Rightarrow> ('w, 'f, 'i, 'd, 't, 'u) echo_io \<Rightarrow> 't \<Rightarrow> 'u \<Rightarrow> ('w \<Rightarrow> duplex) \<Rightarrow> bool" where
  "stream_documented env cs cr q s r view \<longleftrightarrow>
     (\<forall>c w x w'. open_bi env c w = (Inr x, w') \<longrightarrow> x = (cs, cr) \<and> view w' = \<lparr>up = [], up_fin = False, down = [], down_fin = False\<rparr>)
   \<and> (\<forall>bs w w'. client_write env cs bs w = (Inr (), w') \<longrightarrow> view w' = (view w)\<lparr>up := up (view w) @ bs\<rparr>)
   \<and> (\<forall>w w'. client_finish env cs w = (Inr (), w') \<longrightarrow> view w' = (view w)\<lparr>up_fin := True\<rparr>)
   \<and> (\<forall>n w d w'. client_read env cr n w = (Inr d, w') \<longrightarrow> d = down (view w) \<and> length d \<le> n)
   \<and> (\<forall>n w x w'. read_to_end q r n w = (x, w') \<longrightarrow> view w' = view w
        \<and> (\<forall>d. x = Inr d \<longrightarrow> up_fin (view w) \<and> d = up (view w) \<and> length d \<le> n))
   \<and> (\<forall>bs w x w'. stream_write q s bs w = (x, w') \<longrightarrow> (\<exists>p. prefix p bs \<and> (x = Inr () \<longrightarrow> p = bs)
        \<and> view w' = (view w)\<lparr>down := down (view w) @ p\<rparr>))
   \<and> (\<forall>w x w'. stream_finish q s w = (x, w') \<longrightarrow> (\<exists>b. view w' = (view w)\<lparr>down_fin := b\<rparr>))
   \<and> (\<forall>w x w'. stream_drop q s w = (x, w') \<longrightarrow> (\<exists>b. view w' = (view w)\<lparr>down_fin := b\<rparr>))"

lemma stream_documentedD:
  assumes "stream_documented env cs cr q s r view"
  shows "open_bi env c w = (Inr x, w') \<Longrightarrow> x = (cs, cr) \<and> view w' = \<lparr>up = [], up_fin = False, down = [], down_fin = False\<rparr>"
    and "client_write env cs bs w = (Inr (), w') \<Longrightarrow> view w' = (view w)\<lparr>up := up (view w) @ bs\<rparr>"
    and "client_finish env cs w = (Inr (), w') \<Longrightarrow> view w' = (view w)\<lparr>up_fin := True\<rparr>"
    and "client_read env cr n w = (Inr d, w') \<Longrightarrow> d = down (view w) \<and> length d \<le> n"
    and "read_to_end q r n w = (y, w') \<Longrightarrow> view w' = view w
        \<and> (\<forall>d. y = Inr d \<longrightarrow> up_fin (view w) \<and> d = up (view w) \<and> length d \<le> n)"
    and "stream_write q s bs w = (z, w') \<Longrightarrow> (\<exists>p. prefix p bs \<and> (z = Inr () \<longrightarrow> p = bs)
        \<and> view w' = (view w)\<lparr>down := down (view w) @ p\<rparr>)"
    and "stream_finish q s w = (z, w') \<Longrightarrow> (\<exists>b. view w' = (view w)\<lparr>down_fin := b\<rparr>)"
    and "stream_drop q s w = (v, w') \<Longrightarrow> (\<exists>b. view w' = (view w)\<lparr>down_fin := b\<rparr>)"
  by (rule assms [unfolded stream_documented_def, THEN conjunct1, rule_format]
      assms [unfolded stream_documented_def, THEN conjunct2, THEN conjunct1, rule_format]
      assms [unfolded stream_documented_def, THEN conjunct2, THEN conjunct2, THEN conjunct1, rule_format]
      assms [unfolded stream_documented_def, THEN conjunct2, THEN conjunct2, THEN conjunct2, THEN conjunct1, rule_format]
      assms [unfolded stream_documented_def, THEN conjunct2, THEN conjunct2, THEN conjunct2, THEN conjunct2, THEN conjunct1, rule_format]
      assms [unfolded stream_documented_def, THEN conjunct2, THEN conjunct2, THEN conjunct2, THEN conjunct2, THEN conjunct2, THEN conjunct1, rule_format]
      assms [unfolded stream_documented_def, THEN conjunct2, THEN conjunct2, THEN conjunct2, THEN conjunct2, THEN conjunct2, THEN conjunct2, THEN conjunct1, rule_format]
      assms [unfolded stream_documented_def, THEN conjunct2, THEN conjunct2, THEN conjunct2, THEN conjunct2, THEN conjunct2, THEN conjunct2, THEN conjunct2, rule_format], assumption)+

text \<open>The server's calls succeed, as long as the data fits.\<close>

definition server_reliable :: "('w, 'f, 'i, 'd, 't, 'u) echo_io \<Rightarrow> 't \<Rightarrow> 'u \<Rightarrow> ('w \<Rightarrow> duplex) \<Rightarrow> bool" where
  "server_reliable q s r view \<longleftrightarrow>
     (\<forall>n w. up_fin (view w) \<and> length (up (view w)) \<le> n \<longrightarrow> (\<exists>d w'. read_to_end q r n w = (Inr d, w')))
   \<and> (\<forall>bs w. \<exists>w'. stream_write q s bs w = (Inr (), w'))"

lemma drop_view:
  assumes "stream_documented env cs cr q s r view"
  shows "down (view (outside (drop_stream q s st))) = down (view (outside st))"
  using stream_documentedD(8) [OF assms, of "outside st"] by (cases "stream_drop q s (outside st)") (force simp: drop_stream_def)

lemma run_stream_replies:
  assumes "stream_documented env cs cr q s r view" and "down (view w) = []"
  shows "let reply = down (view (after_server q s r w)) in
    prefix reply (up (view w)) \<and> (length (up (view w)) > 2 ^ 20 \<longrightarrow> reply = [])
    \<and> (server_reliable q s r view \<and> up_fin (view w) \<and> length (up (view w)) \<le> 2 ^ 20 \<longrightarrow> reply = up (view w))"
proof (cases "read_to_end q r (2 ^ 20) w")
  case (Pair x w1)
  note rd = stream_documentedD(5) [OF assms(1) Pair]
  show ?thesis
  proof (cases x)
    case (Inl e)
    with Pair have "\<not> (server_reliable q s r view \<and> up_fin (view w) \<and> length (up (view w)) \<le> 2 ^ 20)"
      unfolding server_reliable_def by fastforce
    with Pair Inl rd assms(2) show ?thesis
      by (simp add: numeral_3_eq_3 after_server_def echo_stream_def server_start_def drop_view [OF assms(1)] Let_def) blast
  next
    case (Inr d)
    with rd have d: "d = up (view w)" "up_fin (view w)" "length d \<le> 2 ^ 20" "view w1 = view w" by auto
    obtain y w2 where wr: "stream_write q s d w1 = (y, w2)" by (cases "stream_write q s d w1")
    from stream_documentedD(6) [OF assms(1) wr] obtain p where
      p: "prefix p d" "y = Inr () \<longrightarrow> p = d" "down (view w2) = p" using assms(2) d(4) by force
    obtain z w3 where fin: "stream_finish q s w2 = (z, w3)" by (cases "stream_finish q s w2")
    from stream_documentedD(7) [OF assms(1) fin] have "down (view w3) = p" using p(3) by force
    moreover have "y = Inr ()" if "server_reliable q s r view"
    proof -
      from that have "\<exists>w'. stream_write q s d w1 = (Inr (), w')" unfolding server_reliable_def by blast
      with wr show ?thesis by auto
    qed
    ultimately show ?thesis using Pair Inr d wr fin p
      by (auto simp: numeral_3_eq_3 after_server_def echo_stream_def server_start_def drop_view [OF assms(1)] Let_def split: sum.split)
  qed
qed

text \<open>The client's calls succeed, and its read gets what is there if that fits.\<close>

definition client_reliable :: "('w, 'e, 'a, 'k, 'c, 's, 'r) echo_env \<Rightarrow> bytes \<Rightarrow> 'r \<Rightarrow> ('w \<Rightarrow> duplex) \<Rightarrow> bool" where
  "client_reliable env cert cr view \<longleftrightarrow> add_root env cert = Inr () \<and> with_roots env = Inr ()
   \<and> (\<forall>w. \<exists>w'. client_socket env w = (Inr (), w')) \<and> (\<forall>a w. \<exists>k w'. connect_to env a w = (Inr k, w'))
   \<and> (\<forall>k w. \<exists>c w'. connected env k w = (Inr c, w')) \<and> (\<forall>c w. \<exists>x w'. open_bi env c w = (Inr x, w'))
   \<and> (\<forall>s bs w. \<exists>w'. client_write env s bs w = (Inr (), w')) \<and> (\<forall>s w. \<exists>w'. client_finish env s w = (Inr (), w'))
   \<and> (\<forall>n w. length (down (view w)) \<le> n \<longrightarrow> (\<exists>d w'. client_read env cr n w = (Inr d, w')))"

text \<open>While the client waits for the answer, the task of the server's end of the stream runs.\<close>

definition against ::
    "('w, 'e, 'a, 'k, 'c, 's, 'r) echo_env \<Rightarrow> ('w, 'f, 'i, 'd, 't, 'u) echo_io \<Rightarrow> 't \<Rightarrow> 'u \<Rightarrow> ('w, 'e, 'a, 'k, 'c, 's, 'r) echo_env" where
  "against env q s r = env\<lparr>client_read := \<lambda>recv n w. client_read env recv n (after_server q s r w)\<rparr>"

lemma echo_Inr:
  assumes "echo env addr cert message w = (Inr d, w')"
  obtains c w0 s r w1 w2 w3 w4 where "open_bi env c w0 = (Inr (s, r), w1)" "client_write env s message w1 = (Inr (), w2)"
    "client_finish env s w2 = (Inr (), w3)" "client_read env r (length message + 64) w3 = (Inr d, w4)"
  using assms unfolding echo_def and_then_Inr tried_Inr
  by (auto simp: and_then_Inr tried_Inr pure_def split: prod.splits)

lemma against_simps [simp]:
  "open_bi (against env q s r) = open_bi env" "client_write (against env q s r) = client_write env"
  "client_finish (against env q s r) = client_finish env" "add_root (against env q s r) = add_root env"
  "with_roots (against env q s r) = with_roots env" "client_socket (against env q s r) = client_socket env"
  "connect_to (against env q s r) = connect_to env" "connected (against env q s r) = connected env"
  "client_close (against env q s r) = client_close env"
  by (simp_all add: against_def)

text \<open>The server's task makes of a finished request that is not answered a reply the client reads.\<close>

lemma against_read:
  assumes "stream_documented env cs cr q s r view" and "down (view w) = []"
  shows "client_read (against env q s r) cr n w = (Inr d, w') \<Longrightarrow>
      prefix d (up (view w)) \<and> (length (up (view w)) > 2 ^ 20 \<longrightarrow> d = [])"
    and "server_reliable q s r view \<Longrightarrow> client_reliable env cert cr view \<Longrightarrow> up_fin (view w) \<Longrightarrow>
      length (up (view w)) \<le> 2 ^ 20 \<Longrightarrow> length (up (view w)) \<le> n \<Longrightarrow>
      \<exists>w'. client_read (against env q s r) cr n w = (Inr (up (view w)), w')"
proof -
  let ?v = "after_server q s r w"
  note reply = run_stream_replies [OF assms, unfolded Let_def]
  show "client_read (against env q s r) cr n w = (Inr d, w') \<Longrightarrow>
      prefix d (up (view w)) \<and> (length (up (view w)) > 2 ^ 20 \<longrightarrow> d = [])"
    using reply stream_documentedD(4) [OF assms(1), of n _ d w'] by (simp add: against_def)
  assume "server_reliable q s r view" "up_fin (view w)" "length (up (view w)) \<le> 2 ^ 20"
    and rel: "client_reliable env cert cr view" and n: "length (up (view w)) \<le> n"
  with reply have v: "down (view ?v) = up (view w)" by blast
  with rel n obtain d w' where "client_read env cr n ?v = (Inr d, w')" unfolding client_reliable_def by force
  with stream_documentedD(4) [OF assms(1) this] v
  show "\<exists>w'. client_read (against env q s r) cr n w = (Inr (up (view w)), w')" by (simp add: against_def)
qed

text \<open>What the client has sent when it starts to read, and what it returns when no call fails.\<close>

lemma echo_sent:
  assumes "stream_documented env cs cr q s r view"
    and "open_bi env c w0 = (Inr x, w1)" and "client_write env (fst x) message w1 = (Inr (), w2)"
    and "client_finish env (fst x) w2 = (Inr (), w3)"
  shows "x = (cs, cr) \<and> down (view w3) = [] \<and> up (view w3) = message \<and> up_fin (view w3)"
  using stream_documentedD(1) [OF assms(1,2)] stream_documentedD(2) [OF assms(1), of message w1 w2]
    stream_documentedD(3) [OF assms(1), of w2 w3] assms(2-) by auto

lemma echo_returns:
  assumes "stream_documented env cs cr q s r view" and "server_reliable q s r view" and rel: "client_reliable env cert cr view"
    and "length message \<le> 2 ^ 20"
  shows "fst (echo (against env q s r) addr cert message w) = Inr message"
proof -
  from rel obtain w1 k w2 c w3 x w4 where
    ok: "client_socket env w = (Inr (), w1)" "connect_to env addr w1 = (Inr k, w2)" "connected env k w2 = (Inr c, w3)"
      "open_bi env c w3 = (Inr x, w4)" "add_root env cert = Inr ()" "with_roots env = Inr ()"
    unfolding client_reliable_def by metis
  from rel obtain w5 w6 where wr: "client_write env (fst x) message w4 = (Inr (), w5)" "client_finish env (fst x) w5 = (Inr (), w6)"
    unfolding client_reliable_def by metis
  note ready = echo_sent [OF assms(1) ok(4) wr]
  with against_read(2) [OF assms(1) _ assms(2,3)] assms(4)
  obtain w7 where rd: "client_read (against env q s r) cr (length message + 64) w6 = (Inr message, w7)"
    by (metis le_add1)
  from ready ok wr rd show ?thesis
    by (auto simp: echo_def tried_def run_simps call_def split: prod.split)
qed

text \<open>
  C20: The echo example. If the client \<open>echo\<close> returns bytes after the task of the server has run, they are
  a prefix of its message, and none of it if the message is over 1 MiB; and if no call of either end fails, it
  returns the whole of a message of at most 1 MiB.
\<close>

theorem echo_roundtrip:
  assumes "stream_documented env cs cr q s r view"
  shows "(fst (echo (against env q s r) addr cert message w) = Inr response \<longrightarrow>
        prefix response message \<and> (length message > 2 ^ 20 \<longrightarrow> response = []))
    \<and> (server_reliable q s r view \<and> client_reliable env cert cr view \<and> length message \<le> 2 ^ 20 \<longrightarrow>
        fst (echo (against env q s r) addr cert message w) = Inr message)"
proof (intro conjI [OF impI impI])
  assume "fst (echo (against env q s r) addr cert message w) = Inr response"
  then obtain w' where "echo (against env q s r) addr cert message w = (Inr response, w')" by (metis prod.collapse)
  then obtain c w0 x y w1 w2 w3 w4 where "open_bi env c w0 = (Inr (x, y), w1)" "client_write env x message w1 = (Inr (), w2)"
    "client_finish env x w2 = (Inr (), w3)"
    and rd: "client_read (against env q s r) y (length message + 64) w3 = (Inr response, w4)"
    by (rule echo_Inr) simp
  with echo_sent [OF assms, of c w0 "(x, y)"] have "y = cr" "down (view w3) = []" "up (view w3) = message" by simp_all
  with against_read(1) [OF assms this(2)] rd
  show "prefix response message \<and> (length message > 2 ^ 20 \<longrightarrow> response = [])" by metis
qed (use echo_returns [OF assms] in blast)

subsection \<open>Concrete runs\<close>

text \<open>A schedule runs the tasks by their place in the pool.\<close>

fun run_pool ::
    "('t \<Rightarrow> ('w, 's, 'r) server \<Rightarrow> 't list \<times> 't \<times> ('w, 's, 'r) server) \<Rightarrow> nat list
      \<Rightarrow> 't list \<times> ('w, 's, 'r) server \<Rightarrow> 't list \<times> ('w, 's, 'r) server" where
  "run_pool f [] p = p"
| "run_pool f (i # is) (ts, st) =
     (if i < length ts then (case f (ts ! i) st of (spawned, t, st') \<Rightarrow> run_pool f is (ts[i := t] @ spawned, st'))
      else run_pool f is (ts, st))"

lemma run_pool_reach: "reach pool_init (pool_step f) p \<Longrightarrow> reach pool_init (pool_step f) (run_pool f is p)"
proof (induction "is" arbitrary: p)
  case (Cons i "is")
  obtain ts st where p: "p = (ts, st)" by (cases p)
  obtain u t st' where act: "f (ts ! i) st = (u, t, st')" by (metis prod_cases3)
  show ?case
  proof (cases "i < length ts")
    case True
    from reach_step [OF Cons.prems [unfolded p] run_task [of i ts f st, OF True act]]
    have "reach pool_init (pool_step f) (ts[i := t] @ u, st')" .
    from Cons.IH [OF this] True show ?thesis by (simp add: p act)
  next
    case False
    with Cons.IH [OF Cons.prems] show ?thesis by (simp add: p)
  qed
qed simp

text \<open>One stream, which is also the outside world.\<close>

definition sample_echo_io :: "(duplex, unit, unit, unit, nat, nat) echo_io" where
  "sample_echo_io =
     \<lparr>next_incoming = (\<lambda>w. (Some (), w)), accept_bi = (\<lambda>c w. (Inr (4, 4), w)),
      read_to_end = (\<lambda>r n w. (if up_fin w \<and> length (up w) \<le> n then Inr (up w) else Inl (), w)),
      stream_write = (\<lambda>s bs w. (Inr (), w\<lparr>down := down w @ bs\<rparr>)), stream_finish = (\<lambda>s w. (Inr (), w\<lparr>down_fin := True\<rparr>)),
      stream_drop = (\<lambda>s w. ((), w\<lparr>down_fin := True\<rparr>)), establish = (\<lambda>i w. (Inr (), w))\<rparr>"

definition sample_baseline_io :: "(duplex, unit, unit, unit, nat, nat, unit) baseline_io" where
  "sample_baseline_io =
     \<lparr>next_incoming = (\<lambda>w. (Some (), w)), accept_bi = (\<lambda>c w. (Inr (4, 4), w)),
      read_to_end = (\<lambda>r n w. (Inl (), w)), stream_write = (\<lambda>s bs w. (Inr (), w\<lparr>down := down w @ bs\<rparr>)),
      stream_finish = (\<lambda>s w. (Inr (), w\<lparr>down_fin := True\<rparr>)), stream_drop = (\<lambda>s w. ((), w\<lparr>down_fin := True\<rparr>)),
      incoming_accept = (\<lambda>i w. (Inr (), w)), server_0rtt = (\<lambda>p w. (Inl p, w)), handshake_done = (\<lambda>p w. (Inr (), w))\<rparr>"

definition sample_echo_env :: "(duplex, unit, unit, unit, unit, nat, nat) echo_env" where
  "sample_echo_env =
     \<lparr>add_root = (\<lambda>c. Inr ()), with_roots = Inr (), client_socket = (\<lambda>w. (Inr (), w)), connect_to = (\<lambda>a w. (Inr (), w)),
      connected = (\<lambda>k w. (Inr (), w)),
      open_bi = (\<lambda>c w. (Inr (4, 4), \<lparr>up = [], up_fin = False, down = [], down_fin = False\<rparr>)),
      client_write = (\<lambda>s bs w. (Inr (), w\<lparr>up := up w @ bs\<rparr>)), client_finish = (\<lambda>s w. (Inr (), w\<lparr>up_fin := True\<rparr>)),
      client_read = (\<lambda>r n w. (if length (down w) \<le> n then Inr (down w) else Inl (), w)), client_close = (\<lambda>c w. ((), w))\<rparr>"

definition sample_request :: duplex where
  "sample_request = \<lparr>up = [1, 2], up_fin = True, down = [], down_fin = False\<rparr>"

lemma pool_start: "reach pool_init step ([Listening], server_start w)"
  by (rule reach_init) (auto simp: pool_init_def)

lemma echo_server_answers_witness:
  "\<exists>(ts :: (unit, unit, unit, nat, nat, unit) task list) st. reach pool_init (pool_step (echo_task sample_echo_io)) (ts, st)
     \<and> replies st = [(4, [1, 2], True)] \<and> (4, 4, Some [1, 2]) \<in> set (got st) \<and> dropped st = [4]"
proof -
  obtain ts :: "(unit, unit, unit, nat, nat, unit) task list" and st where
    run: "run_pool (echo_task sample_echo_io) [0, 1, 1, 2, 2, 2] ([Listening], server_start sample_request) = (ts, st)"
    by (metis surj_pair)
  then have st: "replies st = [(4, [1, 2], True)]" "streams st = [(4, 4)]" "dropped st = [4]"
    by (auto simp: server_defs server_start_def sample_echo_io_def sample_request_def drop_stream_def)
  have reached: "reach pool_init (pool_step (echo_task sample_echo_io)) (ts, st)"
    using run_pool_reach [OF pool_start] by (metis run)
  from echo_server_answers [OF this] st have "\<exists>r. (4, r) \<in> set (streams st) \<and> (4, r, Some [1, 2]) \<in> set (got st)" by auto
  with st(2) have "(4, 4, Some [1, 2]) \<in> set (got st)" by simp
  with reached st(1,3) show ?thesis by blast
qed

lemma baseline_server_answers_witness:
  "\<exists>ts st. reach pool_init (pool_step (baseline_task sample_baseline_io)) (ts, st)
     \<and> replies st = [(4, [], True)] \<and> sum_list (map unanswered ts) = {#} \<and> dropped st = [4]"
proof -
  obtain ts st where run: "run_pool (baseline_task sample_baseline_io) [0, 1, 1, 1, 1, 1, 1] ([Listening], server_start sample_request) = (ts, st)"
    by (metis surj_pair)
  then have st: "replies st = [(4, [], True)]" "streams st = [(4, 4)]" "dropped st = [4]"
    by (auto simp: server_defs server_start_def sample_baseline_io_def sample_request_def drop_stream_def)
  have reached: "reach pool_init (pool_step (baseline_task sample_baseline_io)) (ts, st)"
    using run_pool_reach [OF pool_start] by (metis run)
  from baseline_server_answers [OF this] st have "sum_list (map unanswered ts) = {#}" by simp
  with reached st(1,3) show ?thesis by blast
qed

lemma echo_roundtrip_witness:
  "fst (echo (against sample_echo_env sample_echo_io 4 4) () [0] [104, 105] sample_request) = Inr [104, 105]"
proof -
  have "stream_documented sample_echo_env 4 4 sample_echo_io 4 4 (\<lambda>w. w)"
    by (auto simp: stream_documented_def sample_echo_env_def sample_echo_io_def split: if_splits
        intro: exI [of _ "True"])
  note round = echo_roundtrip [OF this, of "()" "[0]" "[104, 105]" sample_request "[]"]
  have "server_reliable sample_echo_io 4 4 (\<lambda>w. w)" "client_reliable sample_echo_env [0] 4 (\<lambda>w. w)"
    by (auto simp: server_reliable_def client_reliable_def sample_echo_env_def sample_echo_io_def)
  with round show ?thesis by simp
qed

end
