(* ===== verification/Binaries.thy ===== *)
theory Binaries
  imports Echo Tls_Baseline
begin

text \<open>
  The programs around the examples and the baseline: the configuration of the two TLS servers
  (\<open>make_self_signed\<close> and \<open>make_server_config\<close> in \<open>echo-server/src/lib.rs\<close>, \<open>build_server_config\<close> in
  \<open>quic-tls/src/main.rs\<close>) and the \<open>main\<close> functions of \<open>echo-server\<close>, \<open>echo-client\<close> and \<open>quic-tls\<close>, up to
  the loops of \<open>Echo\<close> and \<open>Tls_Baseline\<close>. Certificates, keys and the parsing of the command line by clap
  are parameters.
\<close>

record ('ck, 'key, 'e) cert_lib =
  generate_simple_self_signed :: "string list \<Rightarrow> 'e + 'ck"
  cert_der_of :: "'ck \<Rightarrow> bytes"
  serialize_pem :: "'ck \<Rightarrow> string"
  pem_private_key :: "string \<Rightarrow> 'e + 'key option"
  accept_cert :: "bytes list \<Rightarrow> 'key \<Rightarrow> 'e + unit"

lemma map_sum_Inr: "map_sum f g r = Inr y \<longleftrightarrow> (\<exists>x. r = Inr x \<and> y = g x)"
  by (cases r) auto

lemma expect_Inr: "expect message r w = (Inr x, w') \<longleftrightarrow> r = Some x \<and> w' = w"
  by (cases r) (auto simp: expect_def pure_def halt_def)

lemma question_then: "and_then (question r) k w = (Inr y, w') \<longleftrightarrow> (\<exists>x. r = Inr x \<and> k x w = (Inr y, w'))"
  by (auto simp: and_then_Inr question_Inr)

lemma expect_then: "and_then (expect message r) k w = (Inr y, w') \<longleftrightarrow> (\<exists>x. r = Some x \<and> k x w = (Inr y, w'))"
  by (auto simp: and_then_Inr expect_Inr)

subsection \<open>The echo server\<close>

datatype 'e server_error = RcgenError 'e | TlsError 'e | ServerIoError 'e | NoPrivateKey

record 'key server_config =
  cert_chain :: "bytes list"
  private_key :: 'key
  segmentation_offload :: bool

definition make_self_signed :: "('ck, 'key, 'e) cert_lib \<Rightarrow> 'e server_error + 'ck" where
  "make_self_signed lib = map_sum RcgenError (\<lambda>ck. ck) (generate_simple_self_signed lib [''localhost''])"

definition echo_server_config ::
    "('ck, 'key, 'e) cert_lib \<Rightarrow> 'ck \<Rightarrow> 'e server_error + 'key server_config \<times> bytes" where
  "echo_server_config lib ck =
     (let cert_der = cert_der_of lib ck;
          key_pem = serialize_pem lib ck
      in case pem_private_key lib key_pem of
           Inl e \<Rightarrow> Inl (ServerIoError e)
         | Inr None \<Rightarrow> Inl NoPrivateKey
         | Inr (Some key_der) \<Rightarrow>
             (case accept_cert lib [cert_der] key_der of
                Inl e \<Rightarrow> Inl (TlsError e)
              | Inr _ \<Rightarrow>
                  Inr (\<lparr>cert_chain = [cert_der], private_key = key_der, segmentation_offload = False\<rparr>, cert_der)))"

datatype 'e server_main_error = ServerError "'e server_error" | ServerMainIo 'e

record ('w, 'a, 'key, 'e) server_env =
  write_cert :: "bytes \<Rightarrow> 'w \<Rightarrow> ('e + unit) \<times> 'w"
  server_addr :: "string \<Rightarrow> 'a option"
  server_endpoint :: "'key server_config \<Rightarrow> 'a \<Rightarrow> 'w \<Rightarrow> ('e + unit) \<times> 'w"

text \<open>The first argument of a command line, or the default address.\<close>

definition address_arg :: "string list \<Rightarrow> string" where
  "address_arg argv = (case argv of _ # a # _ \<Rightarrow> a | _ \<Rightarrow> ''127.0.0.1:4433'')"

text \<open>What follows is \<open>serve\<close>, on the endpoint with the configuration that is the result here.\<close>

definition echo_server_main ::
    "('ck, 'key, 'e) cert_lib \<Rightarrow> ('w, 'a, 'key, 'e) server_env \<Rightarrow> string list
      \<Rightarrow> ('w, 'e server_main_error, 'key server_config) program" where
  "echo_server_main lib env argv =
     and_then (question (map_sum ServerError (\<lambda>ck. ck) (make_self_signed lib))) (\<lambda>ck.
     and_then (tried ServerMainIo (write_cert env (cert_der_of lib ck))) (\<lambda>_.
     and_then (question (map_sum ServerError (\<lambda>c. c) (echo_server_config lib ck))) (\<lambda>(server_config, _).
     and_then (expect ''invalid bind address, expected form IP:PORT'' (server_addr env (address_arg argv))) (\<lambda>addr.
     and_then (tried ServerMainIo (server_endpoint env server_config addr)) (\<lambda>_.
     pure server_config)))))"

text \<open>
  The certificate on disk, which is all the client trusts, is the one the endpoint presents, and it is
  written before the endpoint is opened.
\<close>

lemma echo_server_presents:
  assumes "echo_server_main lib env argv w = (Inr cfg, w')"
  shows "\<exists>cert w1 addr. write_cert env cert w = (Inr (), w1) \<and> cert_chain cfg = [cert]
    \<and> accept_cert lib (cert_chain cfg) (private_key cfg) = Inr () \<and> \<not> segmentation_offload cfg
    \<and> server_addr env (address_arg argv) = Some addr \<and> server_endpoint env cfg addr w1 = (Inr (), w')"
proof -
  from assms obtain ck w1 der addr where
    written: "write_cert env (cert_der_of lib ck) w = (Inr (), w1)" and conf: "echo_server_config lib ck = Inr (cfg, der)"
    and addr: "server_addr env (address_arg argv) = Some addr" and opened: "server_endpoint env cfg addr w1 = (Inr (), w')"
    unfolding echo_server_main_def and_then_Inr question_Inr tried_Inr map_sum_Inr expect_Inr split_paired_Ex
    by (elim exE conjE) (auto simp: and_then_Inr tried_Inr expect_Inr pure_def)
  from conf have "cert_chain cfg = [cert_der_of lib ck]" "accept_cert lib (cert_chain cfg) (private_key cfg) = Inr ()"
    "\<not> segmentation_offload cfg"
    by (auto simp: echo_server_config_def Let_def split: sum.splits option.splits)
  with written addr opened show ?thesis by blast
qed

subsection \<open>The echo client\<close>

datatype 'e client_main_error = ClientError "'e echo_error" | ClientMainIo 'e

definition with_error :: "('e \<Rightarrow> 'f) \<Rightarrow> ('s, 'e, 'x) program \<Rightarrow> ('s, 'f, 'x) program" where
  "with_error f m s =
     (case m s of
        (Inl (Failed e), s) \<Rightarrow> (Inl (Failed (f e)), s)
      | (Inl (Panicked p), s) \<Rightarrow> (Inl (Panicked p), s)
      | (Inl Running, s) \<Rightarrow> (Inl Running, s)
      | (Inr x, s) \<Rightarrow> (Inr x, s))"

definition hello :: bytes where
  "hello = ascii ''Hello, QUIC!''"

definition mismatch_message :: string where
  "mismatch_message = ''echo payload mismatch''"

definition echo_client_main ::
    "('w, 'e, 'a, 'k, 'c, 's, 'r) echo_env \<Rightarrow> ('w \<Rightarrow> ('e + bytes) \<times> 'w) \<Rightarrow> (string \<Rightarrow> 'a option) \<Rightarrow> string list
      \<Rightarrow> ('w, 'e client_main_error, unit) program" where
  "echo_client_main env read_cert parse_addr argv =
     and_then (tried ClientMainIo read_cert) (\<lambda>cert_bytes.
     and_then (expect ''invalid server address, expected form IP:PORT'' (parse_addr (address_arg argv))) (\<lambda>server_addr.
     and_then (with_error ClientError (echo env server_addr cert_bytes hello)) (\<lambda>response.
     if response = hello then pure () else halt (Panicked mismatch_message))))"

lemma with_error_Inr: "with_error f m s = (Inr x, t) \<longleftrightarrow> m s = (Inr x, t)"
  by (auto simp: with_error_def split: prod.splits sum.splits stop.splits)

text \<open>
  With the documented streams the client ends well when its certificate can be read, its address has the
  expected form and no call of either end fails; in particular its assertion holds.
\<close>

lemma echo_client_main_ends:
  assumes "stream_documented env cs cr q s r view" and "fst (read_cert w) = Inr cert"
    and "parse_addr (address_arg argv) = Some addr" and "server_reliable q s r view" and "client_reliable env cert cr view"
  shows "fst (echo_client_main (against env q s r) read_cert parse_addr argv w) = Inr ()"
proof -
  obtain w1 where cert: "read_cert w = (Inr cert, w1)" using assms(2) by (cases "read_cert w") auto
  have "length hello \<le> 2 ^ 20" by (simp add: hello_def ascii_def)
  with echo_returns [OF assms(1,4,5)] have "fst (echo (against env q s r) addr cert hello w1) = Inr hello" by blast
  then obtain w2 where "echo (against env q s r) addr cert hello w1 = (Inr hello, w2)"
    by (metis prod.collapse)
  with cert assms(3) show ?thesis
    by (simp add: echo_client_main_def run_simps tried_def with_error_def)
qed

subsection \<open>The TLS baseline\<close>

text \<open>An \<open>anyhow::Error\<close>: an error, one with its context, or a message.\<close>

datatype 'e anyhow = Plain 'e | Context string 'e | Message string

definition ALPN :: bytes where
  "ALPN = ascii ''quic-mls-baseline''"

record ('key, 'i) tls_server_config = "'key server_config" +
  alpn_protocols :: "bytes list"
  max_early_data_size :: u32
  max_idle_timeout :: 'i

definition build_server_config ::
    "('ck, 'key, 'e) cert_lib \<Rightarrow> (bytes list \<Rightarrow> 'key \<Rightarrow> bytes list \<Rightarrow> u32 \<Rightarrow> 'e + unit) \<Rightarrow> (u64 \<Rightarrow> 'i option) \<Rightarrow> u64
      \<Rightarrow> ('w, 'e anyhow, ('key, 'i) tls_server_config) program" where
  "build_server_config lib quic_crypto timeout_of secs =
     and_then (question (map_sum (Context ''generate self-signed cert'') (\<lambda>ck. ck)
                (generate_simple_self_signed lib [''localhost'']))) (\<lambda>ck.
     let cert_der = cert_der_of lib ck;
         key_pem = serialize_pem lib ck in
     and_then (question (map_sum (Context ''parse key PEM'') (\<lambda>k. k) (pem_private_key lib key_pem))) (\<lambda>key.
     and_then (question (case key of None \<Rightarrow> Inl (Message ''no private key found in PEM'') | Some k \<Rightarrow> Inr k)) (\<lambda>key_der.
     and_then (question (map_sum (Context ''rustls server config'') (\<lambda>c. c) (accept_cert lib [cert_der] key_der))) (\<lambda>_.
     and_then (question (map_sum Plain (\<lambda>c. c) (quic_crypto [cert_der] key_der [ALPN] (- 1)))) (\<lambda>_.
     and_then (expect ''called unwrap on an error'' (timeout_of secs)) (\<lambda>idle.
     pure \<lparr>cert_chain = [cert_der], private_key = key_der, segmentation_offload = False,
           alpn_protocols = [ALPN], max_early_data_size = - 1, max_idle_timeout = idle\<rparr>))))))"

text \<open>The roles of the command line, with the defaults of its flags.\<close>

datatype 'a cli =
    Server_Role 'a u64
  | Client_Role 'a 'a string u64 u32 u64 bool u64

definition given :: "'x \<Rightarrow> 'x option \<Rightarrow> 'x" where
  "given d v = (case v of None \<Rightarrow> d | Some x \<Rightarrow> x)"

definition cli_server :: "'a \<Rightarrow> u64 option \<Rightarrow> 'a cli" where
  "cli_server listen idle = Server_Role listen (given 30 idle)"

definition cli_client ::
    "(string \<Rightarrow> 'a) \<Rightarrow> 'a \<Rightarrow> 'a option \<Rightarrow> string option \<Rightarrow> u64 option \<Rightarrow> u32 option \<Rightarrow> u64 option \<Rightarrow> bool option
      \<Rightarrow> u64 option \<Rightarrow> 'a cli" where
  "cli_client parse server local ch rtt reconnects blackout no_res idle =
     Client_Role server (given (parse ''10.200.1.1:0'') local) (given ''unspecified'' ch) (given 0 rtt)
       (given 16 reconnects) (given 0 blackout) (given False no_res) (given 30 idle)"

text \<open>\<open>run_server\<close> up to its loop, and \<open>main\<close>; the client's environment depends on the addresses.\<close>

definition baseline_endpoint ::
    "('ck, 'key, 'e) cert_lib \<Rightarrow> (bytes list \<Rightarrow> 'key \<Rightarrow> bytes list \<Rightarrow> u32 \<Rightarrow> 'e + unit) \<Rightarrow> (u64 \<Rightarrow> 'i option)
      \<Rightarrow> (('key, 'i) tls_server_config \<Rightarrow> 'a \<Rightarrow> 'w \<Rightarrow> ('e + unit) \<times> 'w) \<Rightarrow> 'a \<Rightarrow> u64
      \<Rightarrow> ('w, 'e anyhow, unit) program" where
  "baseline_endpoint lib quic_crypto timeout_of open_endpoint listen secs =
     and_then (build_server_config lib quic_crypto timeout_of secs) (\<lambda>cfg.
     tried Plain (open_endpoint cfg listen))"

definition baseline_main ::
    "('a \<Rightarrow> u64 \<Rightarrow> ('w, 'e anyhow, unit) program) \<Rightarrow> ('a \<Rightarrow> 'a \<Rightarrow> ('w, 'f, 'c, 'x) tls_env) \<Rightarrow> 'a cli \<Rightarrow> 'w
      \<Rightarrow> ('e anyhow stop + unit) \<times> 'w + ('f stop + unit) \<times> 'w tls_run" where
  "baseline_main server_part client_env cli w =
     (case cli of
        Server_Role listen idle \<Rightarrow> Inl (server_part listen idle w)
      | Client_Role server local ch rtt reconnects blackout no_res idle \<Rightarrow>
          Inr (run_client (client_env server local) ch rtt reconnects blackout no_res idle (tls_start w)))"

text \<open>
  A server that is up has offered the baseline's protocol, early data of any size and the idle timeout. A
  client started without flags that ends without an error has written seventeen records, numbered from 0.
\<close>

lemma build_server_config_Inr:
  assumes "build_server_config lib quic_crypto timeout_of idle w = (Inr cfg, u)"
  shows "u = w \<and> (\<exists>cert key t. timeout_of idle = Some t \<and> accept_cert lib [cert] key = Inr ()
    \<and> cfg = \<lparr>cert_chain = [cert], private_key = key, segmentation_offload = False,
           alpn_protocols = [ALPN], max_early_data_size = - 1, max_idle_timeout = t\<rparr>)"
  using assms
  by (auto simp: build_server_config_def Let_def question_then expect_then map_sum_Inr pure_def)

lemma baseline_server_up:
  assumes "baseline_endpoint lib quic_crypto timeout_of open_endpoint listen idle w = (Inr (), w')"
  shows "\<exists>cfg. open_endpoint cfg listen w = (Inr (), w') \<and> alpn_protocols cfg = [ALPN]
    \<and> max_early_data_size cfg = - 1 \<and> timeout_of idle = Some (max_idle_timeout cfg)
    \<and> accept_cert lib (cert_chain cfg) (private_key cfg) = Inr ()"
proof -
  from assms obtain cfg u where built: "build_server_config lib quic_crypto timeout_of idle w = (Inr cfg, u)"
    and "open_endpoint cfg listen u = (Inr (), w')"
    by (auto simp: baseline_endpoint_def and_then_Inr tried_Inr)
  moreover from build_server_config_Inr [OF built] obtain cert key t where "u = w" "timeout_of idle = Some t"
    "accept_cert lib [cert] key = Inr ()"
    "cfg = \<lparr>cert_chain = [cert], private_key = key, segmentation_offload = False,
           alpn_protocols = [ALPN], max_early_data_size = - 1, max_idle_timeout = t\<rparr>" by blast
  ultimately show ?thesis by (intro exI [of _ cfg]) simp
qed

lemma baseline_default_client:
  assumes "baseline_main server_part client_env (cli_client parse server None None None None None None None) w = Inr (Inr (), st)"
  shows "map iteration (records st) = map word_of_nat [0..<17]"
proof -
  from assms have "run_client (client_env server (parse ''10.200.1.1:0'')) ''unspecified'' 0 16 0 False 30 (tls_start w) = (Inr (), st)"
    by (simp add: baseline_main_def cli_client_def given_def)
  from run_client_numbered [OF this] show ?thesis by (simp add: numbered_def)
qed

end
