(* ===== verification/Demo.thy ===== *)
theory Demo
  imports Runtime
begin

text \<open>
  The demonstration of the library (\<open>mls-demo/src/main.rs\<close>): two clients, a group, a join and one more
  commit, with the assertions of the program. mls_rs is a parameter; the randomness it draws is part of the
  outside world, and the text of a missing cipher suite is the library's. Shown is that with a library whose members agree the assertions on the two epochs
  never fail.
\<close>

datatype 'e demo_error = MlsFailure 'e | CryptoFailure string

record ('w, 'e, 'p, 'k, 'c, 'g, 'n, 'm) mls_lib =
  suite_provider :: "string + 'p"
  signature_keys :: "'p \<Rightarrow> 'w \<Rightarrow> (string + 'k) \<times> 'w"
  client_with :: "string \<Rightarrow> 'k \<Rightarrow> 'c"
  new_group :: "'c \<Rightarrow> 'w \<Rightarrow> ('e + 'g) \<times> 'w"
  key_package :: "'c \<Rightarrow> 'w \<Rightarrow> ('e + 'm) \<times> 'w"
  builder_add :: "'g \<Rightarrow> 'm \<Rightarrow> 'e + 'n"
  builder_build :: "'n \<Rightarrow> 'w \<Rightarrow> ('e + 'g \<times> 'm list) \<times> 'w"
  apply_pending :: "'g \<Rightarrow> 'e + 'g"
  join :: "'c \<Rightarrow> 'm \<Rightarrow> 'w \<Rightarrow> ('e + 'g) \<times> 'w"
  export :: "'g \<Rightarrow> bytes \<Rightarrow> bytes \<Rightarrow> nat \<Rightarrow> 'e + bytes"
  bare_commit :: "'g \<Rightarrow> 'w \<Rightarrow> ('e + 'g \<times> 'm) \<times> 'w"
  process_message :: "'g \<Rightarrow> 'm \<Rightarrow> 'e + 'g"

text \<open>A result of the library with \<open>?\<close>.\<close>

definition mls :: "'e + 'x \<Rightarrow> ('w, 'e demo_error, 'x) program" where
  "mls r = question (map_sum MlsFailure (\<lambda>x. x) r)"

definition demo_client ::
    "('w, 'e, 'p, 'k, 'c, 'g, 'n, 'm) mls_lib \<Rightarrow> string \<Rightarrow> ('w, 'e demo_error, 'c) program" where
  "demo_client lib name =
     and_then (question (map_sum CryptoFailure (\<lambda>x. x) (suite_provider lib))) (\<lambda>cs_provider.
     and_then (tried CryptoFailure (signature_keys lib cs_provider)) (\<lambda>keys.
     pure (client_with lib name keys)))"

definition demo_label :: bytes where
  "demo_label = ascii ''quic-mls-baseline''"

definition assert_that :: "string \<Rightarrow> bool \<Rightarrow> ('w, 'e, unit) program" where
  "assert_that message b = (if b then pure () else halt (Panicked message))"

definition demo_main :: "('w, 'e, 'p, 'k, 'c, 'g, 'n, 'm) mls_lib \<Rightarrow> ('w, 'e demo_error, unit) program" where
  "demo_main lib =
     and_then (demo_client lib ''alice'') (\<lambda>alice.
     and_then (demo_client lib ''bob'') (\<lambda>bob.
     and_then (tried MlsFailure (new_group lib alice)) (\<lambda>alice_group.
     and_then (tried MlsFailure (key_package lib bob)) (\<lambda>bob_kp.
     and_then (mls (builder_add lib alice_group bob_kp)) (\<lambda>builder.
     and_then (tried MlsFailure (builder_build lib builder)) (\<lambda>(alice_group, welcome_messages).
     and_then (mls (apply_pending lib alice_group)) (\<lambda>alice_group.
     and_then (expect ''index out of bounds'' (index welcome_messages 0)) (\<lambda>welcome.
     and_then (tried MlsFailure (join lib bob welcome)) (\<lambda>bob_group.
     and_then (mls (export lib alice_group demo_label [] 32)) (\<lambda>alice_e1.
     and_then (mls (export lib bob_group demo_label [] 32)) (\<lambda>bob_e1.
     and_then (assert_that ''epoch 1: alice and bob export_secret must match'' (alice_e1 = bob_e1)) (\<lambda>_.
     and_then (tried MlsFailure (bare_commit lib alice_group)) (\<lambda>(alice_group, commit2).
     and_then (mls (apply_pending lib alice_group)) (\<lambda>alice_group.
     and_then (mls (process_message lib bob_group commit2)) (\<lambda>bob_group.
     and_then (mls (export lib alice_group demo_label [] 32)) (\<lambda>alice_e2.
     and_then (mls (export lib bob_group demo_label [] 32)) (\<lambda>bob_e2.
     and_then (assert_that ''epoch 2: alice and bob export_secret must match'' (alice_e2 = bob_e2)) (\<lambda>_.
     assert_that ''epoch rotation must produce a different export_secret'' (alice_e1 \<noteq> alice_e2)))))))))))))))))))"

text \<open>
  What MLS promises of its members: the exports depend on the epoch only, who joins by a welcome of a
  commit is in the epoch of the committer, and who processes a commit in the committer's epoch follows
  to the next one.
\<close>

definition members_agree :: "('w, 'e, 'p, 'k, 'c, 'g, 'n, 'm) mls_lib \<Rightarrow> ('g \<Rightarrow> 'x) \<Rightarrow> bool" where
  "members_agree lib epoch \<longleftrightarrow>
     (\<forall>g h. epoch g = epoch h \<longrightarrow> export lib g = export lib h)
   \<and> (\<forall>g kp n w g' ms w' g'' m c v h v'. builder_add lib g kp = Inr n \<and> builder_build lib n w = (Inr (g', ms), w')
        \<and> apply_pending lib g' = Inr g'' \<and> m \<in> set ms \<and> join lib c m v = (Inr h, v') \<longrightarrow> epoch h = epoch g'')
   \<and> (\<forall>g h w g' m w' g'' h'. epoch h = epoch g \<and> bare_commit lib g w = (Inr (g', m), w')
        \<and> apply_pending lib g' = Inr g'' \<and> process_message lib h m = Inr h' \<longrightarrow> epoch h' = epoch g'')"

text \<open>The panics a program may stop with; a step passes what it got on to the next ones.\<close>

definition only_panics :: "string set \<Rightarrow> ('w, 'e, 'x) program \<Rightarrow> bool" where
  "only_panics A m \<longleftrightarrow> (\<forall>w msg w'. m w = (Inl (Panicked msg), w') \<longrightarrow> msg \<in> A)"

lemma only_panics_steps:
  "(\<And>x v u. g v = (Inr x, u) \<Longrightarrow> only_panics A (k x)) \<Longrightarrow> only_panics A (and_then (tried f g) k)"
  "(\<And>x. r = Inr x \<Longrightarrow> only_panics A (l x)) \<Longrightarrow> only_panics A (and_then (mls r) l)"
  "m \<in> A \<Longrightarrow> (\<And>x. y = Some x \<Longrightarrow> only_panics A (h x)) \<Longrightarrow> only_panics A (and_then (expect m y) h)"
  "b \<Longrightarrow> only_panics A p \<Longrightarrow> only_panics A (and_then (assert_that n b) (\<lambda>_. p))"
  "n \<in> A \<Longrightarrow> only_panics A (assert_that n b)"
proof -
  show "(\<And>x v u. g v = (Inr x, u) \<Longrightarrow> only_panics A (k x)) \<Longrightarrow> only_panics A (and_then (tried f g) k)"
    unfolding only_panics_def by (simp add: and_then_panics tried_Inr) blast
  show "(\<And>x. r = Inr x \<Longrightarrow> only_panics A (l x)) \<Longrightarrow> only_panics A (and_then (mls r) l)"
    unfolding only_panics_def by (cases r) (auto simp: and_then_panics mls_def question_def pure_def halt_def)
qed (auto simp: only_panics_def and_then_panics expect_def assert_that_def pure_def halt_def split: option.splits if_splits)

lemma only_panics_client: "(\<And>x. only_panics A (k x)) \<Longrightarrow> only_panics A (and_then (demo_client lib name) k)"
  unfolding only_panics_def by (auto simp: and_then_panics demo_client_def)

lemma only_panics_case: "(\<And>a b. q = (a, b) \<Longrightarrow> only_panics A (k a b)) \<Longrightarrow> only_panics A (case q of (a, b) \<Rightarrow> k a b)"
  by (cases q) simp

text \<open>
  The assertions of the demonstration. If members agree in the sense of MLS, its only panics are a commit
  without a welcome message and a collision of the exports of two epochs.
\<close>

lemma demo_assertions:
  assumes "members_agree lib epoch" and "demo_main lib w = (Inl (Panicked msg), w')"
  shows "msg \<in> {''index out of bounds'', ''epoch rotation must produce a different export_secret''}"
proof -
  note mem = assms(1) [unfolded members_agree_def]
  note agree = mem [THEN conjunct1, rule_format]
  have joins: "epoch h = epoch g''" if "builder_add lib g kp = Inr n" "builder_build lib n u = (Inr (g', ms), u')"
    "apply_pending lib g' = Inr g''" "index ms 0 = Some m" "join lib c m v = (Inr h, v')" for g kp n u g' ms u' g'' m c v h v'
    using mem [THEN conjunct2, THEN conjunct1, rule_format, of g kp n u g' ms u' g'' m c v h v'] that
    by (auto simp: index_def split: if_splits)
  have follows: "epoch h' = epoch g''" if "epoch h = epoch g" "bare_commit lib g u = (Inr (g', m), u')"
    "apply_pending lib g' = Inr g''" "process_message lib h m = Inr h'" for h g u g' m u' g'' h'
    using mem [THEN conjunct2, THEN conjunct2, rule_format, of h g u g' m u' g'' h'] that by blast
  have first: "e = e'" if "builder_add lib g kp = Inr n" "builder_build lib n u = (Inr (g', ms), u')"
    "apply_pending lib g' = Inr g''" "index ms 0 = Some m" "join lib c m v = (Inr h, v')"
    "export lib g'' l x y = Inr e" "export lib h l x y = Inr e'" for g kp n u g' ms u' g'' m c v h v' l x y e e'
    using agree [OF joins [OF that(1-5)]] that(6,7) by simp
  have second: "e = e'" if "builder_add lib g kp = Inr n" "builder_build lib n u = (Inr (g', ms), u')"
    "apply_pending lib g' = Inr g''" "index ms 0 = Some m" "join lib c m v = (Inr h, v')"
    "bare_commit lib g'' z = (Inr (i, m'), z')" "apply_pending lib i = Inr i'" "process_message lib h m' = Inr h'"
    "export lib i' l x y = Inr e" "export lib h' l x y = Inr e'" for g kp n u g' ms u' g'' m c v h v' z i m' z' i' h' l x y e e'
    using agree [OF follows [OF joins [OF that(1-5)] that(6-8)]] that(9,10) by simp
  have "only_panics {''index out of bounds'', ''epoch rotation must produce a different export_secret''} (demo_main lib)"
    unfolding demo_main_def
    by (intro only_panics_client only_panics_steps only_panics_case; simp?) (blast intro: first, blast intro: second)
  with assms(2) show ?thesis unfolding only_panics_def by blast
qed

end
