(* ===== verification/Spec2Isabelle.thy ===== *)
theory Spec2Isabelle
  imports Prelude Epochs Ordered_Map Transcript Group Preamble Hkdf Packet_Key Header_Key Keys Retry
    Session Config Control Sync Args Runtime Runner_Alice Alice_Refines Alice_Telemetry
    Alice_Delivers Alice_Agrees Runner_Bob Bob_Refines Bob_Catches_Up Telemetry Runners_Terminate
    Bootstrap Testbed Tls_Baseline Echo Binaries Demo
begin

text \<open>
  A verification development for QUIC-MLS, a QUIC stack in Rust whose TLS handshake is replaced by an
  MLS group, for links with long delays and blackouts.

  The program and its parts. A sender (Alice) and a receiver (Bob) share an MLS group. Every QUIC key is
  exported from the group (\<open>quic-mls/src/keys.rs\<close>, \<open>session.rs\<close>), so a connection has its keys
  before the first packet. Alice's commits change the group; she keeps those Bob has not reported in a
  log (\<open>group.rs\<close>) and sends the whole window, in datagrams of their own beside QUIC
  (\<open>transcript.rs\<close>, \<open>preamble.rs\<close>), before each reconnection and after each commit. Bob's socket tells
  these preambles from QUIC packets and hands them to a sink that replays the commits he lacks; he
  reports his epoch over a control stream (\<open>control.rs\<close>) and Alice trims her log. Two testbed programs
  (\<open>testbed-runner/src/main.rs\<close>) run both ends through contact windows and blackouts; a TLS
  client and server (\<open>quic-tls/src/main.rs\<close>) are the baseline of the measurements, and an echo server
  with its client and a demonstration of mls_rs are examples.

  Conventions (\<open>Prelude\<close>). A \<open>u64\<close>, \<open>u32\<close> or \<open>u8\<close> is a word of that width, with the wrapping arithmetic of
  a release build; where a wrap would matter the theorem has the bound in its statement. A byte string is a
  list of 8-bit words, a panic is the value \<open>Panic\<close>, an error is the left side of a sum. A \<open>Mutex\<close> is its
  contents and the poison flag. Code of other crates (mls_rs, the AEAD, AES, HKDF, the transport
  parameters of quinn_proto, sockets, streams, the clock) is an argument of the definitions that use it;
  hypotheses such as \<open>apply_atomic\<close> state what its documentation promises, and each theorem
  with such a hypothesis has a witness on a concrete instance.

  Theories, the code they model, and what their lemmas show.

  \<^item> \<open>Prelude\<close>, \<open>Epochs\<close>, \<open>Ordered_Map\<close>: words, slices, big-endian bytes, ranges of epochs, and
    \<open>BTreeMap\<close> as a sorted association list. The locales \<open>byte_codec\<close>, \<open>machine_invariant\<close> and
    \<open>machine_progress\<close> are the interfaces of codecs and state machines.
  \<^item> \<open>Transcript\<close> (\<open>transcript.rs\<close>): \<open>encode_transcript\<close> and \<open>decode_transcript\<close>; round trip under a byte
    budget, soundness and totality of the decoder.
  \<^item> \<open>Group\<close> (\<open>group.rs\<close>): the trait \<open>ExportSecret\<close> as a record of operations with its four
    implementations, \<open>CommitLog\<close>, \<open>apply_commit_window\<close>; the window is exactly the epochs after the
    checkpoint in every reachable log, and a replay catches up or asks for a resync exactly when it must.
  \<^item> \<open>Preamble\<close> (\<open>preamble.rs\<close>): packing into datagrams, sending, classification and \<open>poll_recv\<close> over a
    script of socket events; the packing is the longest prefix that fits and no datagram exceeds
    1200 bytes.
  \<^item> \<open>Hkdf\<close>, \<open>Packet_Key\<close>, \<open>Header_Key\<close>, \<open>Keys\<close>, \<open>Retry\<close> (the files of the same names): key derivation,
    packet and header protection, retry integrity; round trips, separation of labels and nonces, and
    that what one side protects the other opens. This theory adds that a protected packet and a preamble
    are never confused on the socket they share.
  \<^item> \<open>Session\<close> (\<open>session.rs\<close>): the handshake and key updates as a state machine; it moves forward, completes,
    hands out keys only with the peer's parameters, and each method panics exactly where the library it
    relies on refuses.
  \<^item> \<open>Config\<close> (\<open>config.rs\<close>): the single-use configurations and the poisoning of their mutex.
  \<^item> \<open>Control\<close> (\<open>control.rs\<close>): the messages and the two report loops, over streams cut anywhere.
  \<^item> \<open>Sync\<close>: Bob's sink from \<open>run_bob\<close> and the synchronisation protocol as a step relation over a network
    that loses, repeats and reorders; its safety, and recovery from every reachable state.
  \<^item> \<open>Args\<close> (\<open>parse_args\<close>): the command line, against a reference that takes the last value of each flag.
  \<^item> \<open>Runtime\<close> (\<open>wait_for_ready\<close>, \<open>Telemetry::row\<close>, \<open>transport_config\<close>): programs over an outside world as
    functions from a state to a result and a state, where an error, a panic and the end of the bound are
    ways to stop; with rules for what a program preserves, and for how it comes to an end. A wait is a future
    that may never complete (\<open>await\<close>), under a timeout where the code has one (\<open>under_timeout\<close>); of the clock
    only what is documented is assumed: readings do not go back and a sleep is not short.
  \<^item> \<open>Runner_Alice\<close> (\<open>run_alice\<close>), \<open>Runner_Bob\<close> (\<open>run_bob\<close>): the two main programs statement by
    statement. The tasks that run beside them share state only through a mutex, so they are let act
    before each lock; the datagrams that \<open>others\<close> brings the sender's peer are her own, those that
    \<open>while_open\<close> and \<open>arrivals\<close> bring the receiver are any. The locale \<open>alice_invariant\<close> says what an invariant of the sender has to satisfy; it is
    interpreted in \<open>Alice_Refines\<close> (beside such a network the sender is an execution of the protocol), in \<open>Alice_Telemetry\<close>
    (its rows count the commits), in \<open>Alice_Delivers\<close> (the rows of its preambles are true of the
    wire), in \<open>Alice_Agrees\<close> (a member that applies its commits stays in its epoch) and in \<open>Telemetry\<close>
    (the events of its rows). What was put on the wire, committed and reported (\<open>wire\<close>, \<open>made\<close>,
    \<open>peer_reports\<close>, \<open>trims\<close>) is ghost state that no statement of the program reads. \<open>Bob_Refines\<close> shows
    that the receiver replays the sender's history, \<open>Bob_Catches_Up\<close> that the datagrams of a preamble take
    him to its last epoch. Their locales \<open>faithful_arrivals\<close> and \<open>steady_arrivals\<close> say what a datagram has to
    satisfy for this, and are interpreted both for the datagrams of the protocol and, over a library
    that accepts nobody else's commits, for datagrams of anybody, forged or not
    (\<open>run_bob_among_strangers\<close>). This theory puts the two programs together: what the receiver has is a
    prefix of what the sender made, he reaches every epoch of her telemetry whose preamble he handles, and
    her log is exactly what follows the greatest report she was trimmed by, so it is empty, and both
    are in one epoch, once the report of her last commit was handled. The reports that trim the sender's
    log are those the receiver's report tasks read, by \<open>reports_end_to_end\<close> of \<open>Control\<close>.
  \<^item> \<open>Telemetry\<close> (\<open>Telemetry::open\<close>, \<open>Telemetry::row\<close>): the text of the telemetry file; splitting it at
    line breaks and commas gives back every row of both programs.
  \<^item> \<open>Runners_Terminate\<close>: both programs end, on a clock that need not advance between readings and with a network on which
    no reconnection, \<open>accept\<close> or \<open>accept_bi\<close> has to complete.
  \<^item> \<open>Bootstrap\<close> (\<open>make_client\<close>, \<open>wait_for_file\<close>, \<open>bootstrap_alice\<close>, \<open>bootstrap_bob\<close>): the exchange of
    the first messages over files, as two interleaved processes; it agrees with the sequential exchange
    and can always be completed, but a reader that comes between the creation of a file and its last write
    panics.
  \<^item> \<open>Testbed\<close> (\<open>main\<close>): the command line chooses the program. Two processes that start from the groups of
    one bootstrap have the same keys, with local and remote exchanged, whenever they are in one epoch, by what
    MLS promises of two members (\<open>mls_members\<close>).
  \<^item> \<open>Tls_Baseline\<close> (\<open>quic-tls/src/main.rs\<close>): the TLS client and the records it prints.
  \<^item> \<open>Echo\<close> (\<open>echo-server/src/lib.rs\<close>, \<open>echo-client/src/lib.rs\<close>, \<open>run_server\<close> and \<open>handle_connection\<close> of
    \<open>quic-tls/src/main.rs\<close>): the two servers as pools of tasks that interleave in any way. The locales
    \<open>task_ledger\<close> and \<open>task_content\<close> say what the steps of the tasks have to satisfy, and are interpreted for
    both servers: every stream is answered once, with what was read from it. The client gets back what it
    sent.
  \<^item> \<open>Binaries\<close> (\<open>echo-server/src/lib.rs\<close> and the \<open>main.rs\<close> of \<open>echo-server\<close>, \<open>echo-client\<close> and
    \<open>quic-tls\<close>): the certificate and configuration of the two TLS servers, the defaults of the
    command line and the main functions. The echo server presents the certificate it wrote to disk, the
    echo client ends well when nothing fails, and the baseline client without flags writes seventeen records.
  \<^item> \<open>Demo\<close> (\<open>mls-demo/src/main.rs\<close>): the assertions of the demonstration follow from what MLS promises.

  Bounds. The only recursion with a bound is \<open>repeat\<close>, for the \<open>while\<close> and \<open>loop\<close> of the asynchronous
  programs; a program that exceeds it stops with \<open>Running\<close>, so the theorems about what a run
  does hold for every bound, also for runs that are cut short. \<open>wait_for_ready_signal\<close> shows that a bound above the
  report timeout in nanoseconds is never reached by the wait for the ready file, and \<open>runners_terminate\<close> that neither is one above
  the duration, the report timeout and the $2^{64}$ cycles of the ready file together by the loops of \<open>run_alice\<close>, since each tick of her
  ticker is due a period after the one before and each wait takes the report timeout or finds a later
  cycle, nor one above the number of connections that come in by the loop of \<open>run_bob\<close>. The loop of the report
  receiver, whose stream may never end, is a partial function that is shown to return on every finite
  stream; all other loops recurse over their data.

  Not modelled. The crate root, the tests and the scripts; the generation and verification of certificates,
  clap and the TLS libraries themselves, with the verifier of the baseline client that accepts every
  certificate (\<open>SkipServerVerification\<close>) and \<open>app_ping\<close>, which is never called; the methods of
  \<open>PreambleSocket\<close> that are those of its socket (\<open>local_addr\<close>, \<open>poll_writable\<close>, \<open>create_io_poller\<close>);
  \<open>endpoint_config_without_quic_bit_greasing\<close>, one setting of quinn; the \<open>Display\<close> texts, logging, and
  the decimal text of a floating-point number have no logic. The timing of tokio's interval and select is
  left to the environment, which covers every timing. A fault inside the model's total calls (a full disk under
  \<open>println\<close>, a clock before 1970) has no branch of its own. Beyond these nothing of the program's own logic remains.
\<close>

section \<open>QUIC packets and preambles on one socket\<close>

text \<open>
  C18: A protected packet is never taken for a preamble. Header protection keeps the two upper bits of the
  first byte, of which every QUIC packet has one (the header form or the fixed bit); so the datagram that
  goes out by \<open>try_send\<close>, unchanged and not counted as preamble bytes, is for the receiver's socket no
  preamble, whatever the mask: \<open>poll_recv\<close> hands it to QUIC and leaves the sink alone; and it is none of
  the datagrams of a preamble.
\<close>

theorem protected_packet_no_preamble:
  assumes "aes_documented aes" and "header_key_wf k" and "1 \<le> off" and "off + 20 \<le> length p"
    and "p ! 0 AND 0xC0 \<noteq> 0"
  shows "\<exists>q. header_encrypt aes k off p = Ret q \<and> parse_preamble q = Ret None
    \<and> (\<forall>w budget. q \<notin> set (preamble_datagrams w budget))
    \<and> poll_recv receiver [Received q addr] 0 [buf] [m] s
        = Ret (Ready (Inr (1 :: nat) :: 'e + nat), [fill_buf buf q], [\<lparr>meta_addr = addr, meta_len = length q\<rparr>], s)
    \<and> (let (r, u) = tx (io sock) q dest in
         try_send tx sock q dest = (map_sum (\<lambda>e. e) (\<lambda>_. ()) r, sock\<lparr>io := u\<rparr>))"
proof -
  from header_protection_frame [OF assms(1-4)] obtain q where
    q: "header_encrypt aes k off p = Ret q" "length q = length p" "q ! 0 AND 0xe0 = p ! 0 AND 0xe0" by blast
  from q(2) assms(4) obtain b bs where b: "q = b # bs" by (cases q) auto
  have "(q ! 0 AND 0xe0) AND 0xC0 = (p ! 0 AND 0xe0) AND 0xC0" by (simp only: q(3))
  then have "b AND 0xC0 \<noteq> 0" using assms(5) b by (simp add: and.assoc)
  then have no: "\<not> is_preamble_marker b" by (simp add: is_preamble_marker_def)
  then have parse: "parse_preamble q = Ret None" by (simp add: parse_preamble_def b)
  then have "poll_recv receiver [Received q addr] 0 [buf] [m] s
      = Ret (Ready (Inr (1 :: nat) :: 'e + nat), [fill_buf buf q], [\<lparr>meta_addr = addr, meta_len = length q\<rparr>], s)"
    by (simp add: poll_recv.simps fill_buf_def Let_def)
  moreover have "q \<notin> set (preamble_datagrams w budget)" for w budget
    using no by (auto simp: b preamble_datagrams_def is_preamble_marker_def PREAMBLE_MARKER_def)
  moreover have "let (r, u) = tx (io sock) q dest in
      try_send tx sock q dest = (map_sum (\<lambda>e. e) (\<lambda>_. ()) r, sock\<lparr>io := u\<rparr>)"
    by (auto simp: try_send_def Let_def split: prod.split sum.split)
  ultimately show ?thesis using q(1) parse by blast
qed

lemma protected_packet_no_preamble_witness:
  "\<exists>q. header_encrypt sample_aes sample_header_key 9 (replicate 40 0x41) = Ret q
     \<and> poll_recv sample_receiver [Received q ()] 0 [[]] [\<lparr>meta_addr = (), meta_len = 0\<rparr>] []
        = Ret (Ready (Inr 1 :: unit + nat), [q], [\<lparr>meta_addr = (), meta_len = length q\<rparr>], [])"
proof -
  define tx :: "unit \<Rightarrow> bytes \<Rightarrow> unit \<Rightarrow> (unit + nat) \<times> unit" where "tx = (\<lambda>u b p. (Inr 0, u))"
  define sock :: "(unit, unit) PreambleSocket" where "sock = preamble_socket_new () None"
  show ?thesis
    using protected_packet_no_preamble [OF sample_aes_documented sample_header_key_wf, of 9 "replicate 40 0x41"
        sample_receiver "()" "[]" "\<lparr>meta_addr = (), meta_len = 0\<rparr>" "[]" tx sock "()"]
    by (auto simp: fill_buf_def)
qed

section \<open>The two runners together\<close>

text \<open>
  C3: The two programs stay synchronised. Let \<open>run_alice\<close> and \<open>run_bob\<close> start from groups of the same
  MLS session, let every preamble that arrives at the receiver be one the sender has put on the
  wire, and every report that reaches the sender's side one the receiver's report tasks have read,
  all of them lost, repeated, reordered or late as they may be. Then, wherever the two stop and
  whatever the rest of their environments did, the sender's checkpoint is at most the receiver's epoch,
  which is at most the number of commits she has made, and her log still holds every commit he lacks;
  unless a panic of the library has poisoned the locks, his group is the first one with exactly that
  many of her commits applied in order; and no epoch in his telemetry exceeds his own.
\<close>

theorem runners_synchronise:
  assumes "apply_atomic bops"
    and "run_alice fuel env aops bops no_peer args (alice_start w g g0) = (ra, sa)" and "length (made sa) < 2 ^ 64"
    and "run_bob fuel' benv bops tpl args' (bob_run_start w' g0) = (rb, sb)"
    and "hears benv (\<lambda>d. d \<in> set (wire sa))" and "peer_reports sa \<subseteq> set (observed sb)"
  shows "let e = guarded (local_epoch (shared sb)); l = guarded (alice_group sa) in
      checkpoint l \<le> e \<and> unat e \<le> length (made sa)
    \<and> map snd (filter (\<lambda>x. e < fst x) (window_bytes l)) = drop (unat e) (made sa)
    \<and> (\<not> poisoned (bob_group (shared sb)) \<longrightarrow>
         apply_commits bops g0 (take (unat e) (made sa)) = Ret (Inr (), guarded (bob_group (shared sb)), unat e))
    \<and> (\<forall>x \<in> set (handshake_epochs (rows sb)). x \<le> e)"
proof -
  let ?s = "protocol_state g0 sa" and ?e = "guarded (local_epoch (shared sb))"
  note reached = run_alice_reaches [OF assms(1-3)]
  note inv = reach_sync_inv [OF reached assms(1)]
  note bob = run_bob_replays [OF assms(1,3) heard_carries [OF assms(1-3,5)] assms(4), unfolded replaying_def]
  have "checkpoint (alice ?s) \<le> ?e"
    using trimmed.reach_inv [OF reached] bob assms(6) by (auto simp: protocol_state_def)
  moreover have "?e \<le> current_epoch (alice ?s)"
    using bob sync_invD(2) [OF inv] by (simp add: replays_def protocol_state_def word_le_nat_alt)
  ultimately have log: "checkpoint (alice ?s) \<le> ?e"
    "map snd (filter (\<lambda>x. ?e < fst x) (window_bytes (alice ?s))) = drop (unat ?e) (history ?s)"
    using window_after [OF inv] by simp_all
  from bob have replay: "unat ?e \<le> length (made sa)" "\<not> poisoned (bob_group (shared sb)) \<longrightarrow>
      apply_commits bops g0 (take (unat ?e) (made sa)) = Ret (Inr (), guarded (bob_group (shared sb)), unat ?e)"
    unfolding replays_def bob_ok_def by metis+
  from run_bob_epochs [OF assms(4)] have "\<forall>x \<in> set (handshake_epochs (rows sb)). x \<le> ?e"
    unfolding epochs_ok_def by blast
  with log replay show ?thesis
    unfolding Let_def protocol_state_def system.simps by (intro conjI)
qed

text \<open>
  C4: The receiver catches up with the sender's telemetry. If the library accepts the sender's commits, each
  fits a datagram and all together the budget, then no preamble makes the receiver panic, and for
  every row of a preamble in her telemetry, once he has handled its datagrams in order, whatever
  else of hers comes before, between and after them, and unless he was behind a commit the preamble does
  not have, his epoch is at least that of the row.
\<close>

theorem runners_converge:
  assumes "apply_atomic bops"
    and "run_alice fuel env aops bops no_peer args (alice_start w g g0) = (ra, sa)" and "length (made sa) < 2 ^ 64"
    and "run_bob fuel' benv bops tpl args' (bob_run_start w' g0) = (rb, sb)"
    and "hears benv (\<lambda>d. d \<in> set (wire sa))"
    and "apply_commits bops g0 (made sa) = Ret (Inr (), gh, length (made sa))"
    and "\<forall>b \<in> set (made sa). length b \<le> 1179"
    and "sum_list (map (\<lambda>b. 12 + length b) (made sa)) \<le> transcript_max_bytes args"
    and "line \<in> set (rows sa)" and "event line \<in> {''commit_net'', ''handshake_transcript_embedded''}"
  shows "\<not> poisoned (bob_group (shared sb)) \<and> \<not> poisoned (local_epoch (shared sb))
    \<and> (\<exists>c window before after.
          wire sa = before @ preamble_datagrams window (transcript_max_bytes args) @ after
        \<and> covers (made sa) c (row_epoch line) window \<and> c \<le> checkpoint (guarded (alice_group sa))
        \<and> (\<forall>earlier later. handled sb = earlier @ later
             \<and> subseq (preamble_datagrams window (transcript_max_bytes args)) later
             \<and> c \<le> guarded (local_epoch (fold (handle_arrival bops) earlier (bob_new g0)))
             \<longrightarrow> row_epoch line \<le> guarded (local_epoch (shared sb))))"
proof -
  note bob = run_bob_replays [OF assms(1,3) heard_carries [OF assms(1-3,5)] assms(4), unfolded replaying_def]
  have acc: "accepts bops g0 (made sa)" using assms(6) unfolding accepts_def by blast
  have heard: "\<forall>d \<in> set (handled sb). carries (made sa) d"
    and state: "shared sb = fold (handle_arrival bops) (handled sb) (bob_new g0)" using bob by simp_all
  have "bob_ok bops g0 (made sa) (shared sb)"
    unfolding state by (rule accepted_arrivals [OF assms(1,3) acc heard bob_ok_new])
  then have alive: "\<not> poisoned (bob_group (shared sb))" "\<not> poisoned (local_epoch (shared sb))"
    unfolding bob_ok_def by blast+
  from run_alice_offered [OF assms(1-3,9)] assms(10) obtain c window before after where
    sent: "wire sa = before @ preamble_datagrams window (transcript_max_bytes args) @ after"
      "covers (made sa) c (row_epoch line) window" "c \<le> checkpoint (guarded (alice_group sa))"
    unfolding offered_def send_events_def by auto
  have "row_epoch line \<le> guarded (local_epoch (shared sb))"
    if "handled sb = earlier @ later" "subseq (preamble_datagrams window (transcript_max_bytes args)) later"
      "c \<le> guarded (local_epoch (fold (handle_arrival bops) earlier (bob_new g0)))" for earlier later
    using accepted_preamble [OF assms(1,3) acc assms(7,8) sent(2) that(2) _ that(3)] heard state that(1) by simp
  with alive sent show ?thesis by blast
qed

text \<open>
  C5: The sender's log settles. In the same two runs, wherever they stop, her log holds exactly her commits after the
  greatest report it was trimmed by, and each such report is an epoch one of the receiver's report tasks
  has read and he has reached; no report is lost by the clamping in \<open>trim\<close>, none is needed twice. So as soon as
  the report of her last commit has been handled the log is empty, however many reports before it were
  lost or came late, and both ends are in one epoch: he has all her commits, in order, applied to his group.
\<close>

theorem runners_settle:
  assumes "apply_atomic bops"
    and "run_alice fuel env aops bops no_peer args (alice_start w g g0) = (ra, sa)" and "length (made sa) < 2 ^ 64"
    and "run_bob fuel' benv bops tpl args' (bob_run_start w' g0) = (rb, sb)"
    and "hears benv (\<lambda>d. d \<in> set (wire sa))" and "peer_reports sa \<subseteq> set (observed sb)"
  shows "let e = guarded (local_epoch (shared sb)); l = guarded (alice_group sa); k = fold max (trims sa) 0 in
      map fst (window_bytes l) = epochs k (current_epoch l) \<and> map snd (window_bytes l) = drop (unat k) (made sa)
    \<and> set (trims sa) \<subseteq> set (observed sb) \<and> k \<le> e
    \<and> (current_epoch l \<in> set (trims sa) \<longrightarrow>
         window_bytes l = [] \<and> e = current_epoch l \<and> unat e = length (made sa)
       \<and> (\<not> poisoned (bob_group (shared sb)) \<longrightarrow>
            apply_commits bops g0 (made sa) = Ret (Inr (), guarded (bob_group (shared sb)), length (made sa))))"
proof -
  let ?s = "protocol_state g0 sa" and ?e = "guarded (local_epoch (shared sb))" and ?k = "fold max (trims sa) 0"
  note reached = run_alice_reaches [OF assms(1-3)]
  note inv = reach_sync_inv [OF reached assms(1)] and taken = reach_taken [OF reached assms(1)]
  note bob = run_bob_replays [OF assms(1,3) heard_carries [OF assms(1-3,5)] assms(4), unfolded replaying_def]
  have checkpoint: "checkpoint (guarded (alice_group sa)) = ?k" and reports: "set (trims sa) \<subseteq> set (observed sb)"
    using taken assms(6) by (auto simp: taken_ok_def protocol_state_def)
  have log: "map fst (window_bytes (guarded (alice_group sa))) = epochs ?k (current_epoch (guarded (alice_group sa)))"
    "map snd (window_bytes (guarded (alice_group sa))) = drop (unat ?k) (made sa)"
    using log_source.win_epochs [OF sync_invD(1) [OF inv]] sync_invD(3) [OF inv] checkpoint by (simp_all add: protocol_state_def)
  have reached_e: "\<forall>x \<in> set (trims sa). x \<le> ?e" using reports bob by blast
  then have le: "?k \<le> ?e" by (rule fold_max_least) simp
  have cur: "unat (current_epoch (guarded (alice_group sa))) = length (made sa)"
    using sync_invD(2) [OF inv] by (simp add: protocol_state_def)
  have replay: "unat ?e \<le> length (made sa)" "\<not> poisoned (bob_group (shared sb)) \<Longrightarrow>
      apply_commits bops g0 (take (unat ?e) (made sa)) = Ret (Inr (), guarded (bob_group (shared sb)), unat ?e)"
    using bob unfolding replays_def bob_ok_def by metis+
  have settled: "window_bytes (guarded (alice_group sa)) = [] \<and> ?e = current_epoch (guarded (alice_group sa))"
    if "current_epoch (guarded (alice_group sa)) \<in> set (trims sa)"
  proof
    show "window_bytes (guarded (alice_group sa)) = []"
      using taken_empties [OF inv taken] that by (simp add: protocol_state_def)
    show "?e = current_epoch (guarded (alice_group sa))"
      by (rule antisym) (use reached_e that replay(1) cur in \<open>auto simp: word_le_nat_alt\<close>)
  qed
  show ?thesis
    unfolding Let_def using log reports le settled replay(2) cur by (intro conjI impI) simp_all
qed


text \<open>The sample sender's datagram reaches the sample receiver while a connection is open.\<close>

definition sample_receiver_run :: "(string stop + unit) \<times> (duration, nat, bytes) bob_run" where
  "sample_receiver_run = run_bob 9 sample_receiver_env sample_ops sample_tp sample_bob_args (bob_run_start 0 0)"

lemma sample_receiver_synchronises:
  "local_epoch (shared (snd sample_receiver_run)) = \<lparr>poisoned = False, guarded = 1\<rparr>
   \<and> bob_group (shared (snd sample_receiver_run)) = \<lparr>poisoned = False, guarded = 1\<rparr>
   \<and> {0, 1} \<subseteq> set (observed (snd sample_receiver_run))"
  by (simp add: sample_receiver_run_def run_bob_def sample_bob_args_def bob_run_start_def bob_new_def run_simps
        sample_receiver_env_def sample_bob_env_def from_secs_def bob_defs sample_arrival commit_sink_def Let_def)

lemma runners_synchronise_witness:
  "apply_commits sample_ops 0 (take 1 (made (snd sample_alice_run))) = Ret (Inr (), 1, 1)
   \<and> checkpoint (guarded (alice_group (snd sample_alice_run))) \<le> 1"
proof -
  have run: "run_bob 9 sample_receiver_env sample_ops sample_tp sample_bob_args (bob_run_start 0 0)
      = (fst sample_receiver_run, snd sample_receiver_run)" by (simp add: sample_receiver_run_def)
  have "length (made (snd sample_alice_run)) < 2 ^ 64" by (simp add: sample_alice_sends)
  moreover have "hears sample_receiver_env (\<lambda>d. d \<in> set (wire (snd sample_alice_run)))"
    by (simp add: hears_def sample_receiver_env_def sample_bob_env_def sample_alice_sends)
  moreover have "peer_reports (snd sample_alice_run) \<subseteq> set (observed (snd sample_receiver_run))"
    using sample_receiver_synchronises by (simp add: sample_alice_sends)
  ultimately show ?thesis
    using runners_synchronise [OF sample_atomic sample_alice_eq _ run] sample_receiver_synchronises
    by (simp add: Let_def)
qed

lemma sample_receiver_handles:
  "\<exists>ds. handled (snd sample_receiver_run) = sample_datagram # ds"
  by (simp add: sample_receiver_run_def run_bob_def sample_bob_args_def bob_run_start_def bob_new_def run_simps
        sample_receiver_env_def sample_bob_env_def from_secs_def bob_defs sample_arrival commit_sink_def Let_def)

lemma runners_converge_witness:
  "1 \<le> guarded (local_epoch (shared (snd sample_receiver_run)))"
proof -
  have run: "run_bob 9 sample_receiver_env sample_ops sample_tp sample_bob_args (bob_run_start 0 0)
      = (fst sample_receiver_run, snd sample_receiver_run)" by (simp add: sample_receiver_run_def)
  from sample_alice_row(1) obtain line where line: "line \<in> set (rows (snd sample_alice_run))"
    "event line = ''commit_net''" "row_epoch line = 1" by blast
  have "length (made (snd sample_alice_run)) < 2 ^ 64" by (simp add: sample_alice_sends)
  moreover have "hears sample_receiver_env (\<lambda>d. d \<in> set (wire (snd sample_alice_run)))"
    by (simp add: hears_def sample_receiver_env_def sample_bob_env_def sample_alice_sends)
  moreover have "apply_commits sample_ops 0 (made (snd sample_alice_run)) = Ret (Inr (), 1, length (made (snd sample_alice_run)))"
    by (simp add: sample_alice_sends)
  moreover have "\<forall>b \<in> set (made (snd sample_alice_run)). length b \<le> 1179"
    "sum_list (map (\<lambda>b. 12 + length b) (made (snd sample_alice_run))) \<le> transcript_max_bytes sample_args"
    by (simp_all add: sample_alice_sends sample_args_def)
  ultimately obtain c window before after where
    block: "wire (snd sample_alice_run) = before @ preamble_datagrams window (transcript_max_bytes sample_args) @ after"
      "c \<le> checkpoint (guarded (alice_group (snd sample_alice_run)))"
    and catch_up: "\<forall>earlier later. handled (snd sample_receiver_run) = earlier @ later
       \<and> subseq (preamble_datagrams window (transcript_max_bytes sample_args)) later
       \<and> c \<le> guarded (local_epoch (fold (handle_arrival sample_ops) earlier (bob_new 0)))
       \<longrightarrow> row_epoch line \<le> guarded (local_epoch (shared (snd sample_receiver_run)))"
    using runners_converge [OF sample_atomic sample_alice_eq _ run _ _ _ _ line(1)] line(2) by blast
  from block(1) have "subseq (preamble_datagrams window (transcript_max_bytes sample_args)) [sample_datagram]"
    by (metis sample_alice_sends list_emb_append2 list_emb_prefix subseq_order.refl)
  with sample_receiver_handles obtain ds where "handled (snd sample_receiver_run) = [] @ sample_datagram # ds"
    "subseq (preamble_datagrams window (transcript_max_bytes sample_args)) (sample_datagram # ds)"
    by (metis append_Cons append_Nil list_emb_prefix)
  moreover have "c = 0" using block(2) sample_alice_row(2) by simp
  ultimately show ?thesis using catch_up line(3) by fastforce
qed

text \<open>
  For the third witness a blackout follows the commit, and before the reconnection the receiver has
  handled the preamble and his report has come back.
\<close>

definition settling_env :: "(duration, string, string) alice_env" where
  "settling_env = sample_alice_env\<lparr>others := \<lambda>w. ([Delivered sample_datagram, Reported, Trimmed 1], w)\<rparr>"

definition settling_args :: "string Args" where
  "settling_args = sample_args\<lparr>duration := 40, blackout_on := 6, blackout_off := 1\<rparr>"

definition settling_run :: "(string stop + unit) \<times> (duration, nat, nat) alice_run" where
  "settling_run = run_alice 20 settling_env sample_ops sample_ops ''no peer'' settling_args (alice_start 0 0 0)"

lemma settling_delivery:
  "bob_receive sample_ops sample_datagram b = commit_sink sample_ops b [(1, [1])]"
  by (rule bob_receive_window [OF sample_datagram_window])

lemma settling_send_none:
  "alice_send_preamble env addr [] budget st = (Inr (Inr 0), st)"
  by (simp add: alice_send_preamble_eq preamble_datagrams_def bucket_simps)

lemma settling_ends:
  "fst settling_run = Inr () \<and> made (snd settling_run) = [[1]] \<and> wire (snd settling_run) = [sample_datagram]
   \<and> peer_reports (snd settling_run) = {1, 0} \<and> trims (snd settling_run) = [1]
   \<and> current_epoch (guarded (alice_group (snd settling_run))) = 1"
  by (simp add: settling_run_def run_alice_def settling_args_def sample_args_def alice_start_def commit_log_new_def btree_new_def bob_new_def run_simps settling_env_def sample_alice_env_def duration_add_def duration_MAX_def from_secs_def mutex_new_def)
    (simp add: alice_defs reconnection_def embed_transcript_def connect_under_timeout_def run_simps instant_add_def instant_END_def sample_ready [simplified] Let_def sample_log_simps(2-) sample_send
      settling_delivery settling_send_none commit_sink_def trim_def)

lemma runners_settle_witness:
  "window_bytes (guarded (alice_group (snd settling_run))) = []
   \<and> apply_commits sample_ops 0 [[1]] = Ret (Inr (), guarded (bob_group (shared (snd sample_receiver_run))), 1)"
proof -
  have alice: "run_alice 20 settling_env sample_ops sample_ops ''no peer'' settling_args (alice_start 0 0 0)
      = (Inr (), snd settling_run)" using settling_ends by (simp add: settling_run_def prod_eq_iff)
  have bob: "run_bob 9 sample_receiver_env sample_ops sample_tp sample_bob_args (bob_run_start 0 0)
      = (fst sample_receiver_run, snd sample_receiver_run)" by (simp add: sample_receiver_run_def)
  have "length (made (snd settling_run)) < 2 ^ 64" "hears sample_receiver_env (\<lambda>d. d \<in> set (wire (snd settling_run)))"
    "peer_reports (snd settling_run) \<subseteq> set (observed (snd sample_receiver_run))"
    using sample_receiver_synchronises by (simp_all add: settling_ends hears_def sample_receiver_env_def sample_bob_env_def)
  note settle = runners_settle [OF sample_atomic alice this(1) bob this(2,3), unfolded Let_def]
  have made: "made (snd settling_run) = [[1]]" "trims (snd settling_run) = [1]"
    "current_epoch (guarded (alice_group (snd settling_run))) = 1" using settling_ends by simp_all
  from settle show ?thesis using sample_receiver_synchronises by (simp add: made)
qed








end
